(* ===== verification/Prelude.thy ===== *)
theory Prelude
  imports Main "HOL-Library.Word" "HOL-Library.Monad_Syntax"
begin

text \<open>
  Shared vocabulary of the development: the machine-integer types of the C sources, checked
  access to C buffers, the errno values, and the rules with which the component theories
  reason about operations.

  An operation of the code is a function into \<open>option\<close>.  \<open>None\<close> means that the C call does
  not return in a defined way: it reads or writes outside an object, calls through a NULL
  pointer, or loops for ever.  Every error that the code reports itself (an errno value, an
  \<open>nmbs_error\<close>, a NULL result) is an ordinary value inside \<open>Some\<close>.  Hence a theorem of the
  form \<open>f x = Some y\<close>, or \<open>returns (f x) Q\<close>, states memory safety and termination together
  with the result.
\<close>

unbundle bit_operations_syntax

section \<open>Machine integers\<close>

type_synonym u8 = "8 word"
type_synonym u16 = "16 word"
type_synonym u32 = "32 word"
type_synonym u64 = "64 word"

text \<open>Signed integers keep their bits in a word; \<open>sint\<close> and \<open>\<le>s\<close>, \<open><s\<close> read them as two's complement.\<close>

type_synonym i16 = "16 word"
type_synonym i32 = "32 word"

section \<open>errno values (linux/errno.h)\<close>

definition EPERM :: "'a::len word" where "EPERM = 1"
definition EIO :: "'a::len word" where "EIO = 5"
definition ENOMEM :: "'a::len word" where "ENOMEM = 12"
definition EFAULT :: "'a::len word" where "EFAULT = 14"
definition ENODEV :: "'a::len word" where "ENODEV = 19"
definition EINVAL :: "'a::len word" where "EINVAL = 22"
definition ENOTTY :: "'a::len word" where "ENOTTY = 25"
definition ETIMEDOUT :: "'a::len word" where "ETIMEDOUT = 110"

lemmas errno_defs =
  EPERM_def EIO_def ENOMEM_def EFAULT_def ENODEV_def EINVAL_def ENOTTY_def ETIMEDOUT_def

section \<open>Checked buffers\<close>

text \<open>A C buffer is the list of its elements; an access outside of it is \<open>None\<close>.\<close>

definition buf_get :: "'a list \<Rightarrow> nat \<Rightarrow> 'a option" where
  "buf_get xs i = (if i < length xs then Some (xs ! i) else None)"

definition buf_set :: "'a list \<Rightarrow> nat \<Rightarrow> 'a \<Rightarrow> 'a list option" where
  "buf_set xs i x = (if i < length xs then Some (xs[i := x]) else None)"

definition buf_slice :: "'a list \<Rightarrow> nat \<Rightarrow> nat \<Rightarrow> 'a list option" where
  "buf_slice xs i n = (if i + n \<le> length xs then Some (take n (drop i xs)) else None)"

definition buf_splice :: "'a list \<Rightarrow> nat \<Rightarrow> 'a list \<Rightarrow> 'a list option" where
  "buf_splice xs i ys =
     (if i + length ys \<le> length xs then Some (take i xs @ ys @ drop (i + length ys) xs) else None)"

text \<open>Indexing with a C \<open>int\<close>: a negative index is outside of the buffer.\<close>

definition buf_get_int :: "'a list \<Rightarrow> i32 \<Rightarrow> 'a option" where
  "buf_get_int xs i = (if i <s 0 then None else buf_get xs (unat i))"

definition buf_set_int :: "'a list \<Rightarrow> i32 \<Rightarrow> 'a \<Rightarrow> 'a list option" where
  "buf_set_int xs i x = (if i <s 0 then None else buf_set xs (unat i) x)"

lemma buf_get_eq_Some [simp]: "buf_get xs i = Some x \<longleftrightarrow> i < length xs \<and> x = xs ! i"
  by (auto simp: buf_get_def)

lemma buf_get_eq_None [simp]: "buf_get xs i = None \<longleftrightarrow> length xs \<le> i"
  by (auto simp: buf_get_def)

lemma buf_get_in: "i < length xs \<Longrightarrow> buf_get xs i = Some (xs ! i)"
  by simp

lemma buf_set_eq_Some [simp]: "buf_set xs i x = Some ys \<longleftrightarrow> i < length xs \<and> ys = xs[i := x]"
  by (auto simp: buf_set_def)

lemma buf_set_in: "i < length xs \<Longrightarrow> buf_set xs i x = Some (xs[i := x])"
  by simp

lemma buf_slice_eq_Some [simp]:
  "buf_slice xs i n = Some ys \<longleftrightarrow> i + n \<le> length xs \<and> ys = take n (drop i xs)"
  by (auto simp: buf_slice_def)

lemma buf_splice_eq_Some [simp]:
  "buf_splice xs i ys = Some zs \<longleftrightarrow>
     i + length ys \<le> length xs \<and> zs = take i xs @ ys @ drop (i + length ys) xs"
  by (auto simp: buf_splice_def)

section \<open>Total correctness of operations\<close>

definition returns :: "'a option \<Rightarrow> ('a \<Rightarrow> bool) \<Rightarrow> bool" where
  "returns m Q \<longleftrightarrow> (\<exists>r. m = Some r \<and> Q r)"

named_theorems ops \<open>rules for returns, one per language construct or component operation\<close>

lemma returns_Some [simp]: "returns (Some r) Q \<longleftrightarrow> Q r"
  by (simp add: returns_def)

lemma returns_None [simp]: "\<not> returns None Q"
  by (simp add: returns_def)

lemma returns_bind [simp]: "returns (Option.bind m f) Q \<longleftrightarrow> returns m (\<lambda>r. returns (f r) Q)"
  by (cases m) simp_all

lemma returns_if [simp]:
  "returns (if b then m else m') Q \<longleftrightarrow> (b \<longrightarrow> returns m Q) \<and> (\<not> b \<longrightarrow> returns m' Q)"
  by simp

lemma returns_buf [simp]:
  "returns (buf_get xs i) Q \<longleftrightarrow> i < length xs \<and> Q (xs ! i)"
  "returns (buf_set xs i x) Q' \<longleftrightarrow> i < length xs \<and> Q' (xs[i := x])"
  "returns (buf_slice xs i k) Q' \<longleftrightarrow> i + k \<le> length xs \<and> Q' (take k (drop i xs))"
  "returns (buf_splice xs i ys) Q' \<longleftrightarrow> i + length ys \<le> length xs \<and>
     Q' (take i xs @ ys @ drop (i + length ys) xs)"
  by (auto simp: buf_get_def buf_set_def buf_slice_def buf_splice_def)

lemma returns_mono: "returns m P \<Longrightarrow> (\<And>r. P r \<Longrightarrow> Q r) \<Longrightarrow> returns m Q"
  by (auto simp: returns_def)

lemma returns_mono4:
  "returns m (\<lambda>(a, b, c, d). P a b c d) \<Longrightarrow> (\<And>a b c d. P a b c d \<Longrightarrow> Q a b c d) \<Longrightarrow>
    returns m (\<lambda>(a, b, c, d). Q a b c d)"
  by (auto simp: returns_def)

lemma returns_conj: "returns m P \<Longrightarrow> returns m Q \<Longrightarrow> returns m (\<lambda>r. P r \<and> Q r)"
  by (auto simp: returns_def)

lemma returnsI: "m = Some r \<Longrightarrow> Q r \<Longrightarrow> returns m Q"
  by (simp add: returns_def)

lemma returnsE:
  assumes "returns m Q" obtains r where "m = Some r" "Q r"
  using assms by (auto simp: returns_def)

lemma returns_eq_iff: "returns m (\<lambda>r. r = x) \<longleftrightarrow> m = Some x"
  by (auto simp: returns_def)

section \<open>Loops that may run for ever\<close>

text \<open>
  The body of such a loop is a function of the loop's variables: \<open>None\<close> is a pass without a defined
  end, \<open>Some (Inl s)\<close> one that goes on with \<open>s\<close>, and \<open>Some (Inr r)\<close> one that leaves the loop.  The
  value \<open>None\<close> of the loop has two causes that must not be confused, a pass that goes wrong and
  a loop that runs on and on; \<open>endless\<close> is the second one.
\<close>

partial_function (option) loop :: "('s \<Rightarrow> ('s + 'r) option) \<Rightarrow> 's \<Rightarrow> 'r option" where
  "loop body s = do {
     next \<leftarrow> body s;
     (case next of Inl s' \<Rightarrow> loop body s' | Inr r \<Rightarrow> Some r)
   }"

text \<open>At most \<open>n\<close> passes.\<close>

fun passes :: "('s \<Rightarrow> ('s + 'r) option) \<Rightarrow> nat \<Rightarrow> 's \<Rightarrow> ('s + 'r) option" where
  "passes body 0 s = Some (Inl s)"
| "passes body (Suc n) s = do {
     next \<leftarrow> body s;
     (case next of Inl s' \<Rightarrow> passes body n s' | Inr r \<Rightarrow> Some (Inr r))
   }"

definition endless :: "('s \<Rightarrow> ('s + 'r) option) \<Rightarrow> 's \<Rightarrow> bool" where
  "endless body s \<longleftrightarrow> (\<forall>n. \<exists>s'. passes body n s = Some (Inl s'))"

lemma loop_passes: "passes body n s = Some (Inl s') \<Longrightarrow> loop body s = loop body s'"
proof (induction n arbitrary: s)
  case (Suc n)
  then show ?case by (subst loop.simps) (auto split: bind_splits sum.splits)
qed simp

lemma loop_returns_iff: "loop body s = Some r \<longleftrightarrow> (\<exists>n. passes body n s = Some (Inr r))"
proof
  assume "loop body s = Some r"
  then show "\<exists>n. passes body n s = Some (Inr r)"
  proof (rule loop.raw_induct [where P = "\<lambda>body s r. \<exists>n. passes body n s = Some (Inr r)", rotated])
    fix lp :: "('s \<Rightarrow> ('s + 'r) option) \<Rightarrow> 's \<Rightarrow> 'r option" and body s r
    assume IH: "\<And>body s r. lp body s = Some r \<Longrightarrow> \<exists>n. passes body n s = Some (Inr r)"
      and eq: "do { next \<leftarrow> body s; case next of Inl s' \<Rightarrow> lp body s' | Inr r \<Rightarrow> Some r } = Some r"
    obtain x where x: "body s = Some x" "(case x of Inl s' \<Rightarrow> lp body s' | Inr r \<Rightarrow> Some r) = Some r"
      using eq by (auto split: bind_splits)
    show "\<exists>n. passes body n s = Some (Inr r)"
    proof (cases x)
      case (Inl s')
      then obtain n where "passes body n s' = Some (Inr r)" using IH [of body s' r] x(2) by auto
      then show ?thesis using x(1) Inl by (intro exI [of _ "Suc n"]) simp
    next
      case (Inr r')
      then show ?thesis using x by (intro exI [of _ "Suc 0"]) simp
    qed
  qed
next
  assume "\<exists>n. passes body n s = Some (Inr r)"
  then obtain n where "passes body n s = Some (Inr r)" ..
  then show "loop body s = Some r"
  proof (induction n arbitrary: s)
    case (Suc n)
    then show ?case by (subst loop.simps) (auto split: bind_splits sum.splits)
  qed simp
qed

lemma passes_end: "passes body n s = Some (Inr r) \<Longrightarrow> n \<le> m \<Longrightarrow> passes body m s = Some (Inr r)"
proof (induction n arbitrary: s m)
  case (Suc n)
  then obtain m' where "m = Suc m'" by (cases m) auto
  then show ?case using Suc by (auto split: bind_splits sum.splits)
qed simp

lemma passes_wrong: "passes body n s = None \<Longrightarrow> n \<le> m \<Longrightarrow> passes body m s = None"
proof (induction n arbitrary: s m)
  case (Suc n)
  then obtain m' where "m = Suc m'" by (cases m) auto
  then show ?case using Suc by (auto split: bind_splits sum.splits)
qed simp

text \<open>Either cause, and only these, leave the loop without a result.\<close>

lemma endless_loop: "endless body s \<Longrightarrow> loop body s = None"
  by (metis endless_def loop_returns_iff not_None_eq option.inject sum.distinct(1))

lemma loop_None_iff: "loop body s = None \<longleftrightarrow> endless body s \<or> (\<exists>n. passes body n s = None)"
proof
  assume none: "loop body s = None"
  show "endless body s \<or> (\<exists>n. passes body n s = None)"
  proof (rule disjCI)
    assume wrong: "\<nexists>n. passes body n s = None"
    have "\<exists>s'. passes body n s = Some (Inl s')" for n
    proof (cases "passes body n s")
      case None
      then show ?thesis using wrong by blast
    next
      case (Some x)
      then show ?thesis using none loop_returns_iff [of body s] by (cases x) auto
    qed
    then show "endless body s" by (simp add: endless_def)
  qed
next
  assume "endless body s \<or> (\<exists>n. passes body n s = None)"
  then show "loop body s = None"
  proof
    assume "\<exists>n. passes body n s = None"
    then obtain n where n: "passes body n s = None" ..
    have "passes body m s \<noteq> Some (Inr r)" for m r
      using n passes_end [of body m s r n] passes_wrong [of body n s m] by (cases "m \<le> n") auto
    then show "loop body s = None" using loop_returns_iff [of body s] by (cases "loop body s") auto
  qed (rule endless_loop)
qed

text \<open>The usual proof: an invariant that every pass keeps.\<close>

lemma endless_invariant:
  assumes "P s" "\<And>s. P s \<Longrightarrow> \<exists>s'. body s = Some (Inl s') \<and> P s'"
  shows "endless body s" "passes body n s = Some (Inl s') \<Longrightarrow> P s'"
proof -
  have "\<exists>s'. passes body n s = Some (Inl s') \<and> P s'" for n
    using assms(1)
  proof (induction n arbitrary: s)
    case (Suc n)
    obtain s1 where "body s = Some (Inl s1)" "P s1" using assms(2) [OF Suc.prems] by blast
    with Suc.IH [of s1] show ?case by simp
  qed simp
  then show "endless body s" "passes body n s = Some (Inl s') \<Longrightarrow> P s'"
    by (auto simp: endless_def) (metis option.inject sum.inject(1))
qed

section \<open>Lists and words\<close>

lemma unat_less_Suc_simp: "unat (x + 1) = Suc (unat x)" if "x < y" for x y :: "'a::len word"
proof -
  from that have "x \<noteq> - 1"
    using word_order.extremum_strict by auto
  then have "1 + x \<noteq> 0"
    by (metis add.commute add.right_inverse add_left_cancel)
  then show ?thesis by (simp add: unatSuc add.commute)
qed

lemma unat_minus_one_less: "unat (x - 1) = unat x - 1" if "x \<noteq> 0" for x :: "'a::len word"
  using that by (rule unat_minus_one)

lemma sint_eq_uint_small:
  fixes x :: "'a::len word"
  assumes "unat x < 2 ^ (LENGTH('a) - 1)"
  shows "sint x = uint x"
proof -
  have "uint x < 2 ^ (LENGTH('a) - 1)"
    using assms by (metis of_nat_less_iff of_nat_numeral of_nat_power uint_nat)
  moreover have "- (2 ^ (LENGTH('a) - 1)) \<le> uint x" by (rule order_trans [of _ 0]) auto
  ultimately show ?thesis
    by (simp add: sint_uint signed_take_bit_int_eq_self)
qed

lemma int_index:
  fixes k :: i32
  assumes "unat k < 2 ^ 31"
  shows "\<not> k <s 0"
  using sint_eq_uint_small [of k] assms by (simp add: word_sless_alt)

lemma unat_plus_one:
  fixes x :: "'a::len word"
  assumes "Suc (unat x) < 2 ^ LENGTH('a)"
  shows "unat (x + 1) = Suc (unat x)"
  using assms by (simp add: unat_word_ariths)

lemma unat_ucast:
  fixes x :: "'a::len word"
  shows "unat (ucast x :: 'b::len word) = unat x mod 2 ^ LENGTH('b)"
  by (simp add: unsigned_ucast_eq take_bit_eq_mod)

lemma unat_eq_of_nat:
  fixes x :: "'a::len word"
  shows "unat x = n \<longleftrightarrow> n < 2 ^ LENGTH('a) \<and> x = of_nat n"
proof
  assume "unat x = n"
  then show "n < 2 ^ LENGTH('a) \<and> x = of_nat n"
    using unsigned_less [of x, where ?'a = nat] by auto
next
  assume "n < 2 ^ LENGTH('a) \<and> x = of_nat n"
  then show "unat x = n"
    by (simp add: unsigned_of_nat take_bit_nat_eq_self)
qed

lemma unat_of_nat_less:
  "n < 2 ^ LENGTH('a) \<Longrightarrow> unat (of_nat n :: 'a::len word) = n"
  by (simp add: unsigned_of_nat take_bit_nat_eq_self)

end
