(* ===== verification/Byte_Fifo.thy ===== *)
theory Byte_Fifo
  imports Prelude "HOL-Library.Sublist"
begin

text \<open>
  The byte ring of \<^verbatim>\<open>serial_driver/byte_fifo.c\<close>: the queue between the serial receive
  callback, which writes it, and the Modbus read function, which drains it.  The mutex of
  the struct is not a field of the model: a critical section is one application of a
  \<open>_section\<close> definition, hence atomic, and the interleavings of the sections of a writer and
  a reader are the step relation \<open>fifo_step\<close>.  The kernel is compiled with
  \<^verbatim>\<open>-fno-strict-overflow\<close>, so the \<open>int\<close> counters wrap.
\<close>

section \<open>State and operations\<close>

record byte_fifo_t =
  fifo_data :: "u8 list option" \<comment> \<open>\<open>None\<close> is the NULL pointer\<close>
  fifo_size :: u32
  write_index :: u32
  read_index :: u32
  n_elements :: u32

definition byte_fifo_reset :: "byte_fifo_t option \<Rightarrow> (i16 \<times> byte_fifo_t option) option" where
  "byte_fifo_reset fifo =
     (case fifo of
        None \<Rightarrow> Some (- EFAULT, None)
      | Some f \<Rightarrow>
          (case fifo_data f of
             None \<Rightarrow> Some (- EFAULT, Some f)
           | Some d \<Rightarrow>
               if fifo_size f = 0 then Some (- EFAULT, Some f)
               else do {
                 d' \<leftarrow> buf_splice d 0 (replicate (unat (fifo_size f)) 0);
                 Some (0, Some (f\<lparr>write_index := 0, read_index := 0, n_elements := 0,
                                  fifo_data := Some d'\<rparr>))
               }))"

definition byte_fifo_init :: "byte_fifo_t option \<Rightarrow> (i16 \<times> byte_fifo_t option) option" where
  "byte_fifo_init fifo =
     (case fifo of
        None \<Rightarrow> Some (- EFAULT, None)
      | Some f \<Rightarrow> do {
          (_, fifo') \<leftarrow> byte_fifo_reset (Some f);
          Some (0, fifo')
        })"

definition byte_fifo_is_available :: "byte_fifo_t option \<Rightarrow> i16" where
  "byte_fifo_is_available fifo =
     (case fifo of
        None \<Rightarrow> - EFAULT
      | Some f \<Rightarrow> if n_elements f < fifo_size f then 1 else 0)"

text \<open>The increment with wrap-around that both ends of the ring use.\<close>

definition fifo_next :: "byte_fifo_t \<Rightarrow> u32 \<Rightarrow> u32" where
  "fifo_next f i = (if i < fifo_size f - 1 then i + 1 else 0)"

text \<open>
  One pass of the write loop, from \<open>mutex_lock\<close> to \<open>mutex_unlock\<close>, on the ring, \<open>len\<close>,
  \<open>n_bytes_written\<close> and \<open>n_bytes_overwritten\<close>.
\<close>

type_synonym write_vars = "byte_fifo_t \<times> u32 \<times> i32 \<times> i32"

definition byte_fifo_write_section :: "u8 list \<Rightarrow> write_vars \<Rightarrow> write_vars option" where
  "byte_fifo_write_section bytes = (\<lambda>(f, len, n_bytes_written, n_bytes_overwritten).
     if n_elements f < fifo_size f then do {
       d \<leftarrow> fifo_data f;
       b \<leftarrow> buf_get_int bytes n_bytes_written;
       d' \<leftarrow> buf_set d (unat (write_index f)) b;
       Some (f\<lparr>fifo_data := Some d', write_index := fifo_next f (write_index f),
               n_elements := n_elements f + 1\<rparr>,
             len - 1, n_bytes_written + 1, n_bytes_overwritten)
     }
     else Some (f\<lparr>read_index := fifo_next f (read_index f), n_elements := n_elements f - 1\<rparr>,
                len, n_bytes_written, n_bytes_overwritten + 1))"

partial_function (option) byte_fifo_write_loop :: "u8 list \<Rightarrow> write_vars \<Rightarrow> write_vars option" where
  "byte_fifo_write_loop bytes vars =
     (if 0 < fst (snd vars)
      then do { vars' \<leftarrow> byte_fifo_write_section bytes vars; byte_fifo_write_loop bytes vars' }
      else Some vars)"

definition byte_fifo_write ::
  "byte_fifo_t option \<Rightarrow> u8 list option \<Rightarrow> u32 \<Rightarrow> (i16 \<times> byte_fifo_t option) option" where
  "byte_fifo_write fifo bytes len =
     (case fifo of
        None \<Rightarrow> Some (- EFAULT, None)
      | Some f \<Rightarrow>
          if fifo_data f = None then Some (- EFAULT, Some f)
          else (case bytes of
             None \<Rightarrow> Some (- EFAULT, Some f)
           | Some bs \<Rightarrow> do {
               (f', _, _, n_bytes_overwritten) \<leftarrow> byte_fifo_write_loop bs (f, len, 0, 0);
               Some (ucast n_bytes_overwritten, Some f')
             }))"

text \<open>
  One pass of the read loop; the flag is false for the \<open>break\<close>.  The loop counter is an
  \<open>int\<close> compared with the unsigned \<open>max_len\<close>, that is, as an unsigned value.
\<close>

definition byte_fifo_read_section ::
  "byte_fifo_t \<times> u8 list \<times> i32 \<Rightarrow> (bool \<times> byte_fifo_t \<times> u8 list \<times> i32) option" where
  "byte_fifo_read_section = (\<lambda>(f, buffer, n_bytes_read).
     if n_elements f > 0 then do {
       d \<leftarrow> fifo_data f;
       b \<leftarrow> buf_get d (unat (read_index f));
       buffer' \<leftarrow> buf_set_int buffer n_bytes_read b;
       Some (True, f\<lparr>read_index := fifo_next f (read_index f), n_elements := n_elements f - 1\<rparr>,
             buffer', n_bytes_read + 1)
     }
     else Some (False, f, buffer, n_bytes_read))"

partial_function (option) byte_fifo_read_loop ::
  "u32 \<Rightarrow> byte_fifo_t \<times> u8 list \<times> i32 \<Rightarrow> (byte_fifo_t \<times> u8 list \<times> i32) option" where
  "byte_fifo_read_loop max_len vars =
     (if snd (snd vars) < max_len
      then do {
        (continue, vars') \<leftarrow> byte_fifo_read_section vars;
        if continue then byte_fifo_read_loop max_len vars' else Some vars'
      }
      else Some vars)"

definition byte_fifo_read ::
  "byte_fifo_t option \<Rightarrow> u8 list option \<Rightarrow> u32 \<Rightarrow> (i16 \<times> byte_fifo_t option \<times> u8 list option) option" where
  "byte_fifo_read fifo buffer max_len =
     (case fifo of
        None \<Rightarrow> Some (- EFAULT, None, buffer)
      | Some f \<Rightarrow>
          if fifo_data f = None then Some (- EFAULT, Some f, buffer)
          else (case buffer of
             None \<Rightarrow> Some (- EFAULT, Some f, None)
           | Some buf \<Rightarrow> do {
               (f', buf', n_bytes_read) \<leftarrow> byte_fifo_read_loop max_len (f, buf, 0);
               Some (ucast n_bytes_read, Some f', Some buf')
             }))"

section \<open>The abstract queue\<close>

text \<open>The bytes in the ring, oldest first, and the representation invariant.\<close>

definition fifo_bytes :: "byte_fifo_t \<Rightarrow> u8 list" where
  "fifo_bytes f =
     map (\<lambda>i. the (fifo_data f) ! ((unat (read_index f) + i) mod unat (fifo_size f)))
       [0..<unat (n_elements f)]"

definition fifo_inv :: "byte_fifo_t \<Rightarrow> bool" where
  "fifo_inv f \<longleftrightarrow>
     (case fifo_data f of None \<Rightarrow> False | Some d \<Rightarrow> length d = unat (fifo_size f)) \<and>
     0 < fifo_size f \<and> read_index f < fifo_size f \<and> n_elements f \<le> fifo_size f \<and>
     unat (write_index f) = (unat (read_index f) + unat (n_elements f)) mod unat (fifo_size f)"

definition fifo_cap :: "byte_fifo_t \<Rightarrow> nat" where
  "fifo_cap f = unat (fifo_size f)"

text \<open>A bounded queue that makes room by dropping its oldest elements.\<close>

definition lossy_push :: "nat \<Rightarrow> 'a list \<Rightarrow> 'a list \<Rightarrow> 'a list" where
  "lossy_push cap q xs = drop (length q + length xs - cap) (q @ xs)"

lemma lossy_push_tl:
  "length q = cap \<Longrightarrow> q \<noteq> [] \<Longrightarrow> xs \<noteq> [] \<Longrightarrow> lossy_push cap (tl q) xs = lossy_push cap q xs"
  by (cases q) (auto simp: lossy_push_def drop_Cons' Suc_diff_le)

lemma length_fifo_bytes [simp]: "length (fifo_bytes f) = unat (n_elements f)"
  by (simp add: fifo_bytes_def)

lemma fifo_bytes_eq_Nil: "fifo_bytes f = [] \<longleftrightarrow> n_elements f = 0"
  by (simp add: fifo_bytes_def unat_eq_zero)

lemma fifo_next_unat:
  assumes "0 < fifo_size f" "i < fifo_size f"
  shows "unat (fifo_next f i) = Suc (unat i) mod unat (fifo_size f)"
proof -
  have m: "unat (fifo_size f - 1) = unat (fifo_size f) - 1"
    using assms(1) by (intro unat_minus_one) auto
  have i: "unat i < unat (fifo_size f)"
    using assms(2) by (simp add: word_less_nat_alt)
  show ?thesis
  proof (cases "i < fifo_size f - 1")
    case True
    then have "unat (i + 1) = Suc (unat i)"
      by (rule unat_less_Suc_simp)
    with True m show ?thesis
      by (simp add: fifo_next_def word_less_nat_alt)
  next
    case False
    then have "Suc (unat i) = unat (fifo_size f)"
      using m i by (simp add: word_less_nat_alt)
    with False show ?thesis by (simp add: fifo_next_def)
  qed
qed

lemma fifo_invE:
  assumes "fifo_inv f"
  obtains d where "fifo_data f = Some d" "length d = unat (fifo_size f)" "0 < unat (fifo_size f)"
    "unat (read_index f) < unat (fifo_size f)" "unat (n_elements f) \<le> unat (fifo_size f)"
    "unat (write_index f) = (unat (read_index f) + unat (n_elements f)) mod unat (fifo_size f)"
    "0 < fifo_size f" "read_index f < fifo_size f"
  using assms
  by (auto simp: fifo_inv_def word_less_nat_alt word_le_nat_alt split: option.splits)

section \<open>One critical section\<close>

lemma ring_index_le:
  fixes r i k N :: nat
  assumes "i \<le> k" "k < N" "(r + i) mod N = (r + k) mod N"
  shows "i = k"
proof -
  have "N dvd (r + k) - (r + i)"
    using assms by (metis add_le_mono1 add.commute mod_eq_dvd_iff_nat)
  moreover have "(r + k) - (r + i) < N" using assms by simp
  ultimately show ?thesis using assms(1) by (auto dest: dvd_imp_le)
qed

lemma ring_index_inj:
  fixes r i k N :: nat
  assumes "i < N" "k < N" "(r + i) mod N = (r + k) mod N"
  shows "i = k"
  using assms ring_index_le [of i k N r] ring_index_le [of k i N r] by (cases "i \<le> k") auto

text \<open>A section of the writer that finds room appends the byte.\<close>

lemma push_section:
  assumes inv: "fifo_inv f" and room: "n_elements f < fifo_size f"
    and idx: "\<not> nw <s 0" "unat nw < length bytes"
  shows "returns (byte_fifo_write_section bytes (f, len, nw, no))
    (\<lambda>(f', len', nw', no'). fifo_inv f' \<and> fifo_bytes f' = fifo_bytes f @ [bytes ! unat nw] \<and>
       fifo_size f' = fifo_size f \<and> len' = len - 1 \<and> nw' = nw + 1 \<and> no' = no)"
proof -
  obtain d where d: "fifo_data f = Some d" "length d = unat (fifo_size f)"
    and w: "unat (write_index f) = (unat (read_index f) + unat (n_elements f)) mod unat (fifo_size f)"
    and pos: "0 < unat (fifo_size f)" "0 < fifo_size f"
    and r: "read_index f < fifo_size f"
    using inv by (rule fifo_invE)
  let ?N = "unat (fifo_size f)" and ?r = "unat (read_index f)" and ?n = "unat (n_elements f)"
  have n: "?n < ?N" using room by (simp add: word_less_nat_alt)
  have n1: "unat (n_elements f + 1) = Suc ?n" using room by (rule unat_less_Suc_simp)
  have wlt: "write_index f < fifo_size f" using w pos by (simp add: word_less_nat_alt)
  define f' where "f' = f\<lparr>fifo_data := Some (d[unat (write_index f) := bytes ! unat nw]),
    write_index := fifo_next f (write_index f), n_elements := n_elements f + 1\<rparr>"
  have step: "byte_fifo_write_section bytes (f, len, nw, no) = Some (f', len - 1, nw + 1, no)"
    using room d idx wlt
    by (simp add: byte_fifo_write_section_def buf_get_int_def buf_get_in buf_set_def f'_def
        word_less_nat_alt)
  have next_w: "unat (fifo_next f (write_index f)) = (?r + Suc ?n) mod ?N"
    using fifo_next_unat [OF pos(2) wlt] w by (simp add: mod_Suc_eq)
  have inv': "fifo_inv f'"
    using d n n1 pos r next_w by (simp add: fifo_inv_def f'_def word_le_nat_alt)
  have old: "d[unat (write_index f) := bytes ! unat nw] ! ((?r + i) mod ?N) = d ! ((?r + i) mod ?N)"
    if "i < ?n" for i
  proof -
    have "unat (write_index f) \<noteq> (?r + i) mod ?N"
      using that n ring_index_inj [of i ?N ?n ?r] w by auto
    then show ?thesis by simp
  qed
  have "fifo_bytes f' = fifo_bytes f @ [bytes ! unat nw]"
    using d n1 w pos old by (simp add: fifo_bytes_def f'_def)
  with step inv' show ?thesis by (simp add: f'_def)
qed

text \<open>A section of the writer that finds the ring full drops the oldest byte.\<close>

lemma ring_tl:
  fixes N :: nat
  assumes "0 < n" "r < N"
  shows "map (\<lambda>i. d ! ((Suc r mod N + i) mod N)) [0..<n - 1] = tl (map (\<lambda>i. d ! ((r + i) mod N)) [0..<n])"
  using assms by (intro nth_equalityI) (auto simp: nth_tl mod_add_left_eq)

lemma ring_shift:
  fixes N :: nat
  shows "0 < n \<Longrightarrow> (Suc r mod N + n - Suc 0) mod N = (r + n) mod N"
  by (cases n) (simp_all add: mod_add_left_eq)

lemma advance_read:
  assumes inv: "fifo_inv f" and ne: "n_elements f \<noteq> 0"
  defines "f' \<equiv> f\<lparr>read_index := fifo_next f (read_index f), n_elements := n_elements f - 1\<rparr>"
  shows "fifo_inv f'" "fifo_bytes f' = tl (fifo_bytes f)"
proof -
  obtain d where d: "fifo_data f = Some d" "length d = unat (fifo_size f)"
    and w: "unat (write_index f) = (unat (read_index f) + unat (n_elements f)) mod unat (fifo_size f)"
    and pos: "0 < unat (fifo_size f)" "0 < fifo_size f"
    and r: "read_index f < fifo_size f" and n: "unat (n_elements f) \<le> unat (fifo_size f)"
    using inv by (rule fifo_invE)
  have n1: "unat (n_elements f - 1) = unat (n_elements f) - 1" using ne by (rule unat_minus_one)
  have n0: "0 < unat (n_elements f)" using ne by (simp add: unat_gt_0)
  have next_r: "unat (fifo_next f (read_index f)) = Suc (unat (read_index f)) mod unat (fifo_size f)"
    using pos(2) r by (rule fifo_next_unat)
  show "fifo_inv f'"
    using d w pos n n0 n1 next_r
    by (auto simp: fifo_inv_def f'_def word_less_nat_alt word_le_nat_alt ring_shift)
  show "fifo_bytes f' = tl (fifo_bytes f)"
    using d n0 n1 next_r r ring_tl [of "unat (n_elements f)" "unat (read_index f)" "unat (fifo_size f)" d]
    by (simp add: fifo_bytes_def f'_def word_less_nat_alt)
qed

lemma drop_section:
  assumes inv: "fifo_inv f" and full: "\<not> n_elements f < fifo_size f"
  shows "returns (byte_fifo_write_section bytes (f, len, nw, no))
    (\<lambda>(f', len', nw', no'). fifo_inv f' \<and> fifo_bytes f' = tl (fifo_bytes f) \<and>
       n_elements f' < fifo_size f' \<and>
       fifo_size f' = fifo_size f \<and> len' = len \<and> nw' = nw \<and> no' = no + 1)"
proof -
  have eq: "n_elements f = fifo_size f" and ne: "n_elements f \<noteq> 0"
    using inv full by (auto simp: fifo_inv_def)
  have "fifo_size f - 1 < fifo_size f"
    using ne eq by (simp add: word_less_nat_alt unat_minus_one unat_gt_0)
  with eq advance_read [OF inv ne] full show ?thesis
    by (simp add: byte_fifo_write_section_def)
qed

text \<open>A section of the reader takes the oldest byte.\<close>

lemma pop_section:
  assumes inv: "fifo_inv f" and ne: "n_elements f > 0"
    and idx: "\<not> k <s 0" "unat k < length buf"
  shows "returns (byte_fifo_read_section (f, buf, k))
    (\<lambda>(continue, f', buf', k'). continue \<and> fifo_inv f' \<and> fifo_bytes f' = tl (fifo_bytes f) \<and>
       fifo_size f' = fifo_size f \<and> buf' = buf[unat k := hd (fifo_bytes f)] \<and> k' = k + 1)"
proof -
  obtain d where d: "fifo_data f = Some d" "length d = unat (fifo_size f)"
    and r: "unat (read_index f) < unat (fifo_size f)"
    using inv by (rule fifo_invE)
  have "hd (fifo_bytes f) = d ! unat (read_index f)"
    using ne d r by (simp add: fifo_bytes_def hd_map word_less_nat_alt)
  with advance_read [OF inv] ne d r idx show ?thesis
    by (simp add: byte_fifo_read_section_def buf_set_int_def buf_get_def buf_set_def word_gt_0)
qed

lemma empty_section:
  "\<not> n_elements f > 0 \<Longrightarrow> byte_fifo_read_section (f, buf, k) = Some (False, f, buf, k)"
  by (simp add: byte_fifo_read_section_def)

section \<open>The whole operations\<close>

lemma byte_fifo_write_loop_spec:
  assumes "fifo_inv f" "unat nw + unat len \<le> length bytes" "unat nw + unat len < 2 ^ 31"
    "unat no + (unat (n_elements f) + unat len - fifo_cap f) < 2 ^ 32"
  shows "returns (byte_fifo_write_loop bytes (f, len, nw, no))
    (\<lambda>(f', _, _, no'). fifo_inv f' \<and> fifo_size f' = fifo_size f \<and>
       fifo_bytes f' = lossy_push (fifo_cap f) (fifo_bytes f) (take (unat len) (drop (unat nw) bytes)) \<and>
       unat no' = unat no + (unat (n_elements f) + unat len - fifo_cap f))"
  using assms
proof (induction "2 * unat len + unat (n_elements f)" arbitrary: f len nw no rule: less_induct)
  case less
  show ?case
  proof (cases "0 < len")
    case False
    then have "len = 0" by (simp add: word_gt_0)
    moreover have "unat (n_elements f) \<le> fifo_cap f"
      using less.prems(1) by (auto elim: fifo_invE simp: fifo_cap_def)
    ultimately show ?thesis
      using less.prems(1) by (simp add: byte_fifo_write_loop.simps lossy_push_def)
  next
    case len: True
    have len1: "unat (len - 1) = unat len - 1" "0 < unat len"
      using len by (auto simp: unat_minus_one unat_gt_0)
    have nele: "unat (n_elements f) \<le> fifo_cap f"
      using less.prems(1) by (auto elim: fifo_invE simp: fifo_cap_def)
    show ?thesis
    proof (cases "n_elements f < fifo_size f")
      case True
      have nw1: "unat (nw + 1) = Suc (unat nw)"
        using less.prems(3) len1 by (intro unat_plus_one) simp
      have idx: "\<not> nw <s 0" "unat nw < length bytes"
        using less.prems(2,3) len1 int_index [of nw] by auto
      obtain f' where sec: "byte_fifo_write_section bytes (f, len, nw, no) = Some (f', len - 1, nw + 1, no)"
        and f': "fifo_inv f'" "fifo_bytes f' = fifo_bytes f @ [bytes ! unat nw]"
          "fifo_size f' = fifo_size f"
        using push_section [OF less.prems(1) True idx] by (auto simp: returns_def)
      have n': "unat (n_elements f') = Suc (unat (n_elements f))"
        using arg_cong [OF f'(2), of length] by simp
      have take: "take (unat len) (drop (unat nw) bytes) =
          bytes ! unat nw # take (unat (len - 1)) (drop (unat (nw + 1)) bytes)"
        using len1 nw1 idx(2) by (metis Cons_nth_drop_Suc One_nat_def Suc_pred take_Suc_Cons)
      have ih: "returns (byte_fifo_write_loop bytes (f', len - 1, nw + 1, no))
        (\<lambda>(f'', _, _, no'). fifo_inv f'' \<and> fifo_size f'' = fifo_size f' \<and>
           fifo_bytes f'' = lossy_push (fifo_cap f') (fifo_bytes f')
             (take (unat (len - 1)) (drop (unat (nw + 1)) bytes)) \<and>
           unat no' = unat no + (unat (n_elements f') + unat (len - 1) - fifo_cap f'))"
        using len1 nw1 n' less.prems f'(1,3) by (intro less.hyps) (auto simp: fifo_cap_def)
      have "byte_fifo_write_loop bytes (f, len, nw, no) = byte_fifo_write_loop bytes (f', len - 1, nw + 1, no)"
        using len sec by (subst byte_fifo_write_loop.simps) simp
      then show ?thesis
        by (simp only:) (rule returns_mono [OF ih],
          use f' n' take len1 in \<open>auto simp: lossy_push_def fifo_cap_def\<close>)
    next
      case False
      have full: "unat (n_elements f) = fifo_cap f"
        using False nele by (simp add: word_less_nat_alt fifo_cap_def)
      have no1: "unat (no + 1) = Suc (unat no)"
        using less.prems(4) len1 full by (intro unat_plus_one) simp
      obtain f' where sec: "byte_fifo_write_section bytes (f, len, nw, no) = Some (f', len, nw, no + 1)"
        and f': "fifo_inv f'" "fifo_bytes f' = tl (fifo_bytes f)" "fifo_size f' = fifo_size f"
        using drop_section [OF less.prems(1) False, of bytes len nw no] by (auto simp: returns_def)
      have n': "unat (n_elements f') = unat (n_elements f) - 1"
        using arg_cong [OF f'(2), of length] by simp
      have pos: "0 < fifo_cap f"
        using less.prems(1) by (auto elim: fifo_invE simp: fifo_cap_def)
      have q: "fifo_bytes f \<noteq> []"
        using pos full by (metis length_fifo_bytes length_0_conv less_irrefl)
      note push = lossy_push_tl [OF _ q]
      have xs: "take (unat len) (drop (unat nw) bytes) \<noteq> []"
        using len1 less.prems(2) by auto
      have ih: "returns (byte_fifo_write_loop bytes (f', len, nw, no + 1))
        (\<lambda>(f'', _, _, no'). fifo_inv f'' \<and> fifo_size f'' = fifo_size f' \<and>
           fifo_bytes f'' = lossy_push (fifo_cap f') (fifo_bytes f')
             (take (unat len) (drop (unat nw) bytes)) \<and>
           unat no' = unat (no + 1) + (unat (n_elements f') + unat len - fifo_cap f'))"
        using len1 no1 n' less.prems f'(1,3) full pos by (intro less.hyps) (auto simp: fifo_cap_def)
      have "byte_fifo_write_loop bytes (f, len, nw, no) = byte_fifo_write_loop bytes (f', len, nw, no + 1)"
        using len sec by (subst byte_fifo_write_loop.simps) simp
      then show ?thesis
        by (simp only:) (rule returns_mono [OF ih],
          use f' n' no1 full pos push [OF _ xs] len1 in \<open>auto simp: fifo_cap_def\<close>)
    qed
  qed
qed

lemma byte_fifo_read_loop_spec:
  assumes "fifo_inv f" "unat max_len \<le> length buf" "unat max_len < 2 ^ 31" "unat k \<le> unat max_len"
  shows "returns (byte_fifo_read_loop max_len (f, buf, k))
    (\<lambda>(f', buf', k'). let m = min (unat max_len - unat k) (length (fifo_bytes f)) in
       fifo_inv f' \<and> fifo_size f' = fifo_size f \<and>
       fifo_bytes f' = drop m (fifo_bytes f) \<and> unat k' = unat k + m \<and>
       buf' = take (unat k) buf @ take m (fifo_bytes f) @ drop (unat k + m) buf)"
  using assms
proof (induction "unat max_len - unat k" arbitrary: f buf k)
  case 0
  then have "\<not> k < max_len" by (simp add: word_less_nat_alt)
  with 0 show ?case by (simp add: byte_fifo_read_loop.simps)
next
  case (Suc d)
  then have lt: "k < max_len" by (simp add: word_less_nat_alt)
  show ?case
  proof (cases "n_elements f > 0")
    case False
    then have "fifo_bytes f = []" by (simp add: fifo_bytes_def word_gt_0)
    with False Suc.prems lt show ?thesis
      by (simp add: byte_fifo_read_loop.simps empty_section)
  next
    case True
    have k1: "unat (k + 1) = Suc (unat k)" using lt by (rule unat_less_Suc_simp)
    have idx: "\<not> k <s 0" "unat k < length buf"
      using Suc.hyps(2) Suc.prems int_index [of k] by auto
    obtain f' where sec: "byte_fifo_read_section (f, buf, k) =
        Some (True, f', buf[unat k := hd (fifo_bytes f)], k + 1)"
      and f': "fifo_inv f'" "fifo_bytes f' = tl (fifo_bytes f)" "fifo_size f' = fifo_size f"
      using pop_section [OF Suc.prems(1) True idx] by (auto simp: returns_def)
    obtain b q where q: "fifo_bytes f = b # q"
      using True length_fifo_bytes [of f] by (cases "fifo_bytes f") (auto simp: word_gt_0 unat_eq_zero)
    have ih: "returns (byte_fifo_read_loop max_len (f', buf[unat k := b], k + 1))
      (\<lambda>(f'', buf', k'). let m = min (unat max_len - unat (k + 1)) (length (fifo_bytes f')) in
         fifo_inv f'' \<and> fifo_size f'' = fifo_size f' \<and>
         fifo_bytes f'' = drop m (fifo_bytes f') \<and> unat k' = unat (k + 1) + m \<and>
         buf' = take (unat (k + 1)) (buf[unat k := b]) @ take m (fifo_bytes f')
                  @ drop (unat (k + 1) + m) (buf[unat k := b]))"
      using Suc.hyps(2) Suc.prems f'(1) k1 by (intro Suc.hyps(1)) auto
    have m: "min (unat max_len - unat k) (Suc (length q)) =
        Suc (min (unat max_len - unat (k + 1)) (length q))"
      using Suc.hyps(2) k1 by simp
    have take: "take (Suc (unat k)) (buf[unat k := b]) = take (unat k) buf @ [b]"
      using idx(2) by (simp add: take_Suc_conv_app_nth)
    have "byte_fifo_read_loop max_len (f, buf, k) =
        byte_fifo_read_loop max_len (f', buf[unat k := b], k + 1)"
      using lt sec q by (subst byte_fifo_read_loop.simps) simp
    then show ?thesis
      by (simp only:) (rule returns_mono [OF ih],
        use f' q m k1 take in \<open>auto simp: Let_def\<close>)
  qed
qed

lemma byte_fifo_write_spec:
  assumes "fifo_inv f" "unat len \<le> length bs" "unat len < 2 ^ 31"
  shows "returns (byte_fifo_write (Some f) (Some bs) len)
    (\<lambda>(r, f'). \<exists>g. f' = Some g \<and> fifo_inv g \<and> fifo_cap g = fifo_cap f \<and>
       fifo_bytes g = lossy_push (fifo_cap f) (fifo_bytes f) (take (unat len) bs) \<and>
       unat r = (length (fifo_bytes f) + unat len - fifo_cap f) mod 2 ^ 16)"
proof -
  obtain d where d: "fifo_data f = Some d" and n: "unat (n_elements f) \<le> fifo_cap f"
    using assms(1) by (auto elim: fifo_invE simp: fifo_cap_def)
  have ih: "returns (byte_fifo_write_loop bs (f, len, 0, 0))
    (\<lambda>(f', _, _, no'). fifo_inv f' \<and> fifo_size f' = fifo_size f \<and>
       fifo_bytes f' = lossy_push (fifo_cap f) (fifo_bytes f) (take (unat len) (drop (unat (0 :: i32)) bs)) \<and>
       unat no' = unat (0 :: i32) + (unat (n_elements f) + unat len - fifo_cap f))"
    using assms n by (intro byte_fifo_write_loop_spec) auto
  show ?thesis
    using d by (simp add: byte_fifo_write_def)
      (rule returns_mono [OF ih], auto simp: fifo_cap_def unat_ucast)
qed

lemma byte_fifo_read_spec:
  assumes "fifo_inv f" "unat max_len \<le> length buf" "unat max_len < 2 ^ 31"
  shows "returns (byte_fifo_read (Some f) (Some buf) max_len)
    (\<lambda>(r, f', buf'). let m = min (unat max_len) (length (fifo_bytes f)) in
       (\<exists>g. f' = Some g \<and> fifo_inv g \<and> fifo_cap g = fifo_cap f \<and> fifo_bytes g = drop m (fifo_bytes f)) \<and>
       buf' = Some (take m (fifo_bytes f) @ drop m buf) \<and> unat r = m mod 2 ^ 16)"
proof -
  obtain d where d: "fifo_data f = Some d"
    using assms(1) by (auto elim: fifo_invE)
  show ?thesis
    using d by (simp add: byte_fifo_read_def)
      (rule returns_mono [OF byte_fifo_read_loop_spec [OF assms, of 0]],
       auto simp: fifo_cap_def unat_ucast Let_def)
qed

lemma byte_fifo_reset_spec:
  assumes "fifo_inv f"
  shows "\<exists>g. byte_fifo_reset (Some f) = Some (0, Some g) \<and> fifo_inv g \<and> fifo_cap g = fifo_cap f \<and>
    fifo_bytes g = []"
proof -
  obtain d where d: "fifo_data f = Some d" "length d = unat (fifo_size f)" and pos: "0 < fifo_size f"
    using assms by (rule fifo_invE)
  define g where "g = f\<lparr>write_index := 0, read_index := 0, n_elements := 0,
    fifo_data := Some (replicate (unat (fifo_size f)) 0)\<rparr>"
  have "byte_fifo_reset (Some f) = Some (0, Some g)"
    using d pos by (simp add: byte_fifo_reset_def buf_splice_def g_def word_gt_0)
  moreover have "fifo_inv g" "fifo_cap g = fifo_cap f" "fifo_bytes g = []"
    using pos by (auto simp: g_def fifo_inv_def fifo_cap_def fifo_bytes_def)
  ultimately show ?thesis by blast
qed

section \<open>The interface its users rely on\<close>

lemma lossy_push_append:
  "lossy_push cap (lossy_push cap q xs) ys = lossy_push cap q (xs @ ys)"
proof -
  define k where "k = length q + length xs - cap"
  have "drop k (q @ xs) @ ys = drop k (q @ xs @ ys)" by (simp add: k_def)
  then have "lossy_push cap (lossy_push cap q xs) ys
      = drop (length (drop k (q @ xs)) + length ys - cap + k) (q @ xs @ ys)"
    by (simp only: lossy_push_def k_def [symmetric] drop_drop)
  also have "length (drop k (q @ xs)) + length ys - cap + k = length q + length (xs @ ys) - cap"
    by (simp add: k_def)
  finally show ?thesis by (simp only: lossy_push_def)
qed

lemma lossy_push_room: "length q + length xs \<le> cap \<Longrightarrow> lossy_push cap q xs = q @ xs"
  by (simp add: lossy_push_def)

lemma length_lossy_push: "length q \<le> cap \<Longrightarrow> length (lossy_push cap q xs) = min cap (length q + length xs)"
  by (simp add: lossy_push_def)

locale rx_queue =
  fixes wr :: "'q \<Rightarrow> u8 list option \<Rightarrow> u32 \<Rightarrow> (i16 \<times> 'q) option"
    and rd :: "'q \<Rightarrow> u8 list option \<Rightarrow> u32 \<Rightarrow> (i16 \<times> 'q \<times> u8 list option) option"
    and rst :: "'q \<Rightarrow> (i16 \<times> 'q) option"
    and ok :: "'q \<Rightarrow> bool" and elems :: "'q \<Rightarrow> u8 list" and cap :: "'q \<Rightarrow> nat"
  assumes bound: "ok q \<Longrightarrow> length (elems q) \<le> cap q"
    and wr: "ok q \<Longrightarrow> unat len \<le> length bs \<Longrightarrow> unat len < 2 ^ 31 \<Longrightarrow>
      returns (wr q (Some bs) len) (\<lambda>(r, q'). ok q' \<and> cap q' = cap q \<and>
        elems q' = lossy_push (cap q) (elems q) (take (unat len) bs) \<and>
        unat r = (length (elems q) + unat len - cap q) mod 2 ^ 16)"
    and rd: "ok q \<Longrightarrow> unat n \<le> length buf \<Longrightarrow> unat n < 2 ^ 31 \<Longrightarrow>
      returns (rd q (Some buf) n) (\<lambda>(r, q', buf'). let m = min (unat n) (length (elems q)) in
        ok q' \<and> cap q' = cap q \<and> elems q' = drop m (elems q) \<and>
        buf' = Some (take m (elems q) @ drop m buf) \<and> unat r = m mod 2 ^ 16)"
    and rst: "ok q \<Longrightarrow> returns (rst q) (\<lambda>(r, q'). r = 0 \<and> ok q' \<and> cap q' = cap q \<and> elems q' = [])"
begin

text \<open>How a transmission is cut into callbacks does not matter to the reader.\<close>

lemma wr_wr:
  assumes "ok q" "unat len \<le> length xs" "unat len < 2 ^ 31" "unat len' \<le> length ys" "unat len' < 2 ^ 31"
  shows "returns (do { (_, q1) \<leftarrow> wr q (Some xs) len; wr q1 (Some ys) len' })
    (\<lambda>(_, q'). ok q' \<and> cap q' = cap q \<and>
       elems q' = lossy_push (cap q) (elems q) (take (unat len) xs @ take (unat len') ys))"
proof -
  obtain r1 q1 where w1: "wr q (Some xs) len = Some (r1, q1)" and q1: "ok q1" "cap q1 = cap q"
      "elems q1 = lossy_push (cap q) (elems q) (take (unat len) xs)"
    using wr [OF assms(1-3)] by (auto elim: returnsE)
  from wr [OF q1(1) assms(4,5)] w1 q1 bound [OF assms(1)] show ?thesis
    by (auto elim!: returns_mono simp: lossy_push_append)
qed

text \<open>What was written, and fits, is read back in order.\<close>

lemma wr_rd:
  assumes "ok q" "elems q = []" "length bs \<le> cap q" "unat len = length bs" "unat len < 2 ^ 16"
    "unat len \<le> length buf"
  shows "returns (do { (_, q1) \<leftarrow> wr q (Some bs) len; rd q1 (Some buf) len })
    (\<lambda>(r, q', buf'). ok q' \<and> elems q' = [] \<and> unat r = length bs \<and> buf' = Some (bs @ drop (length bs) buf))"
proof -
  obtain r1 q1 where w1: "wr q (Some bs) len = Some (r1, q1)" and q1: "ok q1" "elems q1 = bs"
    using wr [OF assms(1), of len bs] assms by (auto elim!: returnsE simp: lossy_push_room)
  from rd [OF q1(1), of len buf] w1 q1 assms show ?thesis
    by (auto elim!: returns_mono simp: Let_def)
qed

lemma rst_rd:
  assumes "ok q" "unat n \<le> length buf" "unat n < 2 ^ 31"
  shows "returns (do { (_, q1) \<leftarrow> rst q; rd q1 (Some buf) n })
    (\<lambda>(r, q', buf'). ok q' \<and> elems q' = [] \<and> r = 0 \<and> buf' = Some buf)"
proof -
  obtain q1 where r1: "rst q = Some (0, q1)" and q1: "ok q1" "elems q1 = []"
    using rst [OF assms(1)] by (auto elim: returnsE)
  from rd [OF q1(1) assms(2,3)] r1 q1 show ?thesis
    by (auto elim!: returns_mono simp: Let_def unat_eq_zero)
qed

end

definition fifo_ok :: "byte_fifo_t option \<Rightarrow> bool" where
  "fifo_ok q = (case q of None \<Rightarrow> False | Some f \<Rightarrow> fifo_inv f)"

definition fifo_elems :: "byte_fifo_t option \<Rightarrow> u8 list" where
  "fifo_elems q = (case q of None \<Rightarrow> [] | Some f \<Rightarrow> fifo_bytes f)"

definition fifo_capacity :: "byte_fifo_t option \<Rightarrow> nat" where
  "fifo_capacity q = (case q of None \<Rightarrow> 0 | Some f \<Rightarrow> fifo_cap f)"

lemmas fifo_view_defs = fifo_ok_def fifo_elems_def fifo_capacity_def

interpretation fifo: rx_queue byte_fifo_write byte_fifo_read byte_fifo_reset
  fifo_ok fifo_elems fifo_capacity
proof unfold_locales
  fix q and len :: u32 and bs :: "u8 list"
  assume a: "fifo_ok q" "unat len \<le> length bs" "unat len < 2 ^ 31"
  then obtain f where q: "q = Some f" "fifo_inv f" by (auto simp: fifo_ok_def split: option.splits)
  show "returns (byte_fifo_write q (Some bs) len) (\<lambda>(r, q'). fifo_ok q' \<and> fifo_capacity q' = fifo_capacity q \<and>
        fifo_elems q' = lossy_push (fifo_capacity q) (fifo_elems q) (take (unat len) bs) \<and>
        unat r = (length (fifo_elems q) + unat len - fifo_capacity q) mod 2 ^ 16)"
    unfolding q(1)
    by (rule returns_mono [OF byte_fifo_write_spec [OF q(2) a(2,3)]]) (auto simp: fifo_view_defs)
next
  fix q and n :: u32 and buf :: "u8 list"
  assume a: "fifo_ok q" "unat n \<le> length buf" "unat n < 2 ^ 31"
  then obtain f where q: "q = Some f" "fifo_inv f" by (auto simp: fifo_ok_def split: option.splits)
  show "returns (byte_fifo_read q (Some buf) n) (\<lambda>(r, q', buf'). let m = min (unat n) (length (fifo_elems q)) in
        fifo_ok q' \<and> fifo_capacity q' = fifo_capacity q \<and> fifo_elems q' = drop m (fifo_elems q) \<and>
        buf' = Some (take m (fifo_elems q) @ drop m buf) \<and> unat r = m mod 2 ^ 16)"
    unfolding q(1)
    by (rule returns_mono [OF byte_fifo_read_spec [OF q(2) a(2,3)]]) (auto simp: fifo_view_defs Let_def)
next
  fix q assume "fifo_ok q"
  then obtain f where q: "q = Some f" "fifo_inv f" by (auto simp: fifo_ok_def split: option.splits)
  show "returns (byte_fifo_reset q) (\<lambda>(r, q'). r = 0 \<and> fifo_ok q' \<and> fifo_capacity q' = fifo_capacity q \<and>
      fifo_elems q' = [])"
    using byte_fifo_reset_spec [OF q(2)] q(1) by (auto simp: fifo_view_defs)
next
  fix q assume "fifo_ok q"
  then show "length (fifo_elems q) \<le> fifo_capacity q"
    by (auto simp: fifo_view_defs fifo_cap_def elim: fifo_invE split: option.splits)
qed

section \<open>Interleaving of a writer and a reader\<close>

text \<open>
  The two threads and what they have in progress: the locals of \<open>byte_fifo_write\<close> and
  \<open>byte_fifo_read\<close>.  The last three fields are history: the bytes the writer put in, the
  bytes the reader took out, and the number of bytes the writer dropped to make room.
\<close>

record fifo_sys =
  ring :: byte_fifo_t
  w_bytes :: "u8 list"
  w_len :: u32
  w_written :: i32
  w_overwritten :: i32
  r_active :: bool
  r_buffer :: "u8 list"
  r_max :: u32
  r_count :: i32
  pushed :: "u8 list"
  popped :: "u8 list"
  dropped :: nat

inductive fifo_step :: "fifo_sys \<Rightarrow> fifo_sys \<Rightarrow> bool" where
  w_call: "w_len s = 0 \<Longrightarrow> unat len \<le> length bs \<Longrightarrow> unat len < 2 ^ 31 \<Longrightarrow>
    fifo_step s (s\<lparr>w_bytes := bs, w_len := len, w_written := 0, w_overwritten := 0\<rparr>)"
| w_section: "0 < w_len s \<Longrightarrow>
    byte_fifo_write_section (w_bytes s) (ring s, w_len s, w_written s, w_overwritten s)
      = Some (f, len, nw, no) \<Longrightarrow>
    fifo_step s (s\<lparr>ring := f, w_len := len, w_written := nw, w_overwritten := no,
      pushed := pushed s @ (if nw = w_written s then [] else [w_bytes s ! unat (w_written s)]),
      dropped := dropped s + (if no = w_overwritten s then 0 else 1)\<rparr>)"
| r_call: "\<not> r_active s \<Longrightarrow> unat m \<le> length buf \<Longrightarrow> unat m < 2 ^ 31 \<Longrightarrow>
    fifo_step s (s\<lparr>r_active := True, r_buffer := buf, r_max := m, r_count := 0\<rparr>)"
| r_section: "r_active s \<Longrightarrow> r_count s < r_max s \<Longrightarrow>
    byte_fifo_read_section (ring s, r_buffer s, r_count s) = Some (continue, f, buf, k) \<Longrightarrow>
    fifo_step s (s\<lparr>ring := f, r_active := continue, r_buffer := buf, r_count := k,
      popped := popped s @ (if continue then [buf ! unat (r_count s)] else [])\<rparr>)"
| r_return: "r_active s \<Longrightarrow> \<not> r_count s < r_max s \<Longrightarrow> fifo_step s (s\<lparr>r_active := False\<rparr>)"

definition fifo_sys_init :: "byte_fifo_t \<Rightarrow> fifo_sys" where
  "fifo_sys_init f = \<lparr>ring = f, w_bytes = [], w_len = 0, w_written = 0, w_overwritten = 0,
     r_active = False, r_buffer = [], r_max = 0, r_count = 0, pushed = [], popped = [], dropped = 0\<rparr>"

inductive fifo_reachable :: "fifo_sys \<Rightarrow> bool" where
  fifo_start: "fifo_inv f \<Longrightarrow> fifo_bytes f = [] \<Longrightarrow> fifo_reachable (fifo_sys_init f)"
| fifo_next_state: "fifo_reachable s \<Longrightarrow> fifo_step s t \<Longrightarrow> fifo_reachable t"

definition fifo_sys_inv :: "fifo_sys \<Rightarrow> bool" where
  "fifo_sys_inv s \<longleftrightarrow> fifo_inv (ring s) \<and>
     unat (w_written s) + unat (w_len s) \<le> length (w_bytes s) \<and>
     unat (w_written s) + unat (w_len s) < 2 ^ 31 \<and>
     (r_active s \<longrightarrow> unat (r_max s) \<le> length (r_buffer s) \<and> unat (r_max s) < 2 ^ 31) \<and>
     subseq (popped s @ fifo_bytes (ring s)) (pushed s) \<and>
     length (pushed s) = length (popped s) + length (fifo_bytes (ring s)) + dropped s"

lemma word_plus_one_neq: "x + 1 \<noteq> (x :: 'a::len word)"
  by simp

lemma w_section_returns:
  assumes inv: "fifo_sys_inv s" and len: "0 < w_len s"
  shows "\<exists>f len nw no.
    byte_fifo_write_section (w_bytes s) (ring s, w_len s, w_written s, w_overwritten s) = Some (f, len, nw, no) \<and>
    fifo_sys_inv (s\<lparr>ring := f, w_len := len, w_written := nw, w_overwritten := no,
      pushed := pushed s @ (if nw = w_written s then [] else [w_bytes s ! unat (w_written s)]),
      dropped := dropped s + (if no = w_overwritten s then 0 else 1)\<rparr>)"
proof -
  have len1: "unat (w_len s - 1) = unat (w_len s) - 1" "0 < unat (w_len s)"
    using len by (auto simp: unat_minus_one unat_gt_0)
  have ring: "fifo_inv (ring s)" using inv by (simp add: fifo_sys_inv_def)
  show ?thesis
  proof (cases "n_elements (ring s) < fifo_size (ring s)")
    case True
    have idx: "\<not> w_written s <s 0" "unat (w_written s) < length (w_bytes s)"
      using inv len1 int_index [of "w_written s"] by (auto simp: fifo_sys_inv_def)
    have nw1: "unat (w_written s + 1) = Suc (unat (w_written s))"
      using inv len1 by (intro unat_plus_one) (auto simp: fifo_sys_inv_def)
    let ?b = "w_bytes s ! unat (w_written s)"
    obtain f where f: "byte_fifo_write_section (w_bytes s)
          (ring s, w_len s, w_written s, w_overwritten s) =
          Some (f, w_len s - 1, w_written s + 1, w_overwritten s)"
        "fifo_inv f" "fifo_bytes f = fifo_bytes (ring s) @ [?b]"
      using push_section [OF ring True idx, of "w_len s" "w_overwritten s"]
      by (auto simp: returns_def)
    have "subseq ((popped s @ fifo_bytes (ring s)) @ [?b]) (pushed s @ [?b])"
      using inv by (intro list_emb_append_mono) (auto simp: fifo_sys_inv_def)
    then show ?thesis
      using f inv len1 nw1 arg_cong [OF f(3), of length]
      by (intro exI [of _ f] exI [of _ "w_len s - 1"] exI [of _ "w_written s + 1"]
          exI [of _ "w_overwritten s"]) (auto simp: fifo_sys_inv_def)
  next
    case False
    have "fifo_bytes (ring s) \<noteq> []"
      using ring False by (auto simp: fifo_bytes_eq_Nil fifo_inv_def)
    then obtain b q where q: "fifo_bytes (ring s) = b # q"
      by (cases "fifo_bytes (ring s)") auto
    have "subseq (popped s @ q) (popped s @ b # q)"
      by (intro list_emb_append_mono list_emb_Cons) auto
    then have "subseq (popped s @ q) (pushed s)"
      using inv q by (auto simp: fifo_sys_inv_def intro: subseq_order.trans)
    moreover obtain f where f: "byte_fifo_write_section (w_bytes s)
          (ring s, w_len s, w_written s, w_overwritten s) =
          Some (f, w_len s, w_written s, w_overwritten s + 1)"
        "fifo_inv f" "fifo_bytes f = q"
      using drop_section [OF ring False, of "w_bytes s" "w_len s" "w_written s" "w_overwritten s"] q
      by (auto simp: returns_def)
    ultimately show ?thesis
      using inv arg_cong [OF q, of length] arg_cong [OF f(3), of length]
      by (intro exI [of _ f] exI [of _ "w_len s"] exI [of _ "w_written s"]
          exI [of _ "w_overwritten s + 1"]) (auto simp: fifo_sys_inv_def)
  qed
qed

lemma r_section_returns:
  assumes inv: "fifo_sys_inv s" and act: "r_active s" "r_count s < r_max s"
  shows "\<exists>continue f buf k.
    byte_fifo_read_section (ring s, r_buffer s, r_count s) = Some (continue, f, buf, k) \<and>
    fifo_sys_inv (s\<lparr>ring := f, r_active := continue, r_buffer := buf, r_count := k,
      popped := popped s @ (if continue then [buf ! unat (r_count s)] else [])\<rparr>)"
proof (cases "n_elements (ring s) > 0")
  case True
  have ring: "fifo_inv (ring s)" using inv by (simp add: fifo_sys_inv_def)
  obtain b q where q: "fifo_bytes (ring s) = b # q"
    using True length_fifo_bytes [of "ring s"]
    by (cases "fifo_bytes (ring s)") (auto simp: word_gt_0 unat_eq_zero)
  have idx: "\<not> r_count s <s 0" "unat (r_count s) < length (r_buffer s)"
    using inv act int_index [of "r_count s"] by (auto simp: fifo_sys_inv_def word_less_nat_alt)
  obtain f where f: "byte_fifo_read_section (ring s, r_buffer s, r_count s) =
        Some (True, f, (r_buffer s)[unat (r_count s) := b], r_count s + 1)"
      "fifo_inv f" "fifo_bytes f = q"
    using pop_section [OF ring True idx] q by (auto simp: returns_def)
  show ?thesis
    using f inv q act(1) idx(2) arg_cong [OF q, of length] arg_cong [OF f(3), of length]
    by (intro exI [of _ True] exI [of _ f] exI [of _ "(r_buffer s)[unat (r_count s) := b]"]
        exI [of _ "r_count s + 1"]) (auto simp: fifo_sys_inv_def)
next
  case False
  then show ?thesis
    using inv by (auto simp: empty_section fifo_sys_inv_def)
qed

lemma fifo_step_inv: "fifo_step s t \<Longrightarrow> fifo_sys_inv s \<Longrightarrow> fifo_sys_inv t"
proof (induction rule: fifo_step.induct)
  case (w_section s f len nw no)
  then show ?case using w_section_returns [of s] by auto
next
  case (r_section s continue f buf k)
  then show ?case using r_section_returns [of s] by auto
qed (auto simp: fifo_sys_inv_def)

lemma fifo_reachable_inv: "fifo_reachable s \<Longrightarrow> fifo_sys_inv s"
proof (induction rule: fifo_reachable.induct)
  case (fifo_start f)
  then show ?case by (simp add: fifo_sys_inv_def fifo_sys_init_def)
next
  case (fifo_next_state s t)
  then show ?case by (blast intro: fifo_step_inv)
qed

section \<open>Degenerate rings\<close>

lemma byte_fifo_write_loop_size0:
  assumes "byte_fifo_write_loop bytes vars = Some r" "fifo_size (fst vars) = 0"
  shows "fst (snd vars) = 0"
proof (rule ccontr)
  have step: "fifo_size (fst v') = 0 \<and> fst (snd v') = fst (snd v)"
    if "byte_fifo_write_section bytes v = Some v'" "fifo_size (fst v) = 0" for bytes v v'
    using that by (cases v) (auto simp: byte_fifo_write_section_def)
  have "fifo_size (fst vars) = 0 \<longrightarrow> fst (snd vars) \<noteq> 0 \<longrightarrow> False"
  proof (rule byte_fifo_write_loop.raw_induct
      [where P = "\<lambda>_ v r. fifo_size (fst v) = 0 \<longrightarrow> fst (snd v) \<noteq> 0 \<longrightarrow> False", OF _ assms(1)])
    fix loop bytes v r
    assume IH: "\<And>bytes v r. loop bytes v = Some r \<Longrightarrow> fifo_size (fst v) = 0 \<longrightarrow> fst (snd v) \<noteq> 0 \<longrightarrow> False"
      and eq: "(if 0 < fst (snd v) then byte_fifo_write_section bytes v \<bind> loop bytes else Some v) = Some r"
    show "fifo_size (fst v) = 0 \<longrightarrow> fst (snd v) \<noteq> 0 \<longrightarrow> False"
    proof (intro impI)
      assume z: "fifo_size (fst v) = 0" "fst (snd v) \<noteq> 0"
      then obtain v' where v': "byte_fifo_write_section bytes v = Some v'" "loop bytes v' = Some r"
        using eq by (auto simp: word_gt_0 split: Option.bind_splits if_splits)
      from IH [OF v'(2)] step [OF v'(1) z(1)] z(2) show False by simp
    qed
  qed
  then show "fst (snd vars) \<noteq> 0 \<Longrightarrow> False" using assms(2) by blast
qed

section \<open>Properties\<close>

text \<open>A concrete ring of four bytes, for the witnesses.\<close>

abbreviation ring4 :: byte_fifo_t where
  "ring4 \<equiv> \<lparr>fifo_data = Some [0, 0, 0, 0], fifo_size = 4, write_index = 0, read_index = 0, n_elements = 0\<rparr>"

lemma ring4_inv: "fifo_inv ring4" and ring4_bytes: "fifo_bytes ring4 = []" and ring4_cap: "fifo_cap ring4 = 4"
  by (simp_all add: fifo_inv_def fifo_bytes_def fifo_cap_def)

text \<open>
  C9: \<open>byte_fifo_write\<close> implements a bounded queue that drops its oldest bytes: on a
  well-formed ring it terminates without touching memory outside of its buffers, keeps the
  ring well-formed, leaves exactly the newest \<open>size\<close> bytes of the old contents followed by
  the new bytes, and returns (modulo the 16 bits of its result) how many bytes were lost.
\<close>

theorem fifo_write_refines:
  assumes "fifo_inv f" and "unat len \<le> length bs" and "unat len < 2 ^ 31"
  shows "returns (byte_fifo_write (Some f) (Some bs) len) (\<lambda>(r, f'). \<exists>g. f' = Some g \<and> fifo_inv g \<and>
    fifo_cap g = fifo_cap f \<and>
    fifo_bytes g = lossy_push (fifo_cap f) (fifo_bytes f) (take (unat len) bs) \<and>
    unat r = (length (fifo_bytes f) + unat len - fifo_cap f) mod 2 ^ 16)"
  using assms by (rule byte_fifo_write_spec)

theorem fifo_write_refines_witness:
  "\<exists>r g. byte_fifo_write (Some ring4) (Some [1, 2, 3, 4, 5, 6]) 6 = Some (r, Some g) \<and>
     fifo_bytes g = [3, 4, 5, 6] \<and> r = 2"
proof -
  have "returns (byte_fifo_write (Some ring4) (Some [1, 2, 3, 4, 5, 6]) 6) (\<lambda>(r, f'). \<exists>g. f' = Some g \<and>
      fifo_inv g \<and> fifo_cap g = fifo_cap ring4 \<and>
      fifo_bytes g = lossy_push (fifo_cap ring4) (fifo_bytes ring4) (take (unat (6 :: u32)) [1, 2, 3, 4, 5, 6]) \<and>
      unat r = (length (fifo_bytes ring4) + unat (6 :: u32) - fifo_cap ring4) mod 2 ^ 16)"
    by (rule fifo_write_refines [OF ring4_inv]) simp_all
  then show ?thesis
    by (auto simp: returns_def ring4_bytes ring4_cap lossy_push_def unat_eq_of_nat)
qed

text \<open>
  C10: \<open>byte_fifo_read\<close> takes the oldest bytes, in order: it stores the first
  \<open>min max_len n\<close> bytes at the start of the caller's buffer, leaves the rest of the buffer
  alone, removes just these bytes from the ring and returns their number.
\<close>

theorem fifo_read_refines:
  assumes "fifo_inv f" and "unat max_len \<le> length buf" and "unat max_len < 2 ^ 31"
  shows "returns (byte_fifo_read (Some f) (Some buf) max_len) (\<lambda>(r, f', buf').
    let m = min (unat max_len) (length (fifo_bytes f)) in
    (\<exists>g. f' = Some g \<and> fifo_inv g \<and> fifo_cap g = fifo_cap f \<and> fifo_bytes g = drop m (fifo_bytes f)) \<and>
    buf' = Some (take m (fifo_bytes f) @ drop m buf) \<and> unat r = m mod 2 ^ 16)"
  using assms by (rule byte_fifo_read_spec)

abbreviation ring4_full :: byte_fifo_t where
  "ring4_full \<equiv> \<lparr>fifo_data = Some [5, 6, 3, 4], fifo_size = 4, write_index = 2, read_index = 2, n_elements = 4\<rparr>"

lemma ring4_full_inv: "fifo_inv ring4_full" and ring4_full_bytes: "fifo_bytes ring4_full = [3, 4, 5, 6]"
  by (simp_all add: fifo_inv_def fifo_bytes_def upt_conv_Cons)

theorem fifo_read_refines_witness:
  "\<exists>g. byte_fifo_read (Some ring4_full) (Some [9, 9, 9, 9]) 3 = Some (3, Some g, Some [3, 4, 5, 9]) \<and>
     fifo_bytes g = [6]"
proof -
  have "returns (byte_fifo_read (Some ring4_full) (Some [9, 9, 9, 9]) 3) (\<lambda>(r, f', buf').
      let m = min (unat (3 :: u32)) (length (fifo_bytes ring4_full)) in
      (\<exists>g. f' = Some g \<and> fifo_inv g \<and> fifo_cap g = fifo_cap ring4_full \<and>
         fifo_bytes g = drop m (fifo_bytes ring4_full)) \<and>
      buf' = Some (take m (fifo_bytes ring4_full) @ drop m [9, 9, 9, 9]) \<and> unat r = m mod 2 ^ 16)"
    by (rule fifo_read_refines [OF ring4_full_inv]) simp_all
  then show ?thesis
    by (auto simp: returns_def ring4_full_bytes unat_eq_of_nat)
qed

text \<open>
  C28: whatever the interleaving of the critical sections of a writer and a reader, what was
  read followed by what is still queued is a subsequence of what was written (no byte is
  reordered, duplicated or invented), every missing byte was counted as overwritten, and if
  nothing was overwritten nothing is missing.
\<close>

theorem fifo_interleaving_conserves:
  assumes "fifo_reachable s"
  shows "subseq (popped s @ fifo_bytes (ring s)) (pushed s) \<and>
    length (pushed s) = length (popped s @ fifo_bytes (ring s)) + dropped s \<and>
    (dropped s = 0 \<longrightarrow> popped s @ fifo_bytes (ring s) = pushed s)"
  using fifo_reachable_inv [OF assms]
  by (auto simp: fifo_sys_inv_def intro: subseq_same_length)

lemma reach_one_byte:
  "\<exists>s. fifo_reachable s \<and> pushed s = [7] \<and> dropped s = 0"
proof -
  let ?s0 = "fifo_sys_init ring4"
  let ?s1 = "?s0\<lparr>w_bytes := [7], w_len := 1, w_written := 0, w_overwritten := 0\<rparr>"
  have r0: "fifo_reachable ?s0" using ring4_inv ring4_bytes by (rule fifo_start)
  have "fifo_step ?s0 ?s1" by (rule w_call) (simp_all add: fifo_sys_init_def)
  with r0 have r1: "fifo_reachable ?s1" by (rule fifo_next_state)
  obtain f where f: "byte_fifo_write_section [7] (ring4, 1, 0, 0) = Some (f, 0, 1, 0)"
    using push_section [OF ring4_inv, of 0 "[7]" 1 0] by (auto simp: returns_def word_sless_alt)
  have "fifo_step ?s1 (?s1\<lparr>ring := f, w_len := 0, w_written := 1, w_overwritten := 0,
      pushed := [7], dropped := 0\<rparr>)"
    using w_section [of ?s1 f 0 1 0] f by (simp add: fifo_sys_init_def)
  with r1 have "fifo_reachable (?s1\<lparr>ring := f, w_len := 0, w_written := 1, w_overwritten := 0,
      pushed := [7], dropped := 0\<rparr>)" by (rule fifo_next_state)
  then show ?thesis by (intro exI conjI) auto
qed

theorem fifo_interleaving_conserves_witness:
  "\<exists>s. fifo_reachable s \<and> pushed s = [7] \<and> popped s @ fifo_bytes (ring s) = [7]"
proof -
  obtain s where s: "fifo_reachable s" "pushed s = [7]" "dropped s = 0"
    using reach_one_byte by blast
  then show ?thesis using fifo_interleaving_conserves [OF s(1)] by auto
qed

text \<open>
  Cutting a transmission into two receive callbacks gives the reader the same queue as
  one callback with all bytes.
\<close>

theorem fifo_burst_split:
  assumes "fifo_ok q" and "unat len \<le> length xs" and "unat len < 2 ^ 31"
    and "unat len' \<le> length ys" and "unat len' < 2 ^ 31"
  shows "returns (do { (_, q1) \<leftarrow> byte_fifo_write q (Some xs) len; byte_fifo_write q1 (Some ys) len' })
    (\<lambda>(_, q'). fifo_ok q' \<and> fifo_capacity q' = fifo_capacity q \<and>
       fifo_elems q' = lossy_push (fifo_capacity q) (fifo_elems q) (take (unat len) xs @ take (unat len') ys))"
  using assms by (rule fifo.wr_wr)

theorem fifo_burst_split_witness:
  "\<exists>r q. do { (_, q1) \<leftarrow> byte_fifo_write (Some ring4) (Some [1, 2, 3]) 3; byte_fifo_write q1 (Some [4, 5]) 2 }
     = Some (r, q) \<and> fifo_elems q = [2, 3, 4, 5]"
proof -
  have ok: "fifo_ok (Some ring4)" using ring4_inv by (simp add: fifo_ok_def)
  have "returns (do { (_, q1) \<leftarrow> byte_fifo_write (Some ring4) (Some [1, 2, 3]) 3; byte_fifo_write q1 (Some [4, 5]) 2 })
    (\<lambda>(_, q'). fifo_ok q' \<and> fifo_capacity q' = fifo_capacity (Some ring4) \<and>
       fifo_elems q' = lossy_push (fifo_capacity (Some ring4)) (fifo_elems (Some ring4))
         (take (unat (3 :: u32)) [1, 2, 3] @ take (unat (2 :: u32)) [4, 5]))"
    by (rule fifo_burst_split [OF ok]) simp_all
  then show ?thesis
    by (auto simp: returns_def fifo_capacity_def fifo_elems_def ring4_bytes ring4_cap lossy_push_def)
qed

text \<open>
  A ring whose \<open>size\<close> is 0 passes the checks of \<open>byte_fifo_write\<close> (only
  \<open>byte_fifo_reset\<close> tests the size), and then the write of any byte never returns: the loop
  keeps making room in a ring that has none.
\<close>

theorem fifo_write_size_zero_diverges:
  assumes "fifo_size f = 0" and "fifo_data f \<noteq> None" and "0 < len"
  shows "byte_fifo_write (Some f) (Some bs) len = None"
proof -
  have "byte_fifo_write_loop bs (f, len, 0, 0) = None"
    using byte_fifo_write_loop_size0 [of bs "(f, len, 0, 0)"] assms(1,3)
    by (cases "byte_fifo_write_loop bs (f, len, 0, 0)") auto
  then show ?thesis using assms(2) by (auto simp: byte_fifo_write_def)
qed

theorem fifo_write_size_zero_diverges_witness:
  "byte_fifo_write (Some \<lparr>fifo_data = Some [], fifo_size = 0, write_index = 0, read_index = 0, n_elements = 0\<rparr>)
     (Some [1]) 1 = None"
  by (rule fifo_write_size_zero_diverges) simp_all

text \<open>
  The number of overwritten bytes is an \<open>int\<close> but is returned as an \<open>int16_t\<close>: a write
  that overwrites 32768 bytes succeeds and yet returns a negative value, which the receive
  callback reports as an error.
\<close>

theorem fifo_write_result_overflows:
  assumes "fifo_inv f" and "unat len \<le> length bs" and "unat len < 2 ^ 31"
    and "length (fifo_bytes f) + unat len = fifo_cap f + 32768"
  shows "returns (byte_fifo_write (Some f) (Some bs) len) (\<lambda>(r, f'). r <s 0 \<and>
    fifo_elems f' = lossy_push (fifo_cap f) (fifo_bytes f) (take (unat len) bs))"
  by (rule returns_mono [OF byte_fifo_write_spec [OF assms(1-3)]])
    (use assms(4) in \<open>auto simp: fifo_elems_def unat_eq_of_nat word_sless_alt\<close>)

theorem fifo_write_result_overflows_witness:
  "returns (byte_fifo_write (Some ring4) (Some (replicate 32772 1)) 32772) (\<lambda>(r, f'). r <s 0 \<and>
    fifo_elems f' = lossy_push (fifo_cap ring4) (fifo_bytes ring4) (take (unat (32772 :: u32)) (replicate 32772 1)))"
  by (rule fifo_write_result_overflows [OF ring4_inv]) (simp_all add: ring4_bytes ring4_cap)

end
