(* ===== verification/Modbus_Types.thy ===== *)
theory Modbus_Types
  imports Prelude
begin

text \<open>
  The data of \<^verbatim>\<open>serial_driver/nanomodbus.h\<close>: error codes, the bit field macros, the platform
  and callback function tables and the instance struct \<open>nmbs_t\<close>.  A function pointer is an
  option (\<open>None\<close> is NULL).  The functions it points to are not part of the library: they act
  on a state \<open>'w\<close>, the world outside of the library, about which the library assumes nothing.
\<close>

section \<open>Error codes\<close>

datatype nmbs_error =
    NMBS_ERROR_INVALID_REQUEST
  | NMBS_ERROR_INVALID_UNIT_ID
  | NMBS_ERROR_INVALID_TCP_MBAP
  | NMBS_ERROR_CRC
  | NMBS_ERROR_TRANSPORT
  | NMBS_ERROR_TIMEOUT
  | NMBS_ERROR_INVALID_RESPONSE
  | NMBS_ERROR_INVALID_ARGUMENT
  | NMBS_ERROR_NONE
  | NMBS_EXCEPTION_ILLEGAL_FUNCTION
  | NMBS_EXCEPTION_ILLEGAL_DATA_ADDRESS
  | NMBS_EXCEPTION_ILLEGAL_DATA_VALUE
  | NMBS_EXCEPTION_SERVER_DEVICE_FAILURE

fun error_code :: "nmbs_error \<Rightarrow> int" where
  "error_code NMBS_ERROR_INVALID_REQUEST = -8"
| "error_code NMBS_ERROR_INVALID_UNIT_ID = -7"
| "error_code NMBS_ERROR_INVALID_TCP_MBAP = -6"
| "error_code NMBS_ERROR_CRC = -5"
| "error_code NMBS_ERROR_TRANSPORT = -4"
| "error_code NMBS_ERROR_TIMEOUT = -3"
| "error_code NMBS_ERROR_INVALID_RESPONSE = -2"
| "error_code NMBS_ERROR_INVALID_ARGUMENT = -1"
| "error_code NMBS_ERROR_NONE = 0"
| "error_code NMBS_EXCEPTION_ILLEGAL_FUNCTION = 1"
| "error_code NMBS_EXCEPTION_ILLEGAL_DATA_ADDRESS = 2"
| "error_code NMBS_EXCEPTION_ILLEGAL_DATA_VALUE = 3"
| "error_code NMBS_EXCEPTION_SERVER_DEVICE_FAILURE = 4"

lemma error_code_inject: "error_code e = error_code e' \<Longrightarrow> e = e'"
  by (cases e; cases e') simp_all

text \<open>The C enum is ordered by its codes.\<close>

instantiation nmbs_error :: linorder
begin

definition "e \<le> e' \<longleftrightarrow> error_code e \<le> error_code e'"
definition "(e :: nmbs_error) < e' \<longleftrightarrow> error_code e < error_code e'"

instance
  by standard (auto simp: less_eq_nmbs_error_def less_nmbs_error_def intro: error_code_inject)

end

lemmas nmbs_error_order = less_eq_nmbs_error_def less_nmbs_error_def

definition nmbs_error_is_exception :: "nmbs_error \<Rightarrow> bool" where
  "nmbs_error_is_exception e \<longleftrightarrow> NMBS_ERROR_NONE < e \<and> error_code e < 5"

lemma is_exception_simps [simp]:
  "\<not> nmbs_error_is_exception NMBS_ERROR_INVALID_REQUEST"
  "\<not> nmbs_error_is_exception NMBS_ERROR_INVALID_UNIT_ID"
  "\<not> nmbs_error_is_exception NMBS_ERROR_INVALID_TCP_MBAP"
  "\<not> nmbs_error_is_exception NMBS_ERROR_CRC"
  "\<not> nmbs_error_is_exception NMBS_ERROR_TRANSPORT"
  "\<not> nmbs_error_is_exception NMBS_ERROR_TIMEOUT"
  "\<not> nmbs_error_is_exception NMBS_ERROR_INVALID_RESPONSE"
  "\<not> nmbs_error_is_exception NMBS_ERROR_INVALID_ARGUMENT"
  "\<not> nmbs_error_is_exception NMBS_ERROR_NONE"
  "nmbs_error_is_exception NMBS_EXCEPTION_ILLEGAL_FUNCTION"
  "nmbs_error_is_exception NMBS_EXCEPTION_ILLEGAL_DATA_ADDRESS"
  "nmbs_error_is_exception NMBS_EXCEPTION_ILLEGAL_DATA_VALUE"
  "nmbs_error_is_exception NMBS_EXCEPTION_SERVER_DEVICE_FAILURE"
  by (simp_all add: nmbs_error_is_exception_def nmbs_error_order)

text \<open>The cast \<^verbatim>\<open>(nmbs_error)exception\<close> of a byte that was checked to be in 1..4.\<close>

definition nmbs_error_of_exception :: "u8 \<Rightarrow> nmbs_error" where
  "nmbs_error_of_exception b =
     (if b = 1 then NMBS_EXCEPTION_ILLEGAL_FUNCTION
      else if b = 2 then NMBS_EXCEPTION_ILLEGAL_DATA_ADDRESS
      else if b = 3 then NMBS_EXCEPTION_ILLEGAL_DATA_VALUE
      else NMBS_EXCEPTION_SERVER_DEVICE_FAILURE)"

section \<open>Bit fields\<close>

text \<open>\<open>nmbs_bitfield\<close> (250 bytes) and \<open>nmbs_bitfield_256\<close> (32 bytes) are byte lists.\<close>

type_synonym nmbs_bitfield = "u8 list"

definition nmbs_bitfield_read :: "nmbs_bitfield \<Rightarrow> nat \<Rightarrow> bool option" where
  "nmbs_bitfield_read bf b = do { x \<leftarrow> buf_get bf (b div 8); Some (x AND push_bit (b mod 8) 1 \<noteq> 0) }"

definition nmbs_bitfield_set :: "nmbs_bitfield \<Rightarrow> nat \<Rightarrow> nmbs_bitfield option" where
  "nmbs_bitfield_set bf b =
     do { x \<leftarrow> buf_get bf (b div 8); buf_set bf (b div 8) (x OR push_bit (b mod 8) 1) }"

definition nmbs_bitfield_unset :: "nmbs_bitfield \<Rightarrow> nat \<Rightarrow> nmbs_bitfield option" where
  "nmbs_bitfield_unset bf b =
     do { x \<leftarrow> buf_get bf (b div 8); buf_set bf (b div 8) (x AND NOT (push_bit (b mod 8) 1)) }"

definition nmbs_bitfield_write :: "nmbs_bitfield \<Rightarrow> nat \<Rightarrow> bool \<Rightarrow> nmbs_bitfield option" where
  "nmbs_bitfield_write bf b v =
     do { x \<leftarrow> buf_get bf (b div 8);
          buf_set bf (b div 8)
            (if v then x OR push_bit (b mod 8) 1 else x AND NOT (push_bit (b mod 8) 1)) }"

definition nmbs_bitfield_reset :: "nmbs_bitfield \<Rightarrow> nmbs_bitfield" where
  "nmbs_bitfield_reset bf = replicate (length bf) 0"

section \<open>The platform\<close>

definition NMBS_TRANSPORT_RTU :: i32 where "NMBS_TRANSPORT_RTU = 1"
definition NMBS_TRANSPORT_TCP :: i32 where "NMBS_TRANSPORT_TCP = 2"
definition NMBS_BROADCAST_ADDRESS :: u8 where "NMBS_BROADCAST_ADDRESS = 0"

text \<open>The mark that the create functions leave in a table.\<close>

definition INITIALIZED :: u32 where "INITIALIZED = 0xFFFFDEBE"

lemmas transport_defs [simp] = NMBS_TRANSPORT_RTU_def NMBS_TRANSPORT_TCP_def

type_synonym void_ptr = u64

text \<open>
  \<open>read(buf, count, byte_timeout_ms, arg)\<close>: the buffer argument is the memory from the
  pointer to the end of the object it points into, so that the callee's writes are checked
  against the real bound; the new contents are returned.  \<open>write\<close> reads its buffer.
\<close>

type_synonym 'w transport_read =
  "u8 list option \<Rightarrow> u16 \<Rightarrow> i32 \<Rightarrow> void_ptr \<Rightarrow> 'w \<Rightarrow> (i32 \<times> u8 list option \<times> 'w) option"
type_synonym 'w transport_write =
  "u8 list option \<Rightarrow> u16 \<Rightarrow> i32 \<Rightarrow> void_ptr \<Rightarrow> 'w \<Rightarrow> (i32 \<times> 'w) option"
type_synonym crc_function = "u8 list \<Rightarrow> u32 \<Rightarrow> void_ptr \<Rightarrow> u16 option"

record 'w nmbs_platform_conf =
  transport :: i32
  conf_read :: "'w transport_read option"
  conf_write :: "'w transport_write option"
  crc_calc :: "crc_function option"
  conf_arg :: void_ptr
  conf_initialized :: u32

section \<open>Server callbacks\<close>

text \<open>Output arrays are passed in and returned; every callback may change the world.\<close>

type_synonym 'w read_bits_cb =
  "u16 \<Rightarrow> u16 \<Rightarrow> nmbs_bitfield \<Rightarrow> u8 \<Rightarrow> void_ptr \<Rightarrow> 'w \<Rightarrow> nmbs_error \<times> nmbs_bitfield \<times> 'w"
type_synonym 'w read_regs_cb =
  "u16 \<Rightarrow> u16 \<Rightarrow> u16 list \<Rightarrow> u8 \<Rightarrow> void_ptr \<Rightarrow> 'w \<Rightarrow> nmbs_error \<times> u16 list \<times> 'w"
type_synonym 'w write_coil_cb = "u16 \<Rightarrow> bool \<Rightarrow> u8 \<Rightarrow> void_ptr \<Rightarrow> 'w \<Rightarrow> nmbs_error \<times> 'w"
type_synonym 'w write_reg_cb = "u16 \<Rightarrow> u16 \<Rightarrow> u8 \<Rightarrow> void_ptr \<Rightarrow> 'w \<Rightarrow> nmbs_error \<times> 'w"
type_synonym 'w write_bits_cb =
  "u16 \<Rightarrow> u16 \<Rightarrow> nmbs_bitfield \<Rightarrow> u8 \<Rightarrow> void_ptr \<Rightarrow> 'w \<Rightarrow> nmbs_error \<times> 'w"
type_synonym 'w write_regs_cb =
  "u16 \<Rightarrow> u16 \<Rightarrow> u16 list \<Rightarrow> u8 \<Rightarrow> void_ptr \<Rightarrow> 'w \<Rightarrow> nmbs_error \<times> 'w"
type_synonym 'w read_file_cb =
  "u16 \<Rightarrow> u16 \<Rightarrow> u16 list \<Rightarrow> u16 \<Rightarrow> u8 \<Rightarrow> void_ptr \<Rightarrow> 'w \<Rightarrow> nmbs_error \<times> u16 list \<times> 'w"
type_synonym 'w write_file_cb =
  "u16 \<Rightarrow> u16 \<Rightarrow> u16 list \<Rightarrow> u16 \<Rightarrow> u8 \<Rightarrow> void_ptr \<Rightarrow> 'w \<Rightarrow> nmbs_error \<times> 'w"
type_synonym 'w read_id_cb = "u8 \<Rightarrow> u8 list \<Rightarrow> 'w \<Rightarrow> nmbs_error \<times> u8 list \<times> 'w"
type_synonym 'w read_id_map_cb = "nmbs_bitfield \<Rightarrow> 'w \<Rightarrow> nmbs_error \<times> nmbs_bitfield \<times> 'w"

record 'w nmbs_callbacks =
  cb_read_coils :: "'w read_bits_cb option"
  cb_read_discrete_inputs :: "'w read_bits_cb option"
  cb_read_holding_registers :: "'w read_regs_cb option"
  cb_read_input_registers :: "'w read_regs_cb option"
  cb_write_single_coil :: "'w write_coil_cb option"
  cb_write_single_register :: "'w write_reg_cb option"
  cb_write_multiple_coils :: "'w write_bits_cb option"
  cb_write_multiple_registers :: "'w write_regs_cb option"
  cb_read_file_record :: "'w read_file_cb option"
  cb_write_file_record :: "'w write_file_cb option"
  cb_read_device_identification :: "'w read_id_cb option"
  cb_read_device_identification_map :: "'w read_id_map_cb option"
  cb_arg :: void_ptr
  cb_initialized :: u32

section \<open>The instance\<close>

record nmbs_msg =
  msg_buf :: "u8 list" \<comment> \<open>\<^verbatim>\<open>uint8_t buf[260]\<close>\<close>
  buf_idx :: u16
  unit_id :: u8
  msg_fc :: u8
  transaction_id :: u16
  broadcast :: bool
  ignored :: bool
  complete :: bool

record 'w nmbs_t =
  msg :: nmbs_msg
  callbacks :: "'w nmbs_callbacks"
  byte_timeout_ms :: i32
  read_timeout_ms :: i32
  platform :: "'w nmbs_platform_conf"
  address_rtu :: u8
  dest_address_rtu :: u8
  current_tid :: u16

text \<open>\<^verbatim>\<open>memset(..., 0, ...)\<close> of the structs.\<close>

definition zero_conf :: "'w nmbs_platform_conf" where
  "zero_conf = \<lparr>transport = 0, conf_read = None, conf_write = None, crc_calc = None,
     conf_arg = 0, conf_initialized = 0\<rparr>"

definition zero_callbacks :: "'w nmbs_callbacks" where
  "zero_callbacks = \<lparr>cb_read_coils = None, cb_read_discrete_inputs = None,
     cb_read_holding_registers = None, cb_read_input_registers = None,
     cb_write_single_coil = None, cb_write_single_register = None,
     cb_write_multiple_coils = None, cb_write_multiple_registers = None,
     cb_read_file_record = None, cb_write_file_record = None,
     cb_read_device_identification = None, cb_read_device_identification_map = None,
     cb_arg = 0, cb_initialized = 0\<rparr>"

definition zero_msg :: nmbs_msg where
  "zero_msg = \<lparr>msg_buf = replicate 260 0, buf_idx = 0, unit_id = 0, msg_fc = 0, transaction_id = 0,
     broadcast = False, ignored = False, complete = False\<rparr>"

definition zero_nmbs :: "'w nmbs_t" where
  "zero_nmbs = \<lparr>msg = zero_msg, callbacks = zero_callbacks, byte_timeout_ms = 0, read_timeout_ms = 0,
     platform = zero_conf, address_rtu = 0, dest_address_rtu = 0, current_tid = 0\<rparr>"

section \<open>The bit fields are arrays of booleans\<close>

definition bitfield_bits :: "nmbs_bitfield \<Rightarrow> bool list" where
  "bitfield_bits bf = map (\<lambda>b. bit (bf ! (b div 8)) (b mod 8)) [0..<8 * length bf]"

lemma and_push_bit_1: "x AND push_bit k 1 \<noteq> 0 \<longleftrightarrow> bit x k" for x :: "'a::len word"
  by (simp add: push_bit_of_1 and_exp_eq_0_iff_not_bit)

lemma bitfield_read_bits:
  "nmbs_bitfield_read bf b = (if b < 8 * length bf then Some (bitfield_bits bf ! b) else None)"
  by (auto simp: nmbs_bitfield_read_def bitfield_bits_def buf_get_def and_push_bit_1 simp del: push_bit_of_1)

lemma bitfield_write_bits:
  assumes "b < 8 * length bf"
  shows "returns (nmbs_bitfield_write bf b v)
    (\<lambda>bf'. length bf' = length bf \<and> bitfield_bits bf' = (bitfield_bits bf)[b := v])"
proof -
  define x where "x = (if v then bf ! (b div 8) OR push_bit (b mod 8) 1
            else bf ! (b div 8) AND NOT (push_bit (b mod 8) 1))"
  have i: "b div 8 < length bf" using assms by simp
  have eq: "c mod 8 = b mod 8 \<longleftrightarrow> c = b" if "c div 8 = b div 8" for c
    using that by (metis div_mult_mod_eq)
  have x: "bit x k \<longleftrightarrow> (if k = b mod 8 then v else bit (bf ! (b div 8)) k)" if "k < 8" for k
    using that by (auto simp: x_def bit_simps)
  have "bitfield_bits (bf[b div 8 := x]) = (bitfield_bits bf)[b := v]"
    using i x eq by (intro nth_equalityI) (auto simp: bitfield_bits_def nth_list_update)
  then show ?thesis
    using i by (simp add: nmbs_bitfield_write_def buf_get_def buf_set_def x_def)
qed

end
