(* ===== verification/Modbus_Codec.thy ===== *)
theory Modbus_Codec
  imports Modbus_Types
begin

text \<open>
  The message buffer of \<^verbatim>\<open>nanomodbus.c\<close>: the cursor operations \<open>get_*\<close>, \<open>put_*\<close>, \<open>set_*\<close>
  and \<open>discard_*\<close> on \<open>msg.buf\<close> and \<open>msg.buf_idx\<close>, and the register copies.  Multi-byte
  fields are big-endian on the wire.  Where the code views the buffer as an array of
  \<^verbatim>\<open>uint16_t\<close>, the host is little-endian, as the targets of this driver are.
\<close>

section \<open>Cursor operations\<close>

abbreviation cursor :: "'w nmbs_t \<Rightarrow> nat" where
  "cursor n \<equiv> unat (buf_idx (msg n))"

abbreviation mbuf :: "'w nmbs_t \<Rightarrow> u8 list" where
  "mbuf n \<equiv> msg_buf (msg n)"

definition set_buf :: "'w nmbs_t \<Rightarrow> u8 list \<Rightarrow> 'w nmbs_t" where
  "set_buf n b = n\<lparr>msg := (msg n)\<lparr>msg_buf := b\<rparr>\<rparr>"

definition advance :: "'w nmbs_t \<Rightarrow> u16 \<Rightarrow> 'w nmbs_t" where
  "advance n k = n\<lparr>msg := (msg n)\<lparr>buf_idx := buf_idx (msg n) + k\<rparr>\<rparr>"

definition hi_byte :: "u16 \<Rightarrow> u8" where
  "hi_byte x = ucast (drop_bit 8 x AND 0xFF)"

definition lo_byte :: "u16 \<Rightarrow> u8" where
  "lo_byte x = ucast x"

definition word_of_bytes :: "u8 \<Rightarrow> u8 \<Rightarrow> u16" where
  "word_of_bytes h l = push_bit 8 (ucast h) OR ucast l"

definition get_1 :: "'w nmbs_t \<Rightarrow> (u8 \<times> 'w nmbs_t) option" where
  "get_1 n = do { b \<leftarrow> buf_get (mbuf n) (cursor n); Some (b, advance n 1) }"

definition put_1 :: "'w nmbs_t \<Rightarrow> u8 \<Rightarrow> 'w nmbs_t option" where
  "put_1 n b = do { buf \<leftarrow> buf_set (mbuf n) (cursor n) b; Some (advance (set_buf n buf) 1) }"

definition discard_1 :: "'w nmbs_t \<Rightarrow> 'w nmbs_t" where
  "discard_1 n = advance n 1"

definition discard_n :: "'w nmbs_t \<Rightarrow> u16 \<Rightarrow> 'w nmbs_t" where
  "discard_n n k = advance n k"

definition get_2 :: "'w nmbs_t \<Rightarrow> (u16 \<times> 'w nmbs_t) option" where
  "get_2 n = do {
     h \<leftarrow> buf_get (mbuf n) (cursor n);
     l \<leftarrow> buf_get (mbuf n) (cursor n + 1);
     Some (word_of_bytes h l, advance n 2)
   }"

definition put_2 :: "'w nmbs_t \<Rightarrow> u16 \<Rightarrow> 'w nmbs_t option" where
  "put_2 n x = do {
     buf1 \<leftarrow> buf_set (mbuf n) (cursor n) (hi_byte x);
     buf2 \<leftarrow> buf_set buf1 (cursor n + 1) (lo_byte x);
     Some (advance (set_buf n buf2) 2)
   }"

definition set_1 :: "'w nmbs_t \<Rightarrow> u8 \<Rightarrow> u8 \<Rightarrow> 'w nmbs_t option" where
  "set_1 n b i = do { buf \<leftarrow> buf_set (mbuf n) (unat i) b; Some (set_buf n buf) }"

definition set_2 :: "'w nmbs_t \<Rightarrow> u16 \<Rightarrow> u8 \<Rightarrow> 'w nmbs_t option" where
  "set_2 n x i = do {
     buf1 \<leftarrow> buf_set (mbuf n) (unat i) (hi_byte x);
     buf2 \<leftarrow> buf_set buf1 (unat i + 1) (lo_byte x);
     Some (set_buf n buf2)
   }"

text \<open>\<open>get_n\<close> returns a pointer into the buffer: its offset.\<close>

definition get_n :: "'w nmbs_t \<Rightarrow> u16 \<Rightarrow> nat \<times> 'w nmbs_t" where
  "get_n n k = (cursor n, advance n k)"

definition put_n :: "'w nmbs_t \<Rightarrow> u8 list \<Rightarrow> u8 \<Rightarrow> 'w nmbs_t option" where
  "put_n n bs sz = do {
     src \<leftarrow> buf_slice bs 0 (unat sz);
     buf \<leftarrow> buf_splice (mbuf n) (cursor n) src;
     Some (advance (set_buf n buf) (ucast sz))
   }"

section \<open>Registers in the buffer\<close>

text \<open>A \<^verbatim>\<open>uint16_t\<close> in the memory of a little-endian host, and the byte swap of the code.\<close>

definition swap16 :: "u16 \<Rightarrow> u16" where
  "swap16 x = push_bit 8 x OR (drop_bit 8 x AND 0xFF)"

definition load16 :: "u8 list \<Rightarrow> nat \<Rightarrow> u16 option" where
  "load16 b i = do { l \<leftarrow> buf_get b i; h \<leftarrow> buf_get b (i + 1); Some (word_of_bytes h l) }"

definition store16 :: "u8 list \<Rightarrow> nat \<Rightarrow> u16 \<Rightarrow> u8 list option" where
  "store16 b i x = do { b1 \<leftarrow> buf_set b i (lo_byte x); buf_set b1 (i + 1) (hi_byte x) }"

text \<open>\<open>swap_regs\<close> on a pointer into a byte buffer; the loop counts \<open>n\<close> down.\<close>

fun swap_regs :: "u8 list \<Rightarrow> nat \<Rightarrow> nat \<Rightarrow> u8 list option" where
  "swap_regs b off 0 = Some b"
| "swap_regs b off (Suc n) = do {
     x \<leftarrow> load16 b (off + 2 * n);
     b' \<leftarrow> store16 b (off + 2 * n) (swap16 x);
     swap_regs b' off n
   }"

definition get_regs :: "'w nmbs_t \<Rightarrow> u16 \<Rightarrow> (nat \<times> 'w nmbs_t) option" where
  "get_regs n k = do {
     let off = cursor n;
     let n1 = advance n (k * 2);
     buf \<leftarrow> swap_regs (mbuf n1) off (unat k);
     Some (off, set_buf n1 buf)
   }"

fun put_regs_loop :: "u8 list \<Rightarrow> nat \<Rightarrow> u16 list \<Rightarrow> nat \<Rightarrow> u8 list option" where
  "put_regs_loop b off data 0 = Some b"
| "put_regs_loop b off data (Suc n) = do {
     x \<leftarrow> buf_get data n;
     b' \<leftarrow> store16 b (off + 2 * n) (swap16 x);
     put_regs_loop b' off data n
   }"

definition put_regs :: "'w nmbs_t \<Rightarrow> u16 list \<Rightarrow> u16 \<Rightarrow> 'w nmbs_t option" where
  "put_regs n data k = do {
     let off = cursor n;
     let n1 = advance n (k * 2);
     buf \<leftarrow> put_regs_loop (mbuf n1) off data (unat k);
     Some (set_buf n1 buf)
   }"

section \<open>Facts on bytes\<close>

lemma bit_255 [simp]: "bit (255 :: int) k \<longleftrightarrow> k < 8"
proof -
  have "bit (mask 8 :: int) k \<longleftrightarrow> k < 8" by (auto simp: bit_mask_iff)
  moreover have "mask 8 = (255 :: int)" by (simp add: mask_eq_exp_minus_1)
  ultimately show ?thesis by (simp only:)
qed

lemmas byte_defs = word_of_bytes_def hi_byte_def lo_byte_def swap16_def

lemma word_of_hi_lo [simp]: "word_of_bytes (hi_byte x) (lo_byte x) = x"
  by (rule bit_word_eqI) (auto simp: byte_defs bit_simps)

lemma hi_word_of_bytes [simp]: "hi_byte (word_of_bytes h l) = h"
  by (rule bit_word_eqI) (auto simp: byte_defs bit_simps dest: bit_imp_le_length)

lemma lo_word_of_bytes [simp]: "lo_byte (word_of_bytes h l) = l"
  by (rule bit_word_eqI) (auto simp: byte_defs bit_simps)

lemma swap16_bytes: "swap16 x = word_of_bytes (lo_byte x) (hi_byte x)"
  by (rule bit_word_eqI) (auto simp: byte_defs bit_simps dest: bit_imp_le_length)

lemma swap16_swap16 [simp]: "swap16 (swap16 x) = x"
  by (simp add: swap16_bytes)

lemma hi_swap16 [simp]: "hi_byte (swap16 x) = lo_byte x"
  and lo_swap16 [simp]: "lo_byte (swap16 x) = hi_byte x"
  by (simp_all add: swap16_bytes)

section \<open>Registers in host memory\<close>

text \<open>The little-endian view of an array of \<^verbatim>\<open>uint16_t\<close> as bytes, and back.\<close>

fun host_bytes :: "u16 list \<Rightarrow> u8 list" where
  "host_bytes [] = []"
| "host_bytes (x # xs) = lo_byte x # hi_byte x # host_bytes xs"

fun host_words :: "u8 list \<Rightarrow> u16 list" where
  "host_words (l # h # bs) = word_of_bytes h l # host_words bs"
| "host_words bs = []"

lemma length_host_bytes [simp]: "length (host_bytes ws) = 2 * length ws"
  by (induction ws) simp_all

lemma length_host_words [simp]: "length (host_words bs) = length bs div 2"
  by (induction bs rule: host_words.induct) auto

lemma host_words_host_bytes [simp]: "host_words (host_bytes ws) = ws"
  by (induction ws) simp_all

lemma host_bytes_host_words: "even (length bs) \<Longrightarrow> host_bytes (host_words bs) = bs"
  by (induction bs rule: host_words.induct) auto

section \<open>The cursor operations on a buffer with room\<close>

lemma cursor_advance:
  "cursor n + unat k < 2 ^ 16 \<Longrightarrow> cursor (advance n k) = cursor n + unat k"
  by (simp add: advance_def unat_word_ariths)

lemma advance_simps [simp]:
  "mbuf (advance n k) = mbuf n" "mbuf (set_buf n b) = b" "cursor (set_buf n b) = cursor n"
  "callbacks (advance n k) = callbacks n" "callbacks (set_buf n b) = callbacks n"
  "byte_timeout_ms (advance n k) = byte_timeout_ms n" "byte_timeout_ms (set_buf n b) = byte_timeout_ms n"
  "read_timeout_ms (advance n k) = read_timeout_ms n" "read_timeout_ms (set_buf n b) = read_timeout_ms n"
  "platform (advance n k) = platform n" "platform (set_buf n b) = platform n"
  "address_rtu (advance n k) = address_rtu n" "address_rtu (set_buf n b) = address_rtu n"
  "dest_address_rtu (advance n k) = dest_address_rtu n" "dest_address_rtu (set_buf n b) = dest_address_rtu n"
  "current_tid (advance n k) = current_tid n" "current_tid (set_buf n b) = current_tid n"
  "unit_id (msg (advance n k)) = unit_id (msg n)" "unit_id (msg (set_buf n b)) = unit_id (msg n)"
  "msg_fc (msg (advance n k)) = msg_fc (msg n)" "msg_fc (msg (set_buf n b)) = msg_fc (msg n)"
  "transaction_id (msg (advance n k)) = transaction_id (msg n)"
  "transaction_id (msg (set_buf n b)) = transaction_id (msg n)"
  "broadcast (msg (advance n k)) = broadcast (msg n)" "broadcast (msg (set_buf n b)) = broadcast (msg n)"
  "ignored (msg (advance n k)) = ignored (msg n)" "ignored (msg (set_buf n b)) = ignored (msg n)"
  "complete (msg (advance n k)) = complete (msg n)" "complete (msg (set_buf n b)) = complete (msg n)"
  by (simp_all add: advance_def set_buf_def)

text \<open>
  Appending bytes at the cursor, as a function of the instance.  A writing operation is one
  \<open>emit\<close> when the buffer has room for its bytes, and consecutive \<open>emit\<close>s add up, so that the
  bytes of a message can be read off from the code that builds it.
\<close>

definition emit :: "'w nmbs_t \<Rightarrow> u8 list \<Rightarrow> 'w nmbs_t" where
  "emit n bs = set_buf (advance n (of_nat (length bs)))
     (take (cursor n) (mbuf n) @ bs @ drop (cursor n + length bs) (mbuf n))"

definition wf_nmbs :: "'w nmbs_t \<Rightarrow> bool" where
  "wf_nmbs n \<longleftrightarrow> length (mbuf n) = 260"

definition room :: "'w nmbs_t \<Rightarrow> nat \<Rightarrow> bool" where
  "room n k \<longleftrightarrow> wf_nmbs n \<and> cursor n + k \<le> 260"

definition be16 :: "u16 \<Rightarrow> u8 list" where
  "be16 x = [hi_byte x, lo_byte x]"

lemma length_be16 [simp]: "length (be16 x) = 2"
  by (simp add: be16_def)

lemma length_concat_be16 [simp]: "length (concat (map be16 xs)) = 2 * length xs"
  by (induction xs) simp_all

lemma cursor_emit [simp]: "room n (length bs) \<Longrightarrow> cursor (emit n bs) = cursor n + length bs"
  by (simp add: emit_def room_def cursor_advance advance_def set_buf_def unat_word_ariths
      unsigned_of_nat take_bit_nat_eq_self)

lemma mbuf_emit:
  "mbuf (emit n bs) = take (cursor n) (mbuf n) @ bs @ drop (cursor n + length bs) (mbuf n)"
  by (simp add: emit_def)

lemma wf_emit [simp]: "room n (length bs) \<Longrightarrow> wf_nmbs (emit n bs)"
  by (simp add: wf_nmbs_def mbuf_emit room_def)

lemma room_emit [simp]: "room n (length bs + k) \<Longrightarrow> room (emit n bs) k"
  by (simp add: room_def wf_nmbs_def mbuf_emit cursor_emit)

lemma room_mono: "room n k \<Longrightarrow> j \<le> k \<Longrightarrow> room n j"
  by (simp add: room_def)

lemma emit_emit [simp]:
  assumes "room n (length xs + length ys)"
  shows "emit (emit n xs) ys = emit n (xs @ ys)"
proof -
  have c: "cursor (emit n xs) = cursor n + length xs"
    using assms by (intro cursor_emit room_mono [OF assms]) simp
  have "mbuf (emit (emit n xs) ys) = mbuf (emit n (xs @ ys))"
    using assms by (simp add: mbuf_emit c room_def wf_nmbs_def add_ac)
  moreover have "emit (emit n xs) ys = set_buf (advance n (of_nat (length (xs @ ys)))) (mbuf (emit (emit n xs) ys))"
    by (simp add: emit_def set_buf_def advance_def add.assoc)
  ultimately show ?thesis
    by (simp add: emit_def [of n "xs @ ys"])
qed

lemma put_1_emit [simp]: "room n 1 \<Longrightarrow> put_1 n b = Some (emit n [b])"
  by (simp add: put_1_def room_def wf_nmbs_def buf_set_def emit_def upd_conv_take_nth_drop set_buf_def advance_def)

lemma put_2_emit [simp]:
  assumes "room n 2" shows "put_2 n x = Some (emit n (be16 x))"
proof -
  have id2: "Suc (Suc (i - 2)) = i" if "1 < i" for i :: nat
    using that by simp
  have "(mbuf n)[cursor n := h, Suc (cursor n) := l] =
      take (cursor n) (mbuf n) @ h # l # drop (Suc (Suc (cursor n))) (mbuf n)" for h l
    using assms by (intro nth_equalityI)
      (auto simp: room_def wf_nmbs_def nth_list_update nth_append nth_Cons' min_def id2)
  then show ?thesis
    using assms
    by (simp add: put_2_def room_def wf_nmbs_def buf_set_def emit_def be16_def set_buf_def advance_def)
qed

lemma emit_fields [simp]:
  "callbacks (emit n b) = callbacks n" "byte_timeout_ms (emit n b) = byte_timeout_ms n"
  "read_timeout_ms (emit n b) = read_timeout_ms n" "platform (emit n b) = platform n"
  "address_rtu (emit n b) = address_rtu n" "dest_address_rtu (emit n b) = dest_address_rtu n"
  "current_tid (emit n b) = current_tid n" "unit_id (msg (emit n b)) = unit_id (msg n)"
  "msg_fc (msg (emit n b)) = msg_fc (msg n)" "transaction_id (msg (emit n b)) = transaction_id (msg n)"
  "broadcast (msg (emit n b)) = broadcast (msg n)" "ignored (msg (emit n b)) = ignored (msg n)"
  "complete (msg (emit n b)) = complete (msg n)"
  by (simp_all add: emit_def)

lemma put_n_emit:
  assumes "room n (unat sz)" "unat sz \<le> length bs"
  shows "put_n n bs sz = Some (emit n (take (unat sz) bs))"
proof -
  have "(of_nat (unat sz) :: u16) = ucast sz" by (simp only: of_nat_unat)
  then show ?thesis
    using assms by (simp add: put_n_def room_def wf_nmbs_def buf_slice_def buf_splice_def emit_def
        set_buf_def advance_def)
qed

section \<open>Copying registers\<close>

text \<open>
  \<open>put_regs\<close> copies all registers at once, from the last to the first, as byte-swapped host
  words; the bytes are those of one \<open>put_2\<close> per register.
\<close>

lemma store16_swap:
  assumes "i + 2 \<le> length b"
  shows "store16 b i (swap16 x) = Some (take i b @ be16 x @ drop (i + 2) b)"
proof -
  have id2: "Suc (Suc (j - 2)) = j" if "1 < j" for j :: nat
    using that by simp
  have "b[i := h, Suc i := l] = take i b @ h # l # drop (Suc (Suc i)) b" for h l
    using assms by (intro nth_equalityI) (auto simp: nth_list_update nth_append nth_Cons' min_def id2)
  then show ?thesis
    using assms by (simp add: store16_def buf_set_def be16_def)
qed

lemma put_regs_loop_bytes:
  "k \<le> length data \<Longrightarrow> off + 2 * k \<le> length b \<Longrightarrow>
   put_regs_loop b off data k = Some (take off b @ concat (map be16 (take k data)) @ drop (off + 2 * k) b)"
proof (induction k arbitrary: b)
  case 0
  then show ?case by simp
next
  case (Suc k)
  let ?b = "take (off + 2 * k) b @ be16 (data ! k) @ drop (off + 2 * k + 2) b"
  have "put_regs_loop b off data (Suc k) = put_regs_loop ?b off data k"
    using Suc.prems by (simp add: buf_get_def store16_swap)
  also have "\<dots> = Some (take off ?b @ concat (map be16 (take k data)) @ drop (off + 2 * k) ?b)"
    using Suc.prems by (intro Suc.IH) simp_all
  also have "\<dots> = Some (take off b @ concat (map be16 (take (Suc k) data)) @ drop (off + 2 * Suc k) b)"
    using Suc.prems by (simp add: take_Suc_conv_app_nth add_ac)
  finally show ?case .
qed

lemma put_regs_emit:
  assumes "room n (2 * unat k)" "unat k \<le> length data"
  shows "put_regs n data k = Some (emit n (concat (map be16 (take (unat k) data))))"
proof -
  have "(of_nat (2 * unat k) :: u16) = k * 2"
    by simp
  then show ?thesis
    using assms by (simp add: put_regs_def put_regs_loop_bytes room_def wf_nmbs_def emit_def
        set_buf_def advance_def min_absorb2)
qed

section \<open>Reading at the cursor\<close>

text \<open>The bytes of the message before the cursor: those that were read so far.\<close>

definition seen :: "'w nmbs_t \<Rightarrow> u8 list" where
  "seen n = take (cursor n) (mbuf n)"

definition inst_ok :: "'w nmbs_t \<Rightarrow> bool" where
  "inst_ok n \<longleftrightarrow> wf_nmbs n \<and> cursor n \<le> 260"

lemma inst_okI: "wf_nmbs n \<Longrightarrow> cursor n \<le> 260 \<Longrightarrow> inst_ok n"
  and inst_ok_wf: "inst_ok n \<Longrightarrow> wf_nmbs n"
  by (simp_all add: inst_ok_def)

lemma length_seen: "inst_ok n \<Longrightarrow> length (seen n) = cursor n"
  by (simp add: seen_def inst_ok_def wf_nmbs_def)

lemma seen_advance:
  assumes "inst_ok n" "cursor n + unat k \<le> 260"
  shows "inst_ok (advance n k)"
    and "seen (advance n k) = seen n @ take (unat k) (drop (cursor n) (mbuf n))"
  using assms by (auto simp: inst_ok_def wf_nmbs_def seen_def cursor_advance take_add)

lemma seen_set_buf:
  assumes "inst_ok n" "length b = 260" "take (cursor n) b = seen n"
  shows "inst_ok (set_buf n b)" and "seen (set_buf n b) = seen n"
  using assms by (auto simp: inst_ok_def wf_nmbs_def seen_def)

text \<open>A reading operation keeps the buffer and moves the cursor.\<close>

definition moved :: "'w nmbs_t \<Rightarrow> 'w nmbs_t \<Rightarrow> u8 list \<Rightarrow> bool" where
  "moved n n' bs \<longleftrightarrow> inst_ok n' \<and> seen n' = seen n @ bs"

lemma get_1_rule:
  assumes "inst_ok n" "length (seen n) + 1 \<le> 260"
    and "\<And>b. moved n (advance n 1) [b] \<Longrightarrow> Q (b, advance n 1)"
  shows "returns (get_1 n) Q"
proof -
  have c: "cursor n < length (mbuf n)"
    using assms(1,2) length_seen [OF assms(1)] by (simp add: inst_ok_def wf_nmbs_def)
  then have "take 1 (drop (cursor n) (mbuf n)) = [mbuf n ! cursor n]"
    by (simp add: take_Suc_conv_app_nth)
  then show ?thesis
    using c assms seen_advance [of n 1] by (simp add: get_1_def moved_def length_seen)
qed

lemma take_2_drop: "i + 1 < length xs \<Longrightarrow> take 2 (drop i xs) = [xs ! i, xs ! (i + 1)]"
  by (simp add: numeral_2_eq_2 take_Suc_conv_app_nth)

lemma get_2_rule:
  assumes "inst_ok n" "length (seen n) + 2 \<le> 260"
    and "\<And>h l. moved n (advance n 2) [h, l] \<Longrightarrow> Q (word_of_bytes h l, advance n 2)"
  shows "returns (get_2 n) Q"
proof -
  have c: "cursor n + 1 < length (mbuf n)"
    using assms(1,2) length_seen [OF assms(1)] by (simp add: inst_ok_def wf_nmbs_def)
  show ?thesis
    using c take_2_drop [OF c] assms seen_advance [of n 2]
    by (simp add: get_2_def moved_def length_seen)
qed

text \<open>The big-endian words of a byte string.\<close>

fun words_of :: "u8 list \<Rightarrow> u16 list" where
  "words_of (h # l # bs) = word_of_bytes h l # words_of bs"
| "words_of bs = []"

lemma words_of_be16 [simp]: "words_of (be16 x @ bs) = x # words_of bs"
  by (simp add: be16_def)

lemma words_of_concat [simp]: "words_of (concat (map be16 xs)) = xs"
  by (induction xs) simp_all

lemma concat_words_of: "even (length bs) \<Longrightarrow> concat (map be16 (words_of bs)) = bs"
  by (induction bs rule: words_of.induct) (auto simp: be16_def)

lemma length_words_of [simp]: "length (words_of bs) = length bs div 2"
  by (induction bs rule: words_of.induct) auto

end
