(* ===== verification/Modbus_Crc.thy ===== *)
theory Modbus_Crc
  imports Modbus_Codec
begin

text \<open>
  The CRC of \<^verbatim>\<open>nanomodbus.c\<close>: \<open>nmbs_crc_calc\<close>, one definition per loop, and what the CRC is good
  for.  The routine is a shift register over the bits of the line, linear over GF(2), so that it
  detects every burst of up to 16 bits, and a frame that ends in its own CRC leaves the
  routine in state 0.
\<close>

section \<open>The routine\<close>

definition crc_shift :: "u16 \<Rightarrow> u16" where
  "crc_shift crc = (if crc AND 0x0001 \<noteq> 0 then drop_bit 1 crc XOR 0xA001 else drop_bit 1 crc)"

primrec crc_bits :: "nat \<Rightarrow> u16 \<Rightarrow> u16" where
  "crc_bits 0 crc = crc"
| "crc_bits (Suc j) crc = crc_bits j (crc_shift crc)"

definition crc_byte :: "u16 \<Rightarrow> u8 \<Rightarrow> u16" where
  "crc_byte crc b = crc_bits 8 (crc XOR ucast b)"

definition crc_loop :: "u8 list \<Rightarrow> u16 \<Rightarrow> u16" where
  "crc_loop bs crc = foldl crc_byte crc bs"

definition nmbs_crc_calc :: crc_function where
  "nmbs_crc_calc data len arg = do {
     bs \<leftarrow> buf_slice data 0 (unat len);
     let crc = crc_loop bs 0xFFFF;
     Some (push_bit 8 crc OR drop_bit 8 crc)
   }"

section \<open>Linearity\<close>

lemma bit_40961 [simp]: "bit (40961 :: int) k \<longleftrightarrow> k = 0 \<or> k = 13 \<or> k = 15"
proof -
  have "(40961 :: int) = push_bit 0 1 OR push_bit 13 1 OR push_bit 15 1" by simp
  then show ?thesis by (simp only: bit_or_iff bit_push_bit_iff) (auto simp: bit_1_iff)
qed

lemma crc_shift_bit:
  "bit (crc_shift x) k \<longleftrightarrow> bit x (Suc k) \<noteq> (bit x 0 \<and> (k = 0 \<or> k = 13 \<or> k = 15))"
  by (auto simp: crc_shift_def bit_simps and_one_eq mod_2_eq_odd bit_0
      split: if_splits)

lemma crc_shift_xor: "crc_shift (x XOR y) = crc_shift x XOR crc_shift y"
  by (rule bit_word_eqI) (auto simp: crc_shift_bit bit_xor_iff)

lemma crc_bits_xor: "crc_bits j (x XOR y) = crc_bits j x XOR crc_bits j y"
  by (induction j arbitrary: x y) (simp_all add: crc_shift_xor)

lemma crc_shift_inj: "crc_shift x = crc_shift y \<Longrightarrow> x = y"
proof (rule bit_word_eqI)
  fix k assume eq: "crc_shift x = crc_shift y" and "k < LENGTH(16)"
  have b: "bit (crc_shift x) i = bit (crc_shift y) i" for i by (simp add: eq)
  have "bit x 0 = bit y 0"
    using b [of 15] by (auto simp: crc_shift_bit dest: bit_imp_le_length)
  then show "bit x k = bit y k"
    using b [of "k - 1"] by (cases k) (auto simp: crc_shift_bit)
qed

lemma crc_bits_inj: "crc_bits j x = crc_bits j y \<Longrightarrow> x = y"
  by (induction j arbitrary: x y) (auto dest: crc_shift_inj)

lemma crc_bits_add: "crc_bits (i + j) x = crc_bits j (crc_bits i x)"
  by (induction i arbitrary: x) simp_all

text \<open>A step on a state whose lowest bit is clear only shifts.\<close>

lemma crc_bits_shift:
  "j \<le> 8 \<Longrightarrow> crc_bits j (push_bit 8 (ucast (b :: u8))) = push_bit (8 - j) (ucast b)"
proof (induction j)
  case (Suc j)
  have "crc_bits (Suc j) (push_bit 8 (ucast b)) = crc_shift (crc_bits j (push_bit 8 (ucast b)))"
    using crc_bits_add [of j 1] by simp
  also have "\<dots> = crc_shift (push_bit (8 - j) (ucast b))"
    using Suc by simp
  also have "\<dots> = push_bit (8 - Suc j) (ucast b)"
    using Suc.prems
    by (intro bit_word_eqI) (auto simp: crc_shift_bit bit_simps Suc_diff_le dest: bit_imp_le_length)
  finally show ?case .
qed simp

lemma crc_byte_inj: "crc_byte s b = crc_byte t b \<Longrightarrow> s = t"
  unfolding crc_byte_def by (drule crc_bits_inj) (metis xor.assoc xor_self_eq xor.right_neutral)

lemma crc_loop_append: "crc_loop (xs @ ys) s = crc_loop ys (crc_loop xs s)"
  by (simp add: crc_loop_def)

lemma crc_loop_inj: "crc_loop bs s = crc_loop bs t \<Longrightarrow> s = t"
  by (induction bs arbitrary: s t) (auto simp: crc_loop_def dest: crc_byte_inj)

text \<open>Two bytes are consumed at once.\<close>

lemma crc_loop_two: "crc_loop [a, b] s = crc_bits 16 (s XOR word_of_bytes b a)"
proof -
  have "crc_loop [a, b] s = crc_bits 8 (crc_bits 8 (s XOR ucast a) XOR crc_bits 8 (push_bit 8 (ucast b)))"
    by (simp add: crc_loop_def crc_byte_def crc_bits_shift)
  also have "\<dots> = crc_bits 16 (s XOR ucast a XOR push_bit 8 (ucast b))"
    using crc_bits_add [of 8 8] by (simp add: crc_bits_xor xor.assoc)
  also have "s XOR ucast a XOR push_bit 8 (ucast b) = s XOR word_of_bytes b a"
    by (rule bit_word_eqI) (auto simp: word_of_bytes_def bit_simps dest: bit_imp_le_length)
  finally show ?thesis .
qed

lemma crc_bits_0 [simp]: "crc_bits j 0 = 0"
  by (induction j) (simp_all add: crc_shift_def)

lemma crc_bits_eq_0 [simp]: "crc_bits j x = 0 \<longleftrightarrow> x = 0"
  using crc_bits_inj [of j x 0] by auto

lemma word_of_bytes_eq_iff [simp]:
  "word_of_bytes a b = word_of_bytes c d \<longleftrightarrow> a = c \<and> b = d"
  by (metis hi_word_of_bytes lo_word_of_bytes)

lemma xor_left_cancel: "s XOR x = s XOR y \<longleftrightarrow> x = y" for s x y :: "'a::len word"
  by (metis xor.assoc xor_self_eq xor.left_neutral)

lemma crc_loop_two_inj: "crc_loop [a, b] s = crc_loop [c, d] s \<Longrightarrow> a = c \<and> b = d"
  unfolding crc_loop_two by (drule crc_bits_inj) (simp add: xor_left_cancel)

section \<open>The routine bit by bit\<close>

text \<open>
  A byte goes over the line with its lowest bit first.  In this order the routine is a shift
  register that takes one bit at a time.
\<close>

definition line_bits :: "u8 list \<Rightarrow> bool list" where
  "line_bits bs = concat (map (\<lambda>b. map (bit b) [0..<8]) bs)"

definition crc_bit :: "u16 \<Rightarrow> bool \<Rightarrow> u16" where
  "crc_bit s b = crc_shift (s XOR of_bool b)"

lemma length_line_bits [simp]: "length (line_bits bs) = 8 * length bs"
  by (induction bs) (simp_all add: line_bits_def)

lemma line_bits_Cons: "line_bits (b # bs) = map (bit b) [0..<8] @ line_bits bs"
  by (simp add: line_bits_def)

lemma line_bits_inj: "length xs = length ys \<Longrightarrow> line_bits xs = line_bits ys \<Longrightarrow> xs = ys"
proof (induction xs ys rule: list_induct2)
  case (Cons x xs y ys)
  then have "map (bit x) [0..<8] @ line_bits xs = map (bit y) [0..<8] @ line_bits ys"
    by (simp only: line_bits_Cons)
  then have eq: "map (bit x) [0..<8] = map (bit y) [0..<8]" "line_bits xs = line_bits ys"
    by (metis append_eq_append_conv length_map)+
  have "x = y"
  proof (rule bit_word_eqI)
    fix k assume "k < LENGTH(8)"
    then show "bit x k = bit y k" using arg_cong [OF eq(1), of "\<lambda>l. l ! k"] by simp
  qed
  then show ?case using Cons.IH [OF eq(2)] by simp
qed simp

text \<open>Up to 16 bits are taken at once.\<close>

lemma crc_shift_push: "\<not> bit x 15 \<Longrightarrow> crc_shift (push_bit 1 x) = x"
proof (rule bit_word_eqI)
  fix k assume "\<not> bit x 15" "k < LENGTH(16)"
  then show "bit (crc_shift (push_bit 1 x)) k = bit x k"
    unfolding crc_shift_bit bit_push_bit_iff by (cases "k = 15") auto
qed

lemma foldl_crc_bit:
  "length bs \<le> 16 \<Longrightarrow> foldl crc_bit s bs = crc_bits (length bs) (s XOR horner_sum of_bool 2 bs)"
proof (induction bs arbitrary: s)
  case (Cons b bs)
  let ?h = "horner_sum of_bool 2 bs :: u16"
  have h: "horner_sum of_bool 2 (b # bs) = (of_bool b XOR push_bit 1 ?h :: u16)"
  proof (rule bit_word_eqI)
    fix k assume "k < LENGTH(16)"
    then show "bit (horner_sum of_bool 2 (b # bs) :: u16) k = bit (of_bool b XOR push_bit 1 ?h) k"
      unfolding bit_xor_iff bit_push_bit_iff bit_horner_sum_bit_word_iff by (cases k) (auto simp: bit_1_iff)
  qed
  have clear: "\<not> bit ?h 15" using Cons.prems by (simp add: bit_horner_sum_bit_word_iff)
  have "crc_shift (s XOR horner_sum of_bool 2 (b # bs)) = crc_bit s b XOR ?h"
    unfolding h by (simp only: crc_bit_def xor.assoc [symmetric] crc_shift_xor crc_shift_push [OF clear])
  then show ?case using Cons by simp
qed simp

lemma crc_byte_bits: "crc_byte s b = foldl crc_bit s (map (bit b) [0..<8])"
proof -
  have "map (bit b) [0..<8] = map (bit (ucast b :: u16)) [0..<8]"
    by (simp add: bit_simps)
  then have "horner_sum of_bool 2 (map (bit b) [0..<8]) = take_bit 8 (ucast b :: u16)"
    by (simp only: horner_sum_bit_eq_take_bit)
  also have "\<dots> = ucast b" by (rule bit_word_eqI) (auto simp: bit_simps dest: bit_imp_le_length)
  finally show ?thesis by (subst foldl_crc_bit) (simp_all add: crc_byte_def)
qed

lemma crc_loop_line_bits: "crc_loop bs s = foldl crc_bit s (line_bits bs)"
  by (induction bs arbitrary: s) (simp_all add: crc_loop_def line_bits_Cons crc_byte_bits del: upt_Suc, simp add: line_bits_def)

text \<open>A burst changes the state, and nothing after it can undo the change.\<close>

lemma crc_bit_inj:
  assumes "crc_bit s b = crc_bit t b"
  shows "s = t"
proof -
  have "s XOR of_bool b = t XOR of_bool b" using assms unfolding crc_bit_def by (rule crc_shift_inj)
  then have "of_bool b XOR s = of_bool b XOR t" by (simp only: xor.commute)
  then show ?thesis by (simp only: xor_left_cancel)
qed

lemma foldl_crc_bit_inj: "foldl crc_bit s bs = foldl crc_bit t bs \<Longrightarrow> s = t"
  by (induction bs arbitrary: s t) (auto dest: crc_bit_inj)

lemma burst_changes_state:
  assumes "foldl crc_bit s bs = foldl crc_bit s cs" "length bs = length cs" "length cs \<le> 16"
  shows "bs = cs"
proof -
  have "crc_bits (length cs) (s XOR horner_sum of_bool 2 bs) = crc_bits (length cs) (s XOR horner_sum of_bool 2 cs)"
    using assms by (simp add: foldl_crc_bit)
  then have h: "horner_sum of_bool 2 bs = (horner_sum of_bool 2 cs :: u16)"
    using crc_bits_inj xor_left_cancel by blast
  have "bs ! k = cs ! k" if "k < length cs" for k
    using arg_cong [OF h, of "\<lambda>w. bit w k"] that assms(2,3) by (simp add: bit_horner_sum_bit_word_iff)
  then show ?thesis using assms(2) by (simp add: list_eq_iff_nth_eq)
qed

lemma burst_detected:
  assumes "bs \<noteq> cs" "length bs = length cs"
    and burst: "\<forall>k<length bs. bs ! k \<noteq> cs ! k \<longrightarrow> i \<le> k \<and> k < i + 16"
  shows "foldl crc_bit s bs \<noteq> foldl crc_bit s cs"
proof
  assume eq: "foldl crc_bit s bs = foldl crc_bit s cs"
  have before: "take i bs = take i cs"
    using assms(2) burst by (intro nth_equalityI) auto
  have behind: "drop (i + 16) bs = drop (i + 16) cs"
  proof (intro nth_equalityI)
    fix k assume "k < length (drop (i + 16) bs)"
    then have "i + 16 + k < length bs" by simp
    then show "drop (i + 16) bs ! k = drop (i + 16) cs ! k"
      using assms(2) burst [rule_format, of "i + 16 + k"] by auto
  qed (simp add: assms(2))
  have split: "xs = take i xs @ take 16 (drop i xs) @ drop (i + 16) xs" for xs :: "bool list"
    by (metis append_take_drop_id drop_drop add.commute)
  let ?s = "foldl crc_bit s (take i cs)"
  have "foldl crc_bit (foldl crc_bit ?s (take 16 (drop i bs))) (drop (i + 16) cs) =
      foldl crc_bit (foldl crc_bit ?s (take 16 (drop i cs))) (drop (i + 16) cs)"
    using eq split [of bs] split [of cs] before behind by (metis foldl_append)
  from burst_changes_state [OF foldl_crc_bit_inj [OF this]]
  have "take 16 (drop i bs) = take 16 (drop i cs)" using assms(2) by simp
  then show False using assms(1) split [of bs] split [of cs] before behind by simp
qed

section \<open>The result of the routine\<close>

text \<open>The two bytes that end an RTU frame with body \<open>bs\<close>.\<close>

definition crc_bytes :: "u8 list \<Rightarrow> u8 list" where
  "crc_bytes bs = be16 (swap16 (crc_loop bs 0xFFFF))"

lemma length_crc_bytes [simp]: "length (crc_bytes bs) = 2"
  by (simp add: crc_bytes_def)

lemma swap16_shifts: "push_bit 8 x OR drop_bit 8 x = swap16 x"
  by (rule bit_word_eqI) (auto simp: swap16_def bit_simps dest: bit_imp_le_length)

lemma nmbs_crc_calc_eq:
  "unat len \<le> length data \<Longrightarrow>
   nmbs_crc_calc data len arg = Some (swap16 (crc_loop (take (unat len) data) 0xFFFF))"
  by (simp add: nmbs_crc_calc_def buf_slice_def swap16_shifts)

lemma xor_eq_zero_iff: "x XOR y = 0 \<longleftrightarrow> x = y" for x y :: "'a::len word"
proof
  assume "x XOR y = 0"
  then have "(x XOR y) XOR y = y" by simp
  then show "x = y" by (simp add: xor.assoc)
qed simp

lemma crc_residue_0: "crc_loop (bs @ [x, y]) 0xFFFF = 0 \<longleftrightarrow> [x, y] = crc_bytes bs"
proof -
  let ?s = "crc_loop bs 0xFFFF"
  have "crc_loop (bs @ [x, y]) 0xFFFF = 0 \<longleftrightarrow> ?s XOR word_of_bytes y x = 0"
    by (simp add: crc_loop_append crc_loop_two)
  also have "\<dots> \<longleftrightarrow> ?s = word_of_bytes y x"
    by (rule xor_eq_zero_iff)
  also have "\<dots> \<longleftrightarrow> x = lo_byte ?s \<and> y = hi_byte ?s"
    by (metis hi_word_of_bytes lo_word_of_bytes word_of_hi_lo)
  finally show ?thesis
    by (simp add: crc_bytes_def be16_def)
qed

section \<open>Properties\<close>

text \<open>
  C11: the CRC detects every burst of up to 16 bits: two different messages of the same length whose
  bits, in the order in which they go over the line, agree outside some 16 consecutive places
  never have the same CRC, wherever in its bytes the burst begins.
\<close>

theorem crc_detects_bursts:
  assumes "xs \<noteq> ys" and "length xs = length ys" and "unat len = length xs"
    and "\<forall>k<8 * length xs. line_bits xs ! k \<noteq> line_bits ys ! k \<longrightarrow> i \<le> k \<and> k < i + 16"
  shows "nmbs_crc_calc xs len arg \<noteq> nmbs_crc_calc ys len arg"
proof -
  have "line_bits xs \<noteq> line_bits ys"
    using assms(1,2) line_bits_inj by blast
  with assms(2,4) have "crc_loop xs 0xFFFF \<noteq> crc_loop ys 0xFFFF"
    unfolding crc_loop_line_bits by (intro burst_detected [where i = i]) simp_all
  then show ?thesis
    using assms(2,3) by (simp add: nmbs_crc_calc_eq) (metis swap16_swap16)
qed

text \<open>Sixteen wrong bits over three bytes, from the fourth bit of the second byte on.\<close>

theorem crc_detects_bursts_witness:
  "nmbs_crc_calc [1, 3, 0, 107, 0, 3] 6 0 \<noteq> nmbs_crc_calc [1, 3 XOR 0xF8, 0 XOR 0xFF, 107 XOR 0x07, 0, 3] 6 0"
proof (rule crc_detects_bursts [where i = 11])
  have "\<forall>k\<in>set [0..<48]. line_bits [1, 3, 0, 107, 0, 3] ! k \<noteq> line_bits [1, 3 XOR 0xF8, 0 XOR 0xFF, 107 XOR 0x07, 0, 3] ! k \<longrightarrow>
      11 \<le> k \<and> k < 11 + 16"
    by code_simp
  then show "\<forall>k<8 * length [1, 3, 0, 107, 0, 3 :: u8]. line_bits [1, 3, 0, 107, 0, 3] ! k \<noteq>
      line_bits [1, 3 XOR 0xF8, 0 XOR 0xFF, 107 XOR 0x07, 0, 3] ! k \<longrightarrow> 11 \<le> k \<and> k < 11 + 16"
    by simp
qed simp_all

text \<open>
  C17: the receiver's comparison of the received checksum with the computed one is the residue
  test of a CRC: the big-endian word read after the body equals \<open>nmbs_crc_calc\<close> of the body
  iff running the shift register over the whole frame, checksum included, ends in 0.
\<close>

theorem crc_check_is_residue:
  assumes "unat len \<le> length data"
  shows "nmbs_crc_calc data len arg = Some (word_of_bytes x y) \<longleftrightarrow>
    crc_loop (take (unat len) data @ [x, y]) 0xFFFF = 0"
proof -
  have "swap16 s = word_of_bytes x y \<longleftrightarrow> [x, y] = be16 (swap16 s)" for s
    by (metis be16_def hi_word_of_bytes list.inject lo_word_of_bytes word_of_hi_lo)
  then show ?thesis
    using assms by (simp only: crc_residue_0 crc_bytes_def nmbs_crc_calc_eq option.inject)
qed

text \<open>The frame \<^verbatim>\<open>01 03 00 6B 00 03\<close> has the checksum bytes \<^verbatim>\<open>74 17\<close>.\<close>

theorem crc_check_is_residue_witness:
  "nmbs_crc_calc [1, 3, 0, 107, 0, 3] 6 0 = Some (word_of_bytes 0x74 0x17)"
proof -
  have "crc_loop (take (unat (6 :: u32)) [1, 3, 0, 107, 0, 3] @ [0x74, 0x17]) 0xFFFF = 0"
    by code_simp
  then show ?thesis by (subst crc_check_is_residue) simp_all
qed

end
