(* ===== verification/Modbus_Transport.thy ===== *)
theory Modbus_Transport
  imports Modbus_Crc
begin

text \<open>
  The part of \<^verbatim>\<open>nanomodbus.c\<close> that client and server share: creation of an instance, the calls
  of the platform functions, the message state, and the framing of a message by its header
  and footer on both transports.  Every function takes and returns the instance \<open>n\<close> and the
  world \<open>w\<close>, and returns its \<open>nmbs_error\<close> first.
\<close>

section \<open>Creation and configuration\<close>

definition nmbs_create ::
  "'w nmbs_t option \<Rightarrow> 'w nmbs_platform_conf option \<Rightarrow> nmbs_error \<times> 'w nmbs_t option" where
  "nmbs_create nmbs platform_conf =
     (case nmbs of
        None \<Rightarrow> (NMBS_ERROR_INVALID_ARGUMENT, None)
      | Some _ \<Rightarrow>
         let n = zero_nmbs\<lparr>byte_timeout_ms := -1, read_timeout_ms := -1\<rparr> in
         (case platform_conf of
            None \<Rightarrow> (NMBS_ERROR_INVALID_ARGUMENT, Some n)
          | Some conf \<Rightarrow>
              if conf_initialized conf \<noteq> INITIALIZED then (NMBS_ERROR_INVALID_ARGUMENT, Some n)
              else if transport conf \<noteq> NMBS_TRANSPORT_RTU \<and> transport conf \<noteq> NMBS_TRANSPORT_TCP
              then (NMBS_ERROR_INVALID_ARGUMENT, Some n)
              else if conf_read conf = None \<or> conf_write conf = None
              then (NMBS_ERROR_INVALID_ARGUMENT, Some n)
              else (NMBS_ERROR_NONE, Some (n\<lparr>platform := conf\<rparr>))))"

definition nmbs_set_read_timeout :: "'w nmbs_t \<Rightarrow> i32 \<Rightarrow> 'w nmbs_t" where
  "nmbs_set_read_timeout n timeout_ms = n\<lparr>read_timeout_ms := timeout_ms\<rparr>"

definition nmbs_set_byte_timeout :: "'w nmbs_t \<Rightarrow> i32 \<Rightarrow> 'w nmbs_t" where
  "nmbs_set_byte_timeout n timeout_ms = n\<lparr>byte_timeout_ms := timeout_ms\<rparr>"

definition nmbs_platform_conf_create :: "'w nmbs_platform_conf" where
  "nmbs_platform_conf_create = zero_conf\<lparr>crc_calc := Some nmbs_crc_calc, conf_initialized := INITIALIZED\<rparr>"

definition nmbs_set_destination_rtu_address :: "'w nmbs_t \<Rightarrow> u8 \<Rightarrow> 'w nmbs_t" where
  "nmbs_set_destination_rtu_address n address = n\<lparr>dest_address_rtu := address\<rparr>"

definition nmbs_set_platform_arg :: "'w nmbs_t \<Rightarrow> void_ptr \<Rightarrow> 'w nmbs_t" where
  "nmbs_set_platform_arg n a = n\<lparr>platform := (platform n)\<lparr>conf_arg := a\<rparr>\<rparr>"

section \<open>The platform calls\<close>

text \<open>How \<open>recv\<close> and \<open>send\<close> judge the result of a platform call.\<close>

definition transport_result :: "i32 \<Rightarrow> u16 \<Rightarrow> nmbs_error" where
  "transport_result ret count =
     (if ret = ucast count then NMBS_ERROR_NONE
      else if ret <s ucast count then
        (if ret <s 0 then NMBS_ERROR_TRANSPORT else NMBS_ERROR_TIMEOUT)
      else NMBS_ERROR_TRANSPORT)"

text \<open>\<open>platform.read(msg.buf + off, count, timeout, arg)\<close>.\<close>

definition platform_read ::
  "'w nmbs_t \<Rightarrow> nat \<Rightarrow> u16 \<Rightarrow> i32 \<Rightarrow> 'w \<Rightarrow> (i32 \<times> 'w nmbs_t \<times> 'w) option" where
  "platform_read n off count timeout w = do {
     rd \<leftarrow> conf_read (platform n);
     (ret, p, w') \<leftarrow> rd (Some (drop off (mbuf n))) count timeout (conf_arg (platform n)) w;
     win \<leftarrow> p;
     Some (ret, set_buf n (take off (mbuf n) @ win), w')
   }"

definition recv :: "'w nmbs_t \<Rightarrow> u16 \<Rightarrow> 'w \<Rightarrow> (nmbs_error \<times> 'w nmbs_t \<times> 'w) option" where
  "recv n count w =
     (if complete (msg n) then Some (NMBS_ERROR_NONE, n, w)
      else do {
        (ret, n, w) \<leftarrow> platform_read n (cursor n) count (byte_timeout_ms n) w;
        Some (transport_result ret count, n, w)
      })"

definition send :: "'w nmbs_t \<Rightarrow> u16 \<Rightarrow> 'w \<Rightarrow> (nmbs_error \<times> 'w) option" where
  "send n count w = do {
     wr \<leftarrow> conf_write (platform n);
     (ret, w) \<leftarrow> wr (Some (mbuf n)) count (byte_timeout_ms n) (conf_arg (platform n)) w;
     Some (transport_result ret count, w)
   }"

definition flush :: "'w nmbs_t \<Rightarrow> 'w \<Rightarrow> ('w nmbs_t \<times> 'w) option" where
  "flush n w = do {
     (_, n, w) \<leftarrow> platform_read n 0 260 0 w;
     Some (n, w)
   }"

section \<open>Message state\<close>

definition msg_buf_reset :: "'w nmbs_t \<Rightarrow> 'w nmbs_t" where
  "msg_buf_reset n = n\<lparr>msg := (msg n)\<lparr>buf_idx := 0\<rparr>\<rparr>"

definition msg_state_reset :: "'w nmbs_t \<Rightarrow> 'w nmbs_t" where
  "msg_state_reset n = (let n = msg_buf_reset n in
     n\<lparr>msg := (msg n)\<lparr>unit_id := 0, msg_fc := 0, transaction_id := 0,
        broadcast := False, ignored := False, complete := False\<rparr>\<rparr>)"

definition set_unit_id :: "'w nmbs_t \<Rightarrow> u8 \<Rightarrow> 'w nmbs_t" where
  "set_unit_id n x = n\<lparr>msg := (msg n)\<lparr>unit_id := x\<rparr>\<rparr>"

definition set_fc :: "'w nmbs_t \<Rightarrow> u8 \<Rightarrow> 'w nmbs_t" where
  "set_fc n x = n\<lparr>msg := (msg n)\<lparr>msg_fc := x\<rparr>\<rparr>"

definition set_transaction_id :: "'w nmbs_t \<Rightarrow> u16 \<Rightarrow> 'w nmbs_t" where
  "set_transaction_id n x = n\<lparr>msg := (msg n)\<lparr>transaction_id := x\<rparr>\<rparr>"

definition set_broadcast :: "'w nmbs_t \<Rightarrow> bool \<Rightarrow> 'w nmbs_t" where
  "set_broadcast n x = n\<lparr>msg := (msg n)\<lparr>broadcast := x\<rparr>\<rparr>"

definition set_ignored :: "'w nmbs_t \<Rightarrow> bool \<Rightarrow> 'w nmbs_t" where
  "set_ignored n x = n\<lparr>msg := (msg n)\<lparr>ignored := x\<rparr>\<rparr>"

definition set_complete :: "'w nmbs_t \<Rightarrow> bool \<Rightarrow> 'w nmbs_t" where
  "set_complete n x = n\<lparr>msg := (msg n)\<lparr>complete := x\<rparr>\<rparr>"

text \<open>\<^verbatim>\<open>UINT16_MAX\<close> is 65535.\<close>

definition next_tid :: "u16 \<Rightarrow> u16" where
  "next_tid tid = (if tid = 65535 then 1 else tid + 1)"

definition msg_state_req :: "'w nmbs_t \<Rightarrow> u8 \<Rightarrow> 'w \<Rightarrow> ('w nmbs_t \<times> 'w) option" where
  "msg_state_req n fc w = do {
     let n = n\<lparr>current_tid := next_tid (current_tid n)\<rparr>;
     (n, w) \<leftarrow> flush n w;
     let n = msg_state_reset n;
     let n = set_unit_id n (dest_address_rtu n);
     let n = set_fc n fc;
     let n = set_transaction_id n (current_tid n);
     Some (if unit_id (msg n) = 0 \<and> transport (platform n) = NMBS_TRANSPORT_RTU
           then set_broadcast n True else n, w)
   }"

section \<open>Framing\<close>

text \<open>\<open>platform.crc_calc(msg.buf, msg.buf_idx, arg)\<close>.\<close>

definition platform_crc :: "'w nmbs_t \<Rightarrow> u16 option" where
  "platform_crc n = do {
     crc \<leftarrow> crc_calc (platform n);
     crc (mbuf n) (ucast (buf_idx (msg n))) (conf_arg (platform n))
   }"

definition recv_msg_footer :: "'w nmbs_t \<Rightarrow> 'w \<Rightarrow> (nmbs_error \<times> 'w nmbs_t \<times> 'w) option" where
  "recv_msg_footer n w =
     (if transport (platform n) = NMBS_TRANSPORT_RTU then do {
        crc \<leftarrow> platform_crc n;
        (err, n, w) \<leftarrow> recv n 2 w;
        if err \<noteq> NMBS_ERROR_NONE then Some (err, n, w)
        else do {
          (recv_crc, n) \<leftarrow> get_2 n;
          if recv_crc \<noteq> crc then Some (NMBS_ERROR_CRC, n, w)
          else Some (NMBS_ERROR_NONE, n, w)
        }
      }
      else Some (NMBS_ERROR_NONE, n, w))"

text \<open>The second result is \<open>*first_byte_received\<close>.\<close>

definition recv_msg_header ::
  "'w nmbs_t \<Rightarrow> 'w \<Rightarrow> (nmbs_error \<times> bool \<times> 'w nmbs_t \<times> 'w) option" where
  "recv_msg_header n w = (
     let old_byte_timeout = byte_timeout_ms n in
     let n = n\<lparr>byte_timeout_ms := read_timeout_ms n\<rparr> in
     let n = msg_state_reset n in
     if transport (platform n) = NMBS_TRANSPORT_RTU then do {
       (err, n, w) \<leftarrow> recv n 1 w;
       let n = n\<lparr>byte_timeout_ms := old_byte_timeout\<rparr>;
       if err \<noteq> NMBS_ERROR_NONE then Some (err, False, n, w)
       else do {
         (u, n) \<leftarrow> get_1 n;
         let n = set_unit_id n u;
         (err, n, w) \<leftarrow> recv n 1 w;
         if err \<noteq> NMBS_ERROR_NONE then Some (err, True, n, w)
         else do {
           (fc, n) \<leftarrow> get_1 n;
           Some (NMBS_ERROR_NONE, True, set_fc n fc, w)
         }
       }
     }
     else if transport (platform n) = NMBS_TRANSPORT_TCP then do {
       (err, n, w) \<leftarrow> recv n 1 w;
       let n = n\<lparr>byte_timeout_ms := old_byte_timeout\<rparr>;
       if err \<noteq> NMBS_ERROR_NONE then Some (err, False, n, w)
       else do {
         let n = discard_1 n;
         (err, n, w) \<leftarrow> recv n 7 w;
         if err \<noteq> NMBS_ERROR_NONE then Some (err, True, n, w)
         else do {
           let n = msg_buf_reset n;
           (tid, n) \<leftarrow> get_2 n;
           let n = set_transaction_id n tid;
           (protocol_id, n) \<leftarrow> get_2 n;
           (len, n) \<leftarrow> get_2 n;
           (u, n) \<leftarrow> get_1 n;
           let n = set_unit_id n u;
           (fc, n) \<leftarrow> get_1 n;
           let n = set_fc n fc;
           if len < 2 \<or> len > 255 then Some (NMBS_ERROR_INVALID_TCP_MBAP, True, n, w)
           else do {
             (err, n, w) \<leftarrow> recv n (len - 2) w;
             if err \<noteq> NMBS_ERROR_NONE then Some (err, True, n, w)
             else if protocol_id \<noteq> 0 then Some (NMBS_ERROR_INVALID_TCP_MBAP, True, n, w)
             else Some (NMBS_ERROR_NONE, True, set_complete n True, w)
           }
         }
       }
     }
     else Some (NMBS_ERROR_NONE, False, n, w))"

definition put_msg_header :: "'w nmbs_t \<Rightarrow> u16 \<Rightarrow> 'w nmbs_t option" where
  "put_msg_header n data_length = (
     let n = msg_buf_reset n in do {
       n \<leftarrow> (if transport (platform n) = NMBS_TRANSPORT_RTU then put_1 n (unit_id (msg n))
            else if transport (platform n) = NMBS_TRANSPORT_TCP then do {
              n \<leftarrow> put_2 n (transaction_id (msg n));
              n \<leftarrow> put_2 n 0;
              n \<leftarrow> put_2 n (1 + 1 + data_length);
              put_1 n (unit_id (msg n))
            }
            else Some n);
       put_1 n (msg_fc (msg n))
     })"

definition set_msg_header_size :: "'w nmbs_t \<Rightarrow> u16 \<Rightarrow> 'w nmbs_t option" where
  "set_msg_header_size n data_length =
     (if transport (platform n) = NMBS_TRANSPORT_TCP then set_2 n (data_length + 2) 4 else Some n)"

definition send_msg :: "'w nmbs_t \<Rightarrow> 'w \<Rightarrow> (nmbs_error \<times> 'w nmbs_t \<times> 'w) option" where
  "send_msg n w = do {
     n \<leftarrow> (if transport (platform n) = NMBS_TRANSPORT_RTU
          then do { crc \<leftarrow> platform_crc n; put_2 n crc }
          else Some n);
     (err, w) \<leftarrow> send n (buf_idx (msg n)) w;
     Some (err, n, w)
   }"

text \<open>Without \<^verbatim>\<open>NMBS_DEBUG\<close> the request and response headers are the message header.\<close>

definition put_req_header :: "'w nmbs_t \<Rightarrow> u16 \<Rightarrow> 'w nmbs_t option" where
  "put_req_header n data_length = put_msg_header n data_length"

definition put_res_header :: "'w nmbs_t \<Rightarrow> u16 \<Rightarrow> 'w nmbs_t option" where
  "put_res_header n data_length = put_msg_header n data_length"

definition recv_req_header ::
  "'w nmbs_t \<Rightarrow> 'w \<Rightarrow> (nmbs_error \<times> bool \<times> 'w nmbs_t \<times> 'w) option" where
  "recv_req_header n w = do {
     (err, first, n, w) \<leftarrow> recv_msg_header n w;
     if err \<noteq> NMBS_ERROR_NONE then Some (err, first, n, w)
     else Some (NMBS_ERROR_NONE, first,
       (if transport (platform n) = NMBS_TRANSPORT_RTU then
          (if unit_id (msg n) = NMBS_BROADCAST_ADDRESS then set_broadcast n True
           else if unit_id (msg n) \<noteq> address_rtu n then set_ignored n True
           else set_ignored n False)
        else n), w)
   }"

definition send_exception_msg ::
  "'w nmbs_t \<Rightarrow> u8 \<Rightarrow> 'w \<Rightarrow> (nmbs_error \<times> 'w nmbs_t \<times> 'w) option" where
  "send_exception_msg n exception w = do {
     let n = set_fc n (msg_fc (msg n) + 0x80);
     n \<leftarrow> put_msg_header n 1;
     n \<leftarrow> put_1 n exception;
     send_msg n w
   }"

definition recv_res_header :: "'w nmbs_t \<Rightarrow> 'w \<Rightarrow> (nmbs_error \<times> 'w nmbs_t \<times> 'w) option" where
  "recv_res_header n w = (
     let req_transaction_id = transaction_id (msg n);
         req_unit_id = unit_id (msg n);
         req_fc = msg_fc (msg n) in do {
       (err, _, n, w) \<leftarrow> recv_msg_header n w;
       if err \<noteq> NMBS_ERROR_NONE then Some (err, n, w)
       else if transport (platform n) = NMBS_TRANSPORT_TCP \<and> transaction_id (msg n) \<noteq> req_transaction_id
       then Some (NMBS_ERROR_INVALID_TCP_MBAP, n, w)
       else if transport (platform n) = NMBS_TRANSPORT_RTU \<and> unit_id (msg n) \<noteq> req_unit_id
       then Some (NMBS_ERROR_INVALID_UNIT_ID, n, w)
       else if msg_fc (msg n) \<noteq> req_fc then
         (if uint (msg_fc (msg n)) - 0x80 = uint req_fc then do {
            (err, n, w) \<leftarrow> recv n 1 w;
            if err \<noteq> NMBS_ERROR_NONE then Some (err, n, w)
            else do {
              (exception, n) \<leftarrow> get_1 n;
              (err, n, w) \<leftarrow> recv_msg_footer n w;
              if err \<noteq> NMBS_ERROR_NONE then Some (err, n, w)
              else if exception < 1 \<or> exception > 4 then Some (NMBS_ERROR_INVALID_RESPONSE, n, w)
              else Some (nmbs_error_of_exception exception, n, w)
            }
          }
          else Some (NMBS_ERROR_INVALID_RESPONSE, n, w))
       else Some (NMBS_ERROR_NONE, n, w)
     })"

section \<open>What an operation leaves alone\<close>

lemma set_field_simps [simp]:
  "mbuf (set_unit_id n u) = mbuf n" "mbuf (set_fc n f) = mbuf n" "mbuf (set_transaction_id n t) = mbuf n"
  "mbuf (set_broadcast n x) = mbuf n" "mbuf (set_ignored n x) = mbuf n" "mbuf (set_complete n x) = mbuf n"
  "cursor (set_unit_id n u) = cursor n" "cursor (set_fc n f) = cursor n"
  "cursor (set_transaction_id n t) = cursor n" "cursor (set_broadcast n x) = cursor n"
  "cursor (set_ignored n x) = cursor n" "cursor (set_complete n x) = cursor n"
  "unit_id (msg (set_unit_id n u)) = u" "msg_fc (msg (set_unit_id n u)) = msg_fc (msg n)"
  "unit_id (msg (set_fc n f)) = unit_id (msg n)" "msg_fc (msg (set_fc n f)) = f"
  "unit_id (msg (set_broadcast n x)) = unit_id (msg n)" "msg_fc (msg (set_broadcast n x)) = msg_fc (msg n)"
  "unit_id (msg (set_ignored n x)) = unit_id (msg n)" "msg_fc (msg (set_ignored n x)) = msg_fc (msg n)"
  "complete (msg (set_unit_id n u)) = complete (msg n)" "complete (msg (set_fc n f)) = complete (msg n)"
  "broadcast (msg (set_unit_id n u)) = broadcast (msg n)" "broadcast (msg (set_fc n f)) = broadcast (msg n)"
  by (simp_all add: set_unit_id_def set_fc_def set_transaction_id_def set_broadcast_def
      set_ignored_def set_complete_def)

lemma seen_set_field [simp]:
  "seen (set_unit_id n u) = seen n" "seen (set_fc n f) = seen n" "seen (set_transaction_id n t) = seen n"
  "seen (set_broadcast n x) = seen n" "seen (set_ignored n x) = seen n" "seen (set_complete n x) = seen n"
  "inst_ok (set_unit_id n u) = inst_ok n" "inst_ok (set_fc n f) = inst_ok n"
  "inst_ok (set_transaction_id n t) = inst_ok n" "inst_ok (set_broadcast n x) = inst_ok n"
  "inst_ok (set_ignored n x) = inst_ok n" "inst_ok (set_complete n x) = inst_ok n"
  by (simp_all add: seen_def inst_ok_def wf_nmbs_def)

text \<open>The configuration of an instance: every field that is not part of the current message.\<close>

definition config where
  "config n = (platform n, byte_timeout_ms n, read_timeout_ms n, callbacks n, address_rtu n,
     dest_address_rtu n)"

lemma config_simps [simp]:
  "config (advance n k) = config n" "config (set_buf n b) = config n" "config (emit n bs) = config n"
  "config (set_unit_id n u) = config n" "config (set_fc n f) = config n"
  "config (set_transaction_id n t) = config n" "config (set_broadcast n x) = config n"
  "config (set_ignored n x) = config n" "config (set_complete n x) = config n"
  "config (msg_buf_reset n) = config n" "config (msg_state_reset n) = config n"
  by (simp_all add: config_def set_unit_id_def set_fc_def set_transaction_id_def set_broadcast_def
      set_ignored_def set_complete_def msg_buf_reset_def msg_state_reset_def)

lemma configD:
  assumes "config n' = config n"
  shows "platform n' = platform n" "byte_timeout_ms n' = byte_timeout_ms n"
    "read_timeout_ms n' = read_timeout_ms n" "dest_address_rtu n' = dest_address_rtu n"
    "callbacks n' = callbacks n" "address_rtu n' = address_rtu n"
  using assms by (simp_all add: config_def)

lemma wf_nmbs_simps [simp]:
  "wf_nmbs (set_buf n b) \<longleftrightarrow> length b = 260" "wf_nmbs (advance n k) = wf_nmbs n"
  "wf_nmbs (set_unit_id n u) = wf_nmbs n" "wf_nmbs (set_fc n f) = wf_nmbs n"
  "wf_nmbs (set_broadcast n x) = wf_nmbs n" "wf_nmbs (msg_buf_reset n) = wf_nmbs n"
  "wf_nmbs (msg_state_reset n) = wf_nmbs n"
  by (simp_all add: wf_nmbs_def msg_buf_reset_def msg_state_reset_def)

lemma set_buf_id [simp]: "set_buf n (mbuf n) = n"
  by (simp add: set_buf_def)

section \<open>Requests on RTU\<close>

text \<open>An instance set up for RTU with the library's own CRC and given platform functions.\<close>

definition rtu_conf :: "'w transport_read \<Rightarrow> 'w transport_write \<Rightarrow> 'w nmbs_platform_conf \<Rightarrow> bool" where
  "rtu_conf rd wr c \<longleftrightarrow> transport c = NMBS_TRANSPORT_RTU \<and> conf_read c = Some rd \<and>
     conf_write c = Some wr \<and> crc_calc c = Some nmbs_crc_calc"

text \<open>The instance when a request with function code \<open>fc\<close> is begun and the buffer holds \<open>b\<close>.\<close>

definition begun :: "'w nmbs_t \<Rightarrow> u8 \<Rightarrow> u8 list \<Rightarrow> 'w nmbs_t" where
  "begun n fc b = n\<lparr>current_tid := next_tid (current_tid n),
     msg := \<lparr>msg_buf = b, buf_idx = 0, unit_id = dest_address_rtu n, msg_fc = fc,
       transaction_id = next_tid (current_tid n), broadcast = (dest_address_rtu n = 0),
       ignored = False, complete = False\<rparr>\<rparr>"

lemma begun_simps [simp]:
  "mbuf (begun n fc b) = b" "buf_idx (msg (begun n fc b)) = 0"
  "unit_id (msg (begun n fc b)) = dest_address_rtu n" "msg_fc (msg (begun n fc b)) = fc"
  "broadcast (msg (begun n fc b)) = (dest_address_rtu n = 0)" "config (begun n fc b) = config n"
  "platform (begun n fc b) = platform n" "dest_address_rtu (begun n fc b) = dest_address_rtu n"
  "byte_timeout_ms (begun n fc b) = byte_timeout_ms n" "read_timeout_ms (begun n fc b) = read_timeout_ms n"
  "wf_nmbs (begun n fc b) \<longleftrightarrow> length b = 260"
  "room (begun n fc b) k \<longleftrightarrow> length b = 260 \<and> k \<le> 260"
  "msg_buf_reset (begun n fc b) = begun n fc b"
  by (simp_all add: begun_def config_def wf_nmbs_def room_def msg_buf_reset_def)

lemma msg_state_req_begun:
  assumes "rtu_conf rd wr (platform n)"
    and "rd (Some (mbuf n)) 260 0 (conf_arg (platform n)) w = Some (ret, Some b, w')"
  shows "msg_state_req n fc w = Some (begun n fc b, w')"
  using assms
  by (cases "msg n") (simp add: msg_state_req_def rtu_conf_def flush_def platform_read_def begun_def
      set_buf_def msg_state_reset_def msg_buf_reset_def set_unit_id_def set_fc_def
      set_transaction_id_def set_broadcast_def Let_def)

text \<open>The frame that carries a PDU.\<close>

definition rtu_frame :: "u8 \<Rightarrow> u8 \<Rightarrow> u8 list \<Rightarrow> u8 list" where
  "rtu_frame u fc data = (u # fc # data) @ crc_bytes (u # fc # data)"

lemma length_rtu_frame [simp]: "length (rtu_frame u fc data) = length data + 4"
  by (simp add: rtu_frame_def)

lemma put_req_header_begun:
  assumes "rtu_conf rd wr (platform n)" "length b = 260"
  shows "put_req_header (begun n fc b) dl = Some (emit (begun n fc b) [dest_address_rtu n, fc])"
  using assms by (simp add: put_req_header_def put_msg_header_def rtu_conf_def)

lemma platform_crc_begun:
  assumes "rtu_conf rd wr (platform n)" "length b = 260" "length bs \<le> 258"
  shows "platform_crc (emit (begun n fc b) bs) = Some (swap16 (crc_loop bs 0xFFFF))"
proof -
  have c: "cursor (emit (begun n fc b) bs) = length bs"
    using assms by (subst cursor_emit) simp_all
  then have "unat (ucast (buf_idx (msg (emit (begun n fc b) bs))) :: u32) = length bs"
    using assms(3) by (simp add: unat_ucast)
  then show ?thesis
    using assms by (simp add: platform_crc_def rtu_conf_def nmbs_crc_calc_eq mbuf_emit)
qed

text \<open>What a request hands to the platform's \<open>write\<close>: the frame, at the start of the buffer.\<close>

lemma send_msg_begun:
  assumes "rtu_conf rd wr (platform n)" "length b = 260" "length bs \<le> 256"
  shows "send_msg (emit (begun n fc b) bs) w = do {
    (ret, w') \<leftarrow> wr (Some (bs @ crc_bytes bs @ drop (length bs + 2) b)) (of_nat (length bs + 2))
       (byte_timeout_ms n) (conf_arg (platform n)) w;
    Some (transport_result ret (of_nat (length bs + 2)), emit (begun n fc b) (bs @ crc_bytes bs), w')
  }"
proof -
  let ?n = "emit (begun n fc b) (bs @ crc_bytes bs)"
  have "put_2 (emit (begun n fc b) bs) (swap16 (crc_loop bs 0xFFFF)) = Some ?n"
    using assms by (simp add: crc_bytes_def)
  moreover have "buf_idx (msg ?n) = of_nat (length bs + 2)"
  proof (rule word_unat_eq_iff [THEN iffD2])
    have "cursor ?n = length bs + 2"
      using assms(2,3) by (subst cursor_emit) simp_all
    moreover have "unat (of_nat (length bs + 2) :: u16) = length bs + 2"
      using assms(3) by (intro unat_of_nat_less) simp
    ultimately show "cursor ?n = unat (of_nat (length bs + 2) :: u16)"
      by (simp only:)
  qed
  moreover have "transport (platform n) = NMBS_TRANSPORT_RTU" "conf_write (platform n) = Some wr"
    using assms(1) by (simp_all add: rtu_conf_def)
  ultimately show ?thesis
    using assms by (simp add: send_msg_def platform_crc_begun send_def mbuf_emit case_prod_unfold)
qed

section \<open>Platforms that return\<close>

text \<open>
  The weakest contract under which the library is memory safe: \<open>read\<close> and \<open>write\<close> return, stay
  inside the buffer they are given when \<open>count\<close> bytes fit, and may answer anything.
\<close>

locale total_platform =
  fixes rd :: "'w transport_read" and wr :: "'w transport_write" and wok :: "'w \<Rightarrow> bool"
  assumes rd_returns: "wok w \<Longrightarrow> unat count \<le> length buf \<Longrightarrow>
      returns (rd (Some buf) count timeout a w)
        (\<lambda>(_, p, w'). wok w' \<and> (\<exists>b. p = Some b \<and> length b = length buf))"
    and wr_returns: "wok w \<Longrightarrow> unat count \<le> length buf \<Longrightarrow>
      returns (wr (Some buf) count timeout a w) (\<lambda>(_, w'). wok w')"

definition with_byte_timeout where
  "with_byte_timeout t c = (case c of (p, _, rest) \<Rightarrow> (p, t, rest))"

lemma config_byte_timeout [simp]:
  "config (n\<lparr>byte_timeout_ms := t\<rparr>) = with_byte_timeout t (config n)"
  "with_byte_timeout t (with_byte_timeout u c) = with_byte_timeout t c"
  "with_byte_timeout (byte_timeout_ms n) (config n) = config n"
  by (simp_all add: config_def with_byte_timeout_def split: prod.splits)

lemma seen_byte_timeout [simp]:
  "seen (n\<lparr>byte_timeout_ms := t\<rparr>) = seen n" "inst_ok (n\<lparr>byte_timeout_ms := t\<rparr>) = inst_ok n"
  "seen (msg_state_reset n) = []" "inst_ok (msg_state_reset n) = wf_nmbs n"
  "wf_nmbs (n\<lparr>byte_timeout_ms := t\<rparr>) = wf_nmbs n"
  by (simp_all add: seen_def inst_ok_def wf_nmbs_def msg_state_reset_def msg_buf_reset_def)

lemma platform_simps [simp]:
  "platform (set_unit_id n u) = platform n" "platform (set_fc n f) = platform n"
  "platform (set_broadcast n x) = platform n" "platform (set_ignored n x) = platform n"
  "platform (msg_state_reset n) = platform n" "platform (msg_buf_reset n) = platform n"
  "complete (msg (msg_state_reset n)) = False"
  by (simp_all add: set_unit_id_def set_fc_def set_broadcast_def set_ignored_def
      msg_state_reset_def msg_buf_reset_def)

lemma moved_trans: "moved n m xs \<Longrightarrow> moved m p ys \<Longrightarrow> moved n p (xs @ ys)"
  by (simp add: moved_def)

lemma platform_crc_seen:
  assumes "rtu_conf rd wr (platform n)" "inst_ok n"
  shows "platform_crc n = Some (swap16 (crc_loop (seen n) 0xFFFF))"
proof -
  have "unat (ucast (buf_idx (msg n)) :: u32) = cursor n"
    using unsigned_less [of "buf_idx (msg n)", where ?'a = nat] by (simp add: unat_ucast)
  then show ?thesis
    using assms by (simp add: platform_crc_def rtu_conf_def inst_ok_def wf_nmbs_def seen_def
        nmbs_crc_calc_eq)
qed

lemma crc_bytes_iff: "word_of_bytes h l = swap16 (crc_loop bs 0xFFFF) \<longleftrightarrow> [h, l] = crc_bytes bs"
  by (metis be16_def crc_bytes_def hi_word_of_bytes list.inject lo_word_of_bytes word_of_hi_lo)

text \<open>The frame with which unit \<open>u\<close> reports an exception to a request with function code \<open>f\<close>.\<close>

definition exception_frame :: "u8 \<Rightarrow> u8 \<Rightarrow> nmbs_error \<Rightarrow> u8 list \<Rightarrow> bool" where
  "exception_frame u f err frame \<longleftrightarrow> (\<exists>code. 1 \<le> code \<and> code \<le> 4 \<and> err = nmbs_error_of_exception code \<and>
     frame = rtu_frame u (f + 0x80) [code])"

lemma exception_frameI:
  assumes "x \<noteq> 0" "\<not> 4 < x"
    and "frame = u # (f + 0x80) # x # crc_bytes [u, f + 0x80, x]"
  shows "exception_frame u f (nmbs_error_of_exception x) frame"
  unfolding exception_frame_def
  by (rule exI [of _ x]) (use assms in \<open>simp add: rtu_frame_def flip: not_less\<close>)

lemma nmbs_error_of_exception [simp]:
  "nmbs_error_of_exception x \<noteq> NMBS_ERROR_NONE" "nmbs_error_is_exception (nmbs_error_of_exception x)"
  by (simp_all add: nmbs_error_of_exception_def)

context total_platform
begin

lemma recv_rule:
  assumes "rtu_conf rd wr (platform n)" "inst_ok n" "wok w" "length (seen n) + unat count \<le> 260"
    and "\<And>err b w'. wok w' \<Longrightarrow> length b = 260 \<Longrightarrow> moved n (set_buf n b) [] \<Longrightarrow> \<not> nmbs_error_is_exception err \<Longrightarrow>
      Q (err, set_buf n b, w')"
  shows "returns (recv n count w) Q"
proof (cases "complete (msg n)")
  case True
  have "moved n (set_buf n (mbuf n)) []" "length (mbuf n) = 260"
    using assms(2) by (simp_all add: moved_def) (simp add: inst_ok_def wf_nmbs_def)
  then show ?thesis
    using True assms(3) assms(5) [of w "mbuf n" NMBS_ERROR_NONE]
    by (simp add: recv_def)
next
  case False
  let ?win = "drop (cursor n) (mbuf n)"
  have fits: "unat count \<le> length ?win" "length (mbuf n) = 260" "cursor n \<le> 260"
    using assms(2,4) length_seen [OF assms(2)] by (auto simp: inst_ok_def wf_nmbs_def)
  obtain ret b w' where rd: "rd (Some ?win) count (byte_timeout_ms n) (conf_arg (platform n)) w =
      Some (ret, Some b, w')" "wok w'" "length b = length ?win"
    using rd_returns [OF assms(3) fits(1), of "byte_timeout_ms n" "conf_arg (platform n)"]
    by (auto elim!: returnsE)
  let ?b = "take (cursor n) (mbuf n) @ b"
  have b: "length ?b = 260" "take (cursor n) ?b = seen n"
    using fits rd(3) by (simp_all add: seen_def)
  then have "moved n (set_buf n ?b) []"
    using seen_set_buf [OF assms(2) b] by (simp add: moved_def)
  moreover have "\<not> nmbs_error_is_exception (transport_result ret count)"
    by (simp add: transport_result_def)
  ultimately show ?thesis
    using assms(1) False rd(1,2) b(1) assms(5)
    by (simp add: recv_def platform_read_def rtu_conf_def)
qed

lemma recv_msg_footer_returns:
  assumes "rtu_conf rd wr (platform n)" "inst_ok n" "wok w" "length (seen n) + 2 \<le> 260"
  shows "returns (recv_msg_footer n w) (\<lambda>(err, n', w'). wok w' \<and> config n' = config n \<and> inst_ok n' \<and>
    \<not> nmbs_error_is_exception err \<and> (err = NMBS_ERROR_NONE \<longrightarrow> seen n' = seen n @ crc_bytes (seen n)))"
    (is "returns _ ?Q")
proof -
  let ?check = "\<lambda>n' w'. do {
      (recv_crc, n') \<leftarrow> get_2 n';
      if recv_crc \<noteq> swap16 (crc_loop (seen n) 0xFFFF) then Some (NMBS_ERROR_CRC, n', w')
      else Some (NMBS_ERROR_NONE, n', w') }"
  have check: "returns (?check (set_buf n b) w') ?Q"
    if h: "wok w'" "length b = 260" "moved n (set_buf n b) []" for b w'
    unfolding returns_bind
    by (rule get_2_rule) (use h assms(4) in \<open>auto simp: moved_def crc_bytes_iff\<close>)
  have "returns (recv n 2 w) (\<lambda>(err, n', w'). returns
      (if err \<noteq> NMBS_ERROR_NONE then Some (err, n', w') else ?check n' w') ?Q)"
    by (rule recv_rule [OF assms(1-3)], use assms(4) in simp)
      (use check in \<open>auto simp: moved_def simp del: returns_bind\<close>)
  then show ?thesis
    using assms(1) platform_crc_seen [OF assms(1,2)]
    by (simp add: recv_msg_footer_def rtu_conf_def case_prod_unfold)
qed

lemma recv_msg_header_returns:
  assumes "rtu_conf rd wr (platform n)" "wf_nmbs n" "wok w"
  shows "returns (recv_msg_header n w) (\<lambda>(err, first, n', w'). wok w' \<and> config n' = config n \<and> inst_ok n' \<and>
    \<not> nmbs_error_is_exception err \<and>
    (err = NMBS_ERROR_NONE \<longrightarrow> seen n' = [unit_id (msg n'), msg_fc (msg n')]))"
    (is "returns _ ?Q")
proof -
  let ?n0 = "msg_state_reset (n\<lparr>byte_timeout_ms := read_timeout_ms n\<rparr>)"
  let ?second = "\<lambda>n' w'. do {
      (fc, n') \<leftarrow> get_1 n';
      Some (NMBS_ERROR_NONE, True, set_fc n' fc, w') }"
  let ?first = "\<lambda>n' w'. do {
      (u, n') \<leftarrow> get_1 n';
      (err, n', w') \<leftarrow> recv (set_unit_id n' u) 1 w';
      if err \<noteq> NMBS_ERROR_NONE then Some (err, True, n', w') else ?second n' w' }"
  have second: "returns (?second m w') ?Q"
    if "inst_ok m" "seen m = [unit_id (msg m)]" "config m = config n" "wok w'" for m w'
    unfolding returns_bind by (rule get_1_rule) (use that in \<open>auto simp: moved_def\<close>)
  have first: "returns (?first m w') ?Q"
    if m: "inst_ok m" "seen m = []" "config m = config n" "wok w'" for m w'
    unfolding returns_bind case_prod_unfold
  proof (rule get_1_rule, goal_cases)
    case (3 b)
    show ?case unfolding returns_bind fst_conv snd_conv
    proof (rule recv_rule, goal_cases)
      case (5 err b' w'')
      then show ?case
        using 3 m second [of "set_buf (set_unit_id (advance m 1) b) b'" w'']
        by (auto simp: moved_def case_prod_unfold simp del: returns_bind)
    qed (use 3 m assms(1) configD(1) [OF m(3)] in \<open>auto simp: moved_def\<close>)
  qed (use m in simp_all)
  have "returns (recv ?n0 1 w) (\<lambda>(err, n', w'). returns
     (let n' = n'\<lparr>byte_timeout_ms := byte_timeout_ms n\<rparr> in
      if err \<noteq> NMBS_ERROR_NONE then Some (err, False, n', w') else ?first n' w') ?Q)"
  proof (rule recv_rule, goal_cases)
    case (5 err b w')
    then show ?case
      using assms first [of "(set_buf ?n0 b)\<lparr>byte_timeout_ms := byte_timeout_ms n\<rparr>" w']
      by (auto simp: moved_def Let_def simp del: returns_bind)
  qed (use assms in simp_all)
  then show ?thesis
    using assms(1) by (simp add: recv_msg_header_def rtu_conf_def case_prod_unfold Let_def)
qed

text \<open>
  After a response header: either nothing went wrong and the unit id and function code are
  those of the request, or the server's exception was received in a valid exception frame.
\<close>

lemma recv_res_header_returns:
  assumes "rtu_conf rd wr (platform n)" "wf_nmbs n" "wok w"
  shows "returns (recv_res_header n w) (\<lambda>(err, n', w'). wok w' \<and> config n' = config n \<and> inst_ok n' \<and>
    (err = NMBS_ERROR_NONE \<longrightarrow> seen n' = [unit_id (msg n), msg_fc (msg n)]) \<and>
    (nmbs_error_is_exception err \<longrightarrow> exception_frame (unit_id (msg n)) (msg_fc (msg n)) err (seen n')))"
    (is "returns _ ?Q")
proof -
  let ?footer = "\<lambda>exception n' w'. do {
      (err, n', w') \<leftarrow> recv_msg_footer n' w';
      if err \<noteq> NMBS_ERROR_NONE then Some (err, n', w')
      else if exception < 1 \<or> exception > 4 then Some (NMBS_ERROR_INVALID_RESPONSE, n', w')
      else Some (nmbs_error_of_exception exception, n', w') }"
  let ?exc = "\<lambda>n' w'. do {
      (err, n', w') \<leftarrow> recv n' 1 w';
      if err \<noteq> NMBS_ERROR_NONE then Some (err, n', w')
      else do { (exception, n') \<leftarrow> get_1 n'; ?footer exception n' w' } }"
  let ?body = "\<lambda>err n' w'.
      if err \<noteq> NMBS_ERROR_NONE then Some (err, n', w')
      else if transport (platform n') = NMBS_TRANSPORT_TCP \<and> transaction_id (msg n') \<noteq> transaction_id (msg n)
      then Some (NMBS_ERROR_INVALID_TCP_MBAP, n', w')
      else if transport (platform n') = NMBS_TRANSPORT_RTU \<and> unit_id (msg n') \<noteq> unit_id (msg n)
      then Some (NMBS_ERROR_INVALID_UNIT_ID, n', w')
      else if msg_fc (msg n') \<noteq> msg_fc (msg n) then
        (if uint (msg_fc (msg n')) - 0x80 = uint (msg_fc (msg n)) then ?exc n' w'
         else Some (NMBS_ERROR_INVALID_RESPONSE, n', w'))
      else Some (NMBS_ERROR_NONE, n', w')"
  have fc: "a = b + 0x80" if "uint a - 0x80 = uint b" for a b :: u8
    using that by (metis diff_eq_eq word_arith_wis(1) uint_word_of_int_eq word_of_int_uint wi_hom_add word_of_int_numeral)
  have footer: "returns (?footer x m w') ?Q"
    if m: "inst_ok m" "seen m = [unit_id (msg n), msg_fc (msg n) + 0x80, x]" "config m = config n" "wok w'"
    for x m w'
    unfolding returns_bind
    by (rule returns_mono [OF recv_msg_footer_returns])
      (use m assms configD(1) [OF m(3)] in \<open>auto intro: exception_frameI\<close>)
  have exc: "returns (?exc m w') ?Q"
    if m: "inst_ok m" "seen m = [unit_id (msg n), msg_fc (msg n) + 0x80]" "config m = config n" "wok w'" for m w'
    unfolding returns_bind
  proof (rule recv_rule, goal_cases)
    case (5 err b w'')
    show ?case
    proof (cases "err = NMBS_ERROR_NONE")
      case True
      have "returns (get_1 (set_buf m b)) (\<lambda>r. returns (case r of (x, n') \<Rightarrow> ?footer x n' w'') ?Q)"
        by (rule get_1_rule) (use 5 m footer in \<open>auto simp: moved_def simp del: returns_bind\<close>)
      then show ?thesis using True by (simp add: case_prod_unfold)
    qed (use 5 m in \<open>simp add: moved_def\<close>)
  qed (use m assms(1) configD(1) [OF m(3)] in simp_all)
  have body: "returns (?body err m w') ?Q"
    if m: "inst_ok m" "config m = config n" "wok w'" "\<not> nmbs_error_is_exception err"
      "err = NMBS_ERROR_NONE \<longrightarrow> seen m = [unit_id (msg m), msg_fc (msg m)]" for err m w'
    using m exc [of m w'] fc [of "msg_fc (msg m)" "msg_fc (msg n)"] configD(1) [OF m(2)] assms(1)
    by (simp add: rtu_conf_def del: returns_bind)
  have "returns (recv_msg_header n w) (\<lambda>(err, first, n', w'). returns (?body err n' w') ?Q)"
  proof (rule returns_mono [OF recv_msg_header_returns [OF assms]], goal_cases)
    case (1 r)
    obtain err first m w' where r: "r = (err, first, m, w')" by (cases r)
    show ?case
      unfolding r prod.case by (rule body) (use 1 in \<open>simp_all add: r\<close>)
  qed
  then show ?thesis
    unfolding recv_res_header_def Let_def returns_bind by (simp only: case_prod_unfold)
qed

end

end
