(* ===== verification/Modbus_Client.thy ===== *)
theory Modbus_Client
  imports Modbus_Transport
begin

text \<open>
  The client half of \<^verbatim>\<open>nanomodbus.c\<close>: the parsers of the responses (\<open>recv_*_res\<close>, which the
  server also uses to skip the traffic of other units) and the requests of the public
  interface.  An output array is an option (\<open>None\<close> is NULL) that is passed in and returned.
\<close>

section \<open>Loops over the message buffer\<close>

text \<open>\<^verbatim>\<open>for (i = 0; i < k; i++) { x = get_1(nmbs); if (out) out[i] = x; }\<close>, from index \<open>i\<close> on.\<close>

fun get_bytes_loop :: "nat \<Rightarrow> nat \<Rightarrow> 'w nmbs_t \<Rightarrow> u8 list option \<Rightarrow> ('w nmbs_t \<times> u8 list option) option" where
  "get_bytes_loop 0 i n out = Some (n, out)"
| "get_bytes_loop (Suc k) i n out = do {
     (b, n) \<leftarrow> get_1 n;
     out \<leftarrow> (case out of None \<Rightarrow> Some None | Some xs \<Rightarrow> do { xs \<leftarrow> buf_set xs i b; Some (Some xs) });
     get_bytes_loop k (i + 1) n out
   }"

fun get_words_loop :: "nat \<Rightarrow> nat \<Rightarrow> 'w nmbs_t \<Rightarrow> u16 list option \<Rightarrow> ('w nmbs_t \<times> u16 list option) option" where
  "get_words_loop 0 i n out = Some (n, out)"
| "get_words_loop (Suc k) i n out = do {
     (x, n) \<leftarrow> get_2 n;
     out \<leftarrow> (case out of None \<Rightarrow> Some None | Some xs \<Rightarrow> do { xs \<leftarrow> buf_set xs i x; Some (Some xs) });
     get_words_loop k (i + 1) n out
   }"

text \<open>\<^verbatim>\<open>for (i = 0; i < k; i++) put(nmbs, data[i]);\<close>\<close>

fun put_bytes_loop :: "nat \<Rightarrow> nat \<Rightarrow> 'w nmbs_t \<Rightarrow> u8 list \<Rightarrow> 'w nmbs_t option" where
  "put_bytes_loop 0 i n data = Some n"
| "put_bytes_loop (Suc k) i n data = do {
     b \<leftarrow> buf_get data i;
     n \<leftarrow> put_1 n b;
     put_bytes_loop k (i + 1) n data
   }"

fun put_words_loop :: "nat \<Rightarrow> nat \<Rightarrow> 'w nmbs_t \<Rightarrow> u16 list \<Rightarrow> 'w nmbs_t option" where
  "put_words_loop 0 i n data = Some n"
| "put_words_loop (Suc k) i n data = do {
     x \<leftarrow> buf_get data i;
     n \<leftarrow> put_2 n x;
     put_words_loop k (i + 1) n data
   }"

section \<open>Responses\<close>

definition recv_read_discrete_res ::
  "'w nmbs_t \<Rightarrow> u8 list option \<Rightarrow> 'w \<Rightarrow> (nmbs_error \<times> u8 list option \<times> 'w nmbs_t \<times> 'w) option" where
  "recv_read_discrete_res n values w = do {
     (err, n, w) \<leftarrow> recv_res_header n w;
     if err \<noteq> NMBS_ERROR_NONE then Some (err, values, n, w)
     else do {
       (err, n, w) \<leftarrow> recv n 1 w;
       if err \<noteq> NMBS_ERROR_NONE then Some (err, values, n, w)
       else do {
         (coils_bytes, n) \<leftarrow> get_1 n;
         if coils_bytes > 250 then Some (NMBS_ERROR_INVALID_RESPONSE, values, n, w)
         else do {
           (err, n, w) \<leftarrow> recv n (ucast coils_bytes) w;
           if err \<noteq> NMBS_ERROR_NONE then Some (err, values, n, w)
           else do {
             (n, values) \<leftarrow> get_bytes_loop (unat coils_bytes) 0 n values;
             (err, n, w) \<leftarrow> recv_msg_footer n w;
             Some (err, values, n, w)
           }
         }
       }
     }
   }"

definition recv_read_registers_res ::
  "'w nmbs_t \<Rightarrow> u16 \<Rightarrow> u16 list option \<Rightarrow> 'w \<Rightarrow> (nmbs_error \<times> u16 list option \<times> 'w nmbs_t \<times> 'w) option" where
  "recv_read_registers_res n quantity registers w = do {
     (err, n, w) \<leftarrow> recv_res_header n w;
     if err \<noteq> NMBS_ERROR_NONE then Some (err, registers, n, w)
     else do {
       (err, n, w) \<leftarrow> recv n 1 w;
       if err \<noteq> NMBS_ERROR_NONE then Some (err, registers, n, w)
       else do {
         (registers_bytes, n) \<leftarrow> get_1 n;
         if registers_bytes > 250 then Some (NMBS_ERROR_INVALID_RESPONSE, registers, n, w)
         else do {
           (err, n, w) \<leftarrow> recv n (ucast registers_bytes) w;
           if err \<noteq> NMBS_ERROR_NONE then Some (err, registers, n, w)
           else do {
             (n, registers) \<leftarrow> get_words_loop (unat registers_bytes div 2) 0 n registers;
             (err, n, w) \<leftarrow> recv_msg_footer n w;
             if err \<noteq> NMBS_ERROR_NONE then Some (err, registers, n, w)
             else if unat registers_bytes \<noteq> unat quantity * 2
             then Some (NMBS_ERROR_INVALID_RESPONSE, registers, n, w)
             else Some (NMBS_ERROR_NONE, registers, n, w)
           }
         }
       }
     }
   }"

text \<open>The four responses that echo an address and a second word have the same code.\<close>

definition recv_write_single_coil_res ::
  "'w nmbs_t \<Rightarrow> u16 \<Rightarrow> u16 \<Rightarrow> 'w \<Rightarrow> (nmbs_error \<times> 'w nmbs_t \<times> 'w) option" where
  "recv_write_single_coil_res n address value_req w = do {
     (err, n, w) \<leftarrow> recv_res_header n w;
     if err \<noteq> NMBS_ERROR_NONE then Some (err, n, w)
     else do {
       (err, n, w) \<leftarrow> recv n 4 w;
       if err \<noteq> NMBS_ERROR_NONE then Some (err, n, w)
       else do {
         (address_res, n) \<leftarrow> get_2 n;
         (value_res, n) \<leftarrow> get_2 n;
         (err, n, w) \<leftarrow> recv_msg_footer n w;
         if err \<noteq> NMBS_ERROR_NONE then Some (err, n, w)
         else if address_res \<noteq> address then Some (NMBS_ERROR_INVALID_RESPONSE, n, w)
         else if value_res \<noteq> value_req then Some (NMBS_ERROR_INVALID_RESPONSE, n, w)
         else Some (NMBS_ERROR_NONE, n, w)
       }
     }
   }"

definition recv_write_single_register_res ::
  "'w nmbs_t \<Rightarrow> u16 \<Rightarrow> u16 \<Rightarrow> 'w \<Rightarrow> (nmbs_error \<times> 'w nmbs_t \<times> 'w) option" where
  "recv_write_single_register_res n address value_req w = do {
     (err, n, w) \<leftarrow> recv_res_header n w;
     if err \<noteq> NMBS_ERROR_NONE then Some (err, n, w)
     else do {
       (err, n, w) \<leftarrow> recv n 4 w;
       if err \<noteq> NMBS_ERROR_NONE then Some (err, n, w)
       else do {
         (address_res, n) \<leftarrow> get_2 n;
         (value_res, n) \<leftarrow> get_2 n;
         (err, n, w) \<leftarrow> recv_msg_footer n w;
         if err \<noteq> NMBS_ERROR_NONE then Some (err, n, w)
         else if address_res \<noteq> address then Some (NMBS_ERROR_INVALID_RESPONSE, n, w)
         else if value_res \<noteq> value_req then Some (NMBS_ERROR_INVALID_RESPONSE, n, w)
         else Some (NMBS_ERROR_NONE, n, w)
       }
     }
   }"

definition recv_write_multiple_coils_res ::
  "'w nmbs_t \<Rightarrow> u16 \<Rightarrow> u16 \<Rightarrow> 'w \<Rightarrow> (nmbs_error \<times> 'w nmbs_t \<times> 'w) option" where
  "recv_write_multiple_coils_res n address quantity w = do {
     (err, n, w) \<leftarrow> recv_res_header n w;
     if err \<noteq> NMBS_ERROR_NONE then Some (err, n, w)
     else do {
       (err, n, w) \<leftarrow> recv n 4 w;
       if err \<noteq> NMBS_ERROR_NONE then Some (err, n, w)
       else do {
         (address_res, n) \<leftarrow> get_2 n;
         (quantity_res, n) \<leftarrow> get_2 n;
         (err, n, w) \<leftarrow> recv_msg_footer n w;
         if err \<noteq> NMBS_ERROR_NONE then Some (err, n, w)
         else if address_res \<noteq> address then Some (NMBS_ERROR_INVALID_RESPONSE, n, w)
         else if quantity_res \<noteq> quantity then Some (NMBS_ERROR_INVALID_RESPONSE, n, w)
         else Some (NMBS_ERROR_NONE, n, w)
       }
     }
   }"

definition recv_write_multiple_registers_res ::
  "'w nmbs_t \<Rightarrow> u16 \<Rightarrow> u16 \<Rightarrow> 'w \<Rightarrow> (nmbs_error \<times> 'w nmbs_t \<times> 'w) option" where
  "recv_write_multiple_registers_res n address quantity w = do {
     (err, n, w) \<leftarrow> recv_res_header n w;
     if err \<noteq> NMBS_ERROR_NONE then Some (err, n, w)
     else do {
       (err, n, w) \<leftarrow> recv n 4 w;
       if err \<noteq> NMBS_ERROR_NONE then Some (err, n, w)
       else do {
         (address_res, n) \<leftarrow> get_2 n;
         (quantity_res, n) \<leftarrow> get_2 n;
         (err, n, w) \<leftarrow> recv_msg_footer n w;
         if err \<noteq> NMBS_ERROR_NONE then Some (err, n, w)
         else if address_res \<noteq> address then Some (NMBS_ERROR_INVALID_RESPONSE, n, w)
         else if quantity_res \<noteq> quantity then Some (NMBS_ERROR_INVALID_RESPONSE, n, w)
         else Some (NMBS_ERROR_NONE, n, w)
       }
     }
   }"

section \<open>Requests\<close>

text \<open>\<^verbatim>\<open>(uint32_t)address + (uint32_t)quantity > ((uint32_t)0xFFFF) + 1\<close>\<close>

definition beyond_address_space :: "u16 \<Rightarrow> u16 \<Rightarrow> bool" where
  "beyond_address_space address quantity \<longleftrightarrow> (ucast address :: u32) + ucast quantity > 0xFFFF + 1"

definition nmbs_client_create ::
  "'w nmbs_t option \<Rightarrow> 'w nmbs_platform_conf option \<Rightarrow> nmbs_error \<times> 'w nmbs_t option" where
  "nmbs_client_create nmbs platform_conf = nmbs_create nmbs platform_conf"

definition read_discrete ::
  "'w nmbs_t \<Rightarrow> u8 \<Rightarrow> u16 \<Rightarrow> u16 \<Rightarrow> u8 list option \<Rightarrow> 'w \<Rightarrow>
     (nmbs_error \<times> u8 list option \<times> 'w nmbs_t \<times> 'w) option" where
  "read_discrete n fc address quantity values w =
     (if quantity < 1 \<or> quantity > 2000 then Some (NMBS_ERROR_INVALID_ARGUMENT, values, n, w)
      else if beyond_address_space address quantity
      then Some (NMBS_ERROR_INVALID_ARGUMENT, values, n, w)
      else do {
        (n, w) \<leftarrow> msg_state_req n fc w;
        n \<leftarrow> put_req_header n 4;
        n \<leftarrow> put_2 n address;
        n \<leftarrow> put_2 n quantity;
        (err, n, w) \<leftarrow> send_msg n w;
        if err \<noteq> NMBS_ERROR_NONE then Some (err, values, n, w)
        else recv_read_discrete_res n values w
      })"

definition nmbs_read_coils where
  "nmbs_read_coils n address quantity coils_out w = read_discrete n 1 address quantity coils_out w"

definition nmbs_read_discrete_inputs where
  "nmbs_read_discrete_inputs n address quantity inputs_out w =
     read_discrete n 2 address quantity inputs_out w"

definition read_registers ::
  "'w nmbs_t \<Rightarrow> u8 \<Rightarrow> u16 \<Rightarrow> u16 \<Rightarrow> u16 list option \<Rightarrow> 'w \<Rightarrow>
     (nmbs_error \<times> u16 list option \<times> 'w nmbs_t \<times> 'w) option" where
  "read_registers n fc address quantity registers w =
     (if quantity < 1 \<or> quantity > 125 then Some (NMBS_ERROR_INVALID_ARGUMENT, registers, n, w)
      else if beyond_address_space address quantity
      then Some (NMBS_ERROR_INVALID_ARGUMENT, registers, n, w)
      else do {
        (n, w) \<leftarrow> msg_state_req n fc w;
        n \<leftarrow> put_req_header n 4;
        n \<leftarrow> put_2 n address;
        n \<leftarrow> put_2 n quantity;
        (err, n, w) \<leftarrow> send_msg n w;
        if err \<noteq> NMBS_ERROR_NONE then Some (err, registers, n, w)
        else recv_read_registers_res n quantity registers w
      })"

definition nmbs_read_holding_registers where
  "nmbs_read_holding_registers n address quantity registers_out w =
     read_registers n 3 address quantity registers_out w"

definition nmbs_read_input_registers where
  "nmbs_read_input_registers n address quantity registers_out w =
     read_registers n 4 address quantity registers_out w"

definition nmbs_write_single_coil ::
  "'w nmbs_t \<Rightarrow> u16 \<Rightarrow> bool \<Rightarrow> 'w \<Rightarrow> (nmbs_error \<times> 'w nmbs_t \<times> 'w) option" where
  "nmbs_write_single_coil n address value w = do {
     (n, w) \<leftarrow> msg_state_req n 5 w;
     n \<leftarrow> put_req_header n 4;
     let value_req = (if value then 0xFF00 else 0);
     n \<leftarrow> put_2 n address;
     n \<leftarrow> put_2 n value_req;
     (err, n, w) \<leftarrow> send_msg n w;
     if err \<noteq> NMBS_ERROR_NONE then Some (err, n, w)
     else if \<not> broadcast (msg n) then recv_write_single_coil_res n address value_req w
     else Some (NMBS_ERROR_NONE, n, w)
   }"

definition nmbs_write_single_register ::
  "'w nmbs_t \<Rightarrow> u16 \<Rightarrow> u16 \<Rightarrow> 'w \<Rightarrow> (nmbs_error \<times> 'w nmbs_t \<times> 'w) option" where
  "nmbs_write_single_register n address value w = do {
     (n, w) \<leftarrow> msg_state_req n 6 w;
     n \<leftarrow> put_req_header n 4;
     n \<leftarrow> put_2 n address;
     n \<leftarrow> put_2 n value;
     (err, n, w) \<leftarrow> send_msg n w;
     if err \<noteq> NMBS_ERROR_NONE then Some (err, n, w)
     else if \<not> broadcast (msg n) then recv_write_single_register_res n address value w
     else Some (NMBS_ERROR_NONE, n, w)
   }"

definition nmbs_write_multiple_coils ::
  "'w nmbs_t \<Rightarrow> u16 \<Rightarrow> u16 \<Rightarrow> u8 list \<Rightarrow> 'w \<Rightarrow> (nmbs_error \<times> 'w nmbs_t \<times> 'w) option" where
  "nmbs_write_multiple_coils n address quantity coils w =
     (if quantity < 1 \<or> quantity > 0x07B0 then Some (NMBS_ERROR_INVALID_ARGUMENT, n, w)
      else if beyond_address_space address quantity then Some (NMBS_ERROR_INVALID_ARGUMENT, n, w)
      else do {
        let coils_bytes = (ucast ((quantity + 7) div 8) :: u8);
        (n, w) \<leftarrow> msg_state_req n 15 w;
        n \<leftarrow> put_req_header n (5 + ucast coils_bytes);
        n \<leftarrow> put_2 n address;
        n \<leftarrow> put_2 n quantity;
        n \<leftarrow> put_1 n coils_bytes;
        n \<leftarrow> put_bytes_loop (unat coils_bytes) 0 n coils;
        (err, n, w) \<leftarrow> send_msg n w;
        if err \<noteq> NMBS_ERROR_NONE then Some (err, n, w)
        else if \<not> broadcast (msg n) then recv_write_multiple_coils_res n address quantity w
        else Some (NMBS_ERROR_NONE, n, w)
      })"

definition nmbs_write_multiple_registers ::
  "'w nmbs_t \<Rightarrow> u16 \<Rightarrow> u16 \<Rightarrow> u16 list \<Rightarrow> 'w \<Rightarrow> (nmbs_error \<times> 'w nmbs_t \<times> 'w) option" where
  "nmbs_write_multiple_registers n address quantity registers w =
     (if quantity < 1 \<or> quantity > 0x007B then Some (NMBS_ERROR_INVALID_ARGUMENT, n, w)
      else if beyond_address_space address quantity then Some (NMBS_ERROR_INVALID_ARGUMENT, n, w)
      else do {
        let registers_bytes = (ucast (quantity * 2) :: u8);
        (n, w) \<leftarrow> msg_state_req n 16 w;
        n \<leftarrow> put_req_header n (5 + ucast registers_bytes);
        n \<leftarrow> put_2 n address;
        n \<leftarrow> put_2 n quantity;
        n \<leftarrow> put_1 n registers_bytes;
        n \<leftarrow> put_words_loop (unat quantity) 0 n registers;
        (err, n, w) \<leftarrow> send_msg n w;
        if err \<noteq> NMBS_ERROR_NONE then Some (err, n, w)
        else if \<not> broadcast (msg n) then recv_write_single_register_res n address quantity w
        else Some (NMBS_ERROR_NONE, n, w)
      })"

definition nmbs_read_write_registers ::
  "'w nmbs_t \<Rightarrow> u16 \<Rightarrow> u16 \<Rightarrow> u16 list option \<Rightarrow> u16 \<Rightarrow> u16 \<Rightarrow> u16 list \<Rightarrow> 'w \<Rightarrow>
     (nmbs_error \<times> u16 list option \<times> 'w nmbs_t \<times> 'w) option" where
  "nmbs_read_write_registers n read_address read_quantity registers_out
       write_address write_quantity registers w =
     (if read_quantity < 1 \<or> read_quantity > 0x007D
      then Some (NMBS_ERROR_INVALID_ARGUMENT, registers_out, n, w)
      else if beyond_address_space read_address read_quantity
      then Some (NMBS_ERROR_INVALID_ARGUMENT, registers_out, n, w)
      else if write_quantity < 1 \<or> write_quantity > 0x0079
      then Some (NMBS_ERROR_INVALID_ARGUMENT, registers_out, n, w)
      else if beyond_address_space write_address write_quantity
      then Some (NMBS_ERROR_INVALID_ARGUMENT, registers_out, n, w)
      else do {
        let registers_bytes = (ucast (write_quantity * 2) :: u8);
        (n, w) \<leftarrow> msg_state_req n 23 w;
        n \<leftarrow> put_req_header n (9 + ucast registers_bytes);
        n \<leftarrow> put_2 n read_address;
        n \<leftarrow> put_2 n read_quantity;
        n \<leftarrow> put_2 n write_address;
        n \<leftarrow> put_2 n write_quantity;
        n \<leftarrow> put_1 n registers_bytes;
        n \<leftarrow> put_words_loop (unat write_quantity) 0 n registers;
        (err, n, w) \<leftarrow> send_msg n w;
        if err \<noteq> NMBS_ERROR_NONE then Some (err, registers_out, n, w)
        else if \<not> broadcast (msg n) then recv_read_registers_res n read_quantity registers_out w
        else Some (NMBS_ERROR_NONE, registers_out, n, w)
      })"

section \<open>Raw PDUs\<close>

definition nmbs_send_raw_pdu ::
  "'w nmbs_t \<Rightarrow> u8 \<Rightarrow> u8 list \<Rightarrow> u16 \<Rightarrow> 'w \<Rightarrow> (nmbs_error \<times> 'w nmbs_t \<times> 'w) option" where
  "nmbs_send_raw_pdu n fc data data_len w = do {
     (n, w) \<leftarrow> msg_state_req n fc w;
     n \<leftarrow> put_msg_header n data_len;
     n \<leftarrow> put_bytes_loop (unat data_len) 0 n data;
     send_msg n w
   }"

definition nmbs_receive_raw_pdu_response ::
  "'w nmbs_t \<Rightarrow> u8 list option \<Rightarrow> u8 \<Rightarrow> 'w \<Rightarrow> (nmbs_error \<times> u8 list option \<times> 'w nmbs_t \<times> 'w) option" where
  "nmbs_receive_raw_pdu_response n data_out data_out_len w = do {
     (err, n, w) \<leftarrow> recv_res_header n w;
     if err \<noteq> NMBS_ERROR_NONE then Some (err, data_out, n, w)
     else do {
       (err, n, w) \<leftarrow> recv n (ucast data_out_len) w;
       if err \<noteq> NMBS_ERROR_NONE then Some (err, data_out, n, w)
       else do {
         (n, data_out) \<leftarrow> get_bytes_loop (unat data_out_len) 0 n data_out;
         (err, n, w) \<leftarrow> recv_msg_footer n w;
         if err \<noteq> NMBS_ERROR_NONE then Some (err, data_out, n, w)
         else Some (NMBS_ERROR_NONE, data_out, n, w)
       }
     }
   }"

section \<open>The loops\<close>

lemma moved_of_nat:
  "moved n (advance n 2) xs \<Longrightarrow> moved (advance n 2) (advance (advance n 2) (of_nat (2 * k))) ys \<Longrightarrow>
   moved n (advance n (of_nat (2 * Suc k))) (xs @ ys)"
  by (drule (1) moved_trans) (simp add: advance_def add.assoc)

text \<open>Reading \<open>k\<close> words stores them in order, from index \<open>i\<close> on.\<close>

lemma get_words_loop_rule:
  assumes "inst_ok n" "length (seen n) + 2 * k \<le> 260" "\<forall>xs. out = Some xs \<longrightarrow> i + k \<le> length xs"
    and "\<And>data. length data = 2 * k \<Longrightarrow> moved n (advance n (of_nat (2 * k))) data \<Longrightarrow>
      Q (advance n (of_nat (2 * k)), map_option (\<lambda>xs. take i xs @ words_of data @ drop (i + k) xs) out)"
  shows "returns (get_words_loop k i n out) Q"
  using assms
proof (induction k arbitrary: i n out)
  case 0
  have "moved n (advance n 0) []"
    using 0(1) by (simp add: moved_def advance_def)
  moreover have "map_option (\<lambda>xs. take i xs @ drop i xs) out = out" by (cases out) simp_all
  ultimately show ?case using 0(4) [of "[]"] by (simp add: advance_def)
next
  case (Suc k)
  show ?case
    unfolding get_words_loop.simps returns_bind
  proof (rule get_2_rule [OF Suc.prems(1)])
    fix h l assume m: "moved n (advance n 2) [h, l]"
    let ?out = "map_option (\<lambda>xs. xs[i := word_of_bytes h l]) out"
    have "returns (get_words_loop k (i + 1) (advance n 2) ?out) Q"
    proof (rule Suc.IH)
      fix data assume d: "length data = 2 * k"
        "moved (advance n 2) (advance (advance n 2) (of_nat (2 * k))) data"
      have eq: "map_option (\<lambda>xs. take (i + 1) xs @ words_of data @ drop (i + 1 + k) xs) ?out =
          map_option (\<lambda>xs. take i xs @ words_of ([h, l] @ data) @ drop (i + Suc k) xs) out"
        using Suc.prems(3) by (cases out) (auto simp: take_Suc_conv_app_nth)
      have adv: "advance (advance n 2) (of_nat (2 * k)) = advance n (of_nat (2 * Suc k))"
        by (simp add: advance_def add.assoc)
      show "Q (advance (advance n 2) (of_nat (2 * k)),
          map_option (\<lambda>xs. take (i + 1) xs @ words_of data @ drop (i + 1 + k) xs) ?out)"
        unfolding eq adv using d(1) moved_of_nat [OF m d(2)] by (intro Suc.prems(4)) simp_all
    qed (use m Suc.prems(2,3) in \<open>auto simp: moved_def\<close>)
    then show "returns (case (word_of_bytes h l, advance n 2) of (x, n) \<Rightarrow>
        (case out of None \<Rightarrow> Some None | Some xs \<Rightarrow> do { xs \<leftarrow> buf_set xs i x; Some (Some xs) }) \<bind>
        get_words_loop k (i + 1) n) Q"
      using Suc.prems(3) by (cases out) (simp_all add: buf_set_def)
  qed (use Suc.prems(2) in simp)
qed

lemma get_bytes_loop_rule:
  assumes "inst_ok n" "length (seen n) + k \<le> 260" "\<forall>xs. out = Some xs \<longrightarrow> i + k \<le> length xs"
    and "\<And>data. length data = k \<Longrightarrow> moved n (advance n (of_nat k)) data \<Longrightarrow>
      Q (advance n (of_nat k), map_option (\<lambda>xs. take i xs @ data @ drop (i + k) xs) out)"
  shows "returns (get_bytes_loop k i n out) Q"
  using assms
proof (induction k arbitrary: i n out)
  case 0
  have "moved n (advance n 0) []"
    using 0(1) by (simp add: moved_def advance_def)
  moreover have "map_option (\<lambda>xs. take i xs @ drop i xs) out = out" by (cases out) simp_all
  ultimately show ?case using 0(4) [of "[]"] by (simp add: advance_def)
next
  case (Suc k)
  show ?case
    unfolding get_bytes_loop.simps returns_bind
  proof (rule get_1_rule [OF Suc.prems(1)])
    fix b assume m: "moved n (advance n 1) [b]"
    let ?out = "map_option (\<lambda>xs. xs[i := b]) out"
    have "returns (get_bytes_loop k (i + 1) (advance n 1) ?out) Q"
    proof (rule Suc.IH)
      fix data assume d: "length data = k"
        "moved (advance n 1) (advance (advance n 1) (of_nat k)) data"
      have eq: "map_option (\<lambda>xs. take (i + 1) xs @ data @ drop (i + 1 + k) xs) ?out =
          map_option (\<lambda>xs. take i xs @ ([b] @ data) @ drop (i + Suc k) xs) out"
        using Suc.prems(3) by (cases out) (auto simp: take_Suc_conv_app_nth)
      have adv: "advance (advance n 1) (of_nat k) = advance n (of_nat (Suc k))"
        by (simp add: advance_def add_ac)
      show "Q (advance (advance n 1) (of_nat k),
          map_option (\<lambda>xs. take (i + 1) xs @ data @ drop (i + 1 + k) xs) ?out)"
        unfolding eq adv using d(1) moved_trans [OF m d(2)] adv by (intro Suc.prems(4)) simp_all
    qed (use m Suc.prems(2,3) in \<open>auto simp: moved_def\<close>)
    then show "returns (case (b, advance n 1) of (x, n) \<Rightarrow>
        (case out of None \<Rightarrow> Some None | Some xs \<Rightarrow> do { xs \<leftarrow> buf_set xs i x; Some (Some xs) }) \<bind>
        get_bytes_loop k (i + 1) n) Q"
      using Suc.prems(3) by (cases out) (simp_all add: buf_set_def)
  qed (use Suc.prems(2) in simp)
qed

text \<open>Writing loops append the encoded data.\<close>

lemma emit_Nil [simp]: "inst_ok n \<Longrightarrow> emit n [] = n"
  by (simp add: emit_def advance_def set_buf_def)

lemma put_bytes_loop_emit:
  "room n k \<Longrightarrow> i + k \<le> length data \<Longrightarrow> put_bytes_loop k i n data = Some (emit n (take k (drop i data)))"
proof (induction k arbitrary: i n)
  case (Suc k)
  have "room (emit n [data ! i]) k" using Suc.prems(1) by (intro room_emit) simp
  then show ?case
    using Suc room_mono [OF Suc.prems(1), of 1] Cons_nth_drop_Suc [of i data]
    by (simp add: buf_get_def) (metis One_nat_def take_Suc_Cons)
qed (simp add: emit_def advance_def set_buf_def)

lemma put_words_loop_emit:
  "room n (2 * k) \<Longrightarrow> i + k \<le> length data \<Longrightarrow>
   put_words_loop k i n data = Some (emit n (concat (map be16 (take k (drop i data)))))"
proof (induction k arbitrary: i n)
  case (Suc k)
  have "room (emit n (be16 (data ! i))) (2 * k)" using Suc.prems(1) by (intro room_emit) simp
  moreover have "emit (emit n (be16 (data ! i))) (concat (map be16 (take k (drop (Suc i) data)))) =
      emit n (be16 (data ! i) @ concat (map be16 (take k (drop (Suc i) data))))"
    using Suc.prems by (intro emit_emit) (simp add: min_absorb2)
  ultimately show ?case
    using Suc room_mono [OF Suc.prems(1), of 2] Cons_nth_drop_Suc [of i data, symmetric]
    by (simp add: buf_get_def)
qed (simp add: emit_def advance_def set_buf_def)

section \<open>What the client accepts\<close>

text \<open>
  The result of a transaction with unit \<open>u\<close> and function code \<open>f\<close> whose accepted response must
  satisfy \<open>P\<close>.
\<close>

definition answered where
  "answered wok n u f P r \<longleftrightarrow> (case r of (err, n', w') \<Rightarrow>
     wok w' \<and> config n' = config n \<and> wf_nmbs n' \<and>
     (err = NMBS_ERROR_NONE \<longrightarrow> P (seen n')) \<and>
     (nmbs_error_is_exception err \<longrightarrow> exception_frame u f err (seen n')))"

definition out_length where
  "out_length out out' \<longleftrightarrow> map_option length out' = map_option length out"

lemma out_length_refl [simp]: "out_length out out"
  by (simp add: out_length_def)

text \<open>The four parsers of an echo are one function.\<close>

lemma echo_parsers:
  "recv_write_single_coil_res = recv_write_single_register_res"
  "recv_write_multiple_coils_res = recv_write_single_register_res"
  "recv_write_multiple_registers_res = recv_write_single_register_res"
  by (rule ext, rule ext, rule ext, rule ext,
      simp add: recv_write_single_coil_res_def recv_write_single_register_res_def
        recv_write_multiple_coils_res_def recv_write_multiple_registers_res_def)+

text \<open>A bit quantity that passes the check needs at most 246 bytes.\<close>

lemma coil_bytes:
  assumes "\<not> (0x07B0 :: u16) < quantity"
  shows "unat (ucast ((quantity + 7) div 8) :: u8) = (unat quantity + 7) div 8"
    and "(unat quantity + 7) div 8 \<le> 246"
proof -
  have q: "unat quantity \<le> 1968" using assms by (simp add: word_less_nat_alt not_less)
  then have "unat (quantity + 7) = unat quantity + 7" by (simp add: unat_word_ariths)
  then show "unat (ucast ((quantity + 7) div 8) :: u8) = (unat quantity + 7) div 8"
    using q by (simp add: unat_ucast unat_div)
  show "(unat quantity + 7) div 8 \<le> 246" using q by linarith
qed

lemma beyond_address_space_iff: "beyond_address_space a q \<longleftrightarrow> 65536 < unat a + unat q"
proof -
  have "unat (ucast a + ucast q :: u32) = unat a + unat q"
    using unsigned_less [of a, where ?'a = nat] unsigned_less [of q, where ?'a = nat]
    by (simp add: unat_word_ariths unat_ucast)
  then show ?thesis by (simp add: beyond_address_space_def word_less_nat_alt)
qed

lemma seen_emit_begun:
  "length b = 260 \<Longrightarrow> length bs \<le> 260 \<Longrightarrow> seen (emit (begun n fc b) bs) = bs \<and> inst_ok (emit (begun n fc b) bs)"
  by (simp add: seen_def inst_ok_def mbuf_emit)

text \<open>
  How a write ends: a broadcast is done when it is sent, any other write when the unit has
  echoed \<open>a\<close> and \<open>v\<close>.
\<close>

definition written :: "u8 \<Rightarrow> u8 \<Rightarrow> u8 list \<Rightarrow> u16 \<Rightarrow> u16 \<Rightarrow> u8 list \<Rightarrow> bool" where
  "written u fc data a v frame \<longleftrightarrow>
     frame = (if u = NMBS_BROADCAST_ADDRESS then rtu_frame u fc data else rtu_frame u fc (be16 a @ be16 v))"

context total_platform
begin

lemma echo_returns:
  assumes "rtu_conf rd wr (platform n)" "wf_nmbs n" "wok w"
  shows "returns (recv_write_single_register_res n address v w)
    (answered wok n (unit_id (msg n)) (msg_fc (msg n)) (\<lambda>frame. frame = rtu_frame (unit_id (msg n)) (msg_fc (msg n)) (be16 address @ be16 v)))"
    (is "returns _ ?Q")
proof -
  let ?check = "\<lambda>a x n' w'. do {
      (err, n', w') \<leftarrow> recv_msg_footer n' w';
      if err \<noteq> NMBS_ERROR_NONE then Some (err, n', w')
      else if a \<noteq> address then Some (NMBS_ERROR_INVALID_RESPONSE, n', w')
      else if x \<noteq> v then Some (NMBS_ERROR_INVALID_RESPONSE, n', w')
      else Some (NMBS_ERROR_NONE, n', w') }"
  let ?words = "\<lambda>n' w'. do {
      (address_res, n') \<leftarrow> get_2 n';
      (value_res, n') \<leftarrow> get_2 n';
      ?check address_res value_res n' w' }"
  have check: "returns (?check a x m w') ?Q"
    if m: "inst_ok m" "seen m = [unit_id (msg n), msg_fc (msg n)] @ be16 a @ be16 x" "config m = config n" "wok w'"
    for a x m w'
    unfolding returns_bind
    by (rule returns_mono [OF recv_msg_footer_returns])
      (use m assms configD(1) [OF m(3)] in \<open>auto simp: answered_def rtu_frame_def inst_ok_wf\<close>)
  have words: "returns (?words m w') ?Q"
    if m: "inst_ok m" "seen m = [unit_id (msg n), msg_fc (msg n)]" "config m = config n" "wok w'" for m w'
    unfolding returns_bind [of "get_2 m"]
  proof (rule get_2_rule [OF m(1)], goal_cases)
    case (2 h l)
    have "returns (do { (value_res, n') \<leftarrow> get_2 (advance m 2); ?check (word_of_bytes h l) value_res n' w' }) ?Q"
      unfolding returns_bind [of "get_2 (advance m 2)"]
      by (rule get_2_rule) (use 2 m check in \<open>auto simp: moved_def be16_def simp del: returns_bind\<close>)
    then show ?case by simp
  qed (use m in simp)
  have "returns (recv_res_header n w) (\<lambda>(err, n', w'). returns
      (if err \<noteq> NMBS_ERROR_NONE then Some (err, n', w')
       else do { (err, n', w') \<leftarrow> recv n' 4 w';
                 if err \<noteq> NMBS_ERROR_NONE then Some (err, n', w') else ?words n' w' }) ?Q)"
  proof (rule returns_mono [OF recv_res_header_returns [OF assms]], goal_cases)
    case (1 r)
    obtain err m w' where r: "r = (err, m, w')" by (cases r)
    show ?case
    proof (cases "err = NMBS_ERROR_NONE")
      case True
      have "returns (recv m 4 w') (\<lambda>(err, n', w'). returns
          (if err \<noteq> NMBS_ERROR_NONE then Some (err, n', w') else ?words n' w') ?Q)"
        by (rule recv_rule) (use 1 r True assms words in
          \<open>auto simp: moved_def answered_def inst_ok_wf dest: configD(1) simp del: returns_bind\<close>)
      then show ?thesis using True r by (simp add: case_prod_unfold)
    qed (use 1 r in \<open>simp add: answered_def inst_ok_wf\<close>)
  qed
  then show ?thesis
    unfolding recv_write_single_register_res_def returns_bind by (simp only: case_prod_unfold)
qed

text \<open>
  A data response: a byte count and that many bytes.  The accepted registers are the words of
  the frame; the caller's array keeps its length whatever arrives.
\<close>

lemma read_registers_res_returns:
  assumes "rtu_conf rd wr (platform n)" "wf_nmbs n" "wok w"
    and out: "\<forall>xs. out = Some xs \<longrightarrow> 125 \<le> length xs"
  shows "returns (recv_read_registers_res n quantity out w) (\<lambda>(err, out', n', w'). out_length out out' \<and>
    answered wok n (unit_id (msg n)) (msg_fc (msg n)) (\<lambda>frame. \<exists>data. length data = 2 * unat quantity \<and>
      frame = rtu_frame (unit_id (msg n)) (msg_fc (msg n)) (of_nat (length data) # data) \<and>
      out' = map_option (\<lambda>xs. words_of data @ drop (unat quantity) xs) out) (err, n', w'))"
    (is "returns _ ?Q")
proof -
  let ?u = "unit_id (msg n)" and ?f = "msg_fc (msg n)"
  let ?data = "\<lambda>bytes n' w'. do {
      (n', registers) \<leftarrow> get_words_loop (unat bytes div 2) 0 n' out;
      (err, n', w') \<leftarrow> recv_msg_footer n' w';
      if err \<noteq> NMBS_ERROR_NONE then Some (err, registers, n', w')
      else if unat (bytes :: u8) \<noteq> unat quantity * 2
      then Some (NMBS_ERROR_INVALID_RESPONSE, registers, n', w')
      else Some (NMBS_ERROR_NONE, registers, n', w') }"
  let ?count = "\<lambda>n' w'. do {
      (bytes, n') \<leftarrow> get_1 n';
      if bytes > 250 then Some (NMBS_ERROR_INVALID_RESPONSE, out, n', w')
      else do {
        (err, n', w') \<leftarrow> recv n' (ucast bytes) w';
        if err \<noteq> NMBS_ERROR_NONE then Some (err, out, n', w') else ?data bytes n' w' } }"
  have data: "returns (?data bytes m w') ?Q"
    if m: "inst_ok m" "seen m = [?u, ?f, bytes]" "config m = config n" "wok w'" "\<not> 250 < bytes"
    for bytes m w'
    unfolding returns_bind [of "get_words_loop _ _ _ _"]
  proof (rule get_words_loop_rule [OF m(1)], goal_cases)
    case (3 data)
    have le: "unat bytes div 2 \<le> 125" using m(5) by (simp add: word_less_nat_alt)
    have eq: "length data = 2 * unat quantity \<and> of_nat (length data) = bytes \<and> unat bytes div 2 = unat quantity"
      if "unat bytes = unat quantity * 2"
      using 3(1) that of_nat_unat [of bytes, where ?'a = "8 word"] by (simp add: mult.commute)
    have out': "out_length out (map_option (\<lambda>xs. take 0 xs @ words_of data @ drop (0 + unat bytes div 2) xs) out)"
      using 3(1) le out by (cases out) (auto simp: out_length_def)
    show ?case
      unfolding prod.case returns_bind
      by (rule returns_mono [OF recv_msg_footer_returns])
        (use 3 m assms le eq out' configD(1) [OF m(3)] in
          \<open>auto simp: answered_def rtu_frame_def inst_ok_wf moved_def simp del: of_nat_mult\<close>)
  qed (use m out in \<open>auto simp: word_less_nat_alt\<close>)
  have count: "returns (?count m w') ?Q"
    if m: "inst_ok m" "seen m = [?u, ?f]" "config m = config n" "wok w'" for m w'
    unfolding returns_bind [of "get_1 m"]
  proof (rule get_1_rule [OF m(1)], goal_cases)
    case (2 bytes)
    show ?case
    proof (cases "bytes > 250")
      case False
      have "returns (recv (advance m 1) (ucast bytes) w') (\<lambda>(err, n', w'). returns
          (if err \<noteq> NMBS_ERROR_NONE then Some (err, out, n', w') else ?data bytes n' w') ?Q)"
        by (rule recv_rule) (use 2 m False assms data in
          \<open>auto simp: moved_def answered_def inst_ok_wf word_less_nat_alt unat_ucast
             dest: configD(1) simp del: returns_bind\<close>)
      then show ?thesis using False by (simp add: case_prod_unfold)
    qed (use 2 m in \<open>simp add: answered_def inst_ok_wf moved_def\<close>)
  qed (use m in simp)
  have "returns (recv_res_header n w) (\<lambda>(err, n', w'). returns
      (if err \<noteq> NMBS_ERROR_NONE then Some (err, out, n', w')
       else do { (err, n', w') \<leftarrow> recv n' 1 w';
                 if err \<noteq> NMBS_ERROR_NONE then Some (err, out, n', w') else ?count n' w' }) ?Q)"
  proof (rule returns_mono [OF recv_res_header_returns [OF assms(1-3)]], goal_cases)
    case (1 r)
    obtain err m w' where r: "r = (err, m, w')" by (cases r)
    show ?case
    proof (cases "err = NMBS_ERROR_NONE")
      case True
      have "returns (recv m 1 w') (\<lambda>(err, n', w'). returns
          (if err \<noteq> NMBS_ERROR_NONE then Some (err, out, n', w') else ?count n' w') ?Q)"
        by (rule recv_rule) (use 1 r True assms count in
          \<open>auto simp: moved_def answered_def inst_ok_wf dest: configD(1) simp del: returns_bind\<close>)
      then show ?thesis using True r by (simp add: case_prod_unfold)
    qed (use 1 r in \<open>simp add: answered_def inst_ok_wf\<close>)
  qed
  then show ?thesis
    unfolding recv_read_registers_res_def returns_bind by (simp only: case_prod_unfold)
qed

lemma read_discrete_res_returns:
  assumes "rtu_conf rd wr (platform n)" "wf_nmbs n" "wok w"
    and out: "\<forall>xs. out = Some xs \<longrightarrow> 250 \<le> length xs"
  shows "returns (recv_read_discrete_res n out w) (\<lambda>(err, out', n', w'). out_length out out' \<and>
    answered wok n (unit_id (msg n)) (msg_fc (msg n)) (\<lambda>frame. \<exists>data. length data \<le> 250 \<and>
      frame = rtu_frame (unit_id (msg n)) (msg_fc (msg n)) (of_nat (length data) # data) \<and>
      out' = map_option (\<lambda>xs. data @ drop (length data) xs) out) (err, n', w'))"
    (is "returns _ ?Q")
proof -
  let ?u = "unit_id (msg n)" and ?f = "msg_fc (msg n)"
  let ?data = "\<lambda>bytes n' w'. do {
      (n', values) \<leftarrow> get_bytes_loop (unat (bytes :: u8)) 0 n' out;
      (err, n', w') \<leftarrow> recv_msg_footer n' w';
      Some (err, values, n', w') }"
  let ?count = "\<lambda>n' w'. do {
      (bytes, n') \<leftarrow> get_1 n';
      if bytes > 250 then Some (NMBS_ERROR_INVALID_RESPONSE, out, n', w')
      else do {
        (err, n', w') \<leftarrow> recv n' (ucast bytes) w';
        if err \<noteq> NMBS_ERROR_NONE then Some (err, out, n', w') else ?data bytes n' w' } }"
  have data: "returns (?data bytes m w') ?Q"
    if m: "inst_ok m" "seen m = [?u, ?f, bytes]" "config m = config n" "wok w'" "\<not> 250 < bytes"
    for bytes m w'
    unfolding returns_bind [of "get_bytes_loop _ _ _ _"]
  proof (rule get_bytes_loop_rule [OF m(1)], goal_cases)
    case (3 data)
    have le: "unat bytes \<le> 250" using m(5) by (simp add: word_less_nat_alt)
    have out': "out_length out (map_option (\<lambda>xs. take 0 xs @ data @ drop (0 + unat bytes) xs) out)"
      using 3(1) le out by (cases out) (auto simp: out_length_def)
    show ?case
      unfolding prod.case returns_bind
      by (rule returns_mono [OF recv_msg_footer_returns])
        (use 3 m assms le out' configD(1) [OF m(3)] of_nat_unat [of bytes, where ?'a = "8 word"] in
          \<open>auto simp: answered_def rtu_frame_def inst_ok_wf moved_def\<close>)
  qed (use m out in \<open>auto simp: word_less_nat_alt\<close>)
  have count: "returns (?count m w') ?Q"
    if m: "inst_ok m" "seen m = [?u, ?f]" "config m = config n" "wok w'" for m w'
    unfolding returns_bind [of "get_1 m"]
  proof (rule get_1_rule [OF m(1)], goal_cases)
    case (2 bytes)
    show ?case
    proof (cases "bytes > 250")
      case False
      have "returns (recv (advance m 1) (ucast bytes) w') (\<lambda>(err, n', w'). returns
          (if err \<noteq> NMBS_ERROR_NONE then Some (err, out, n', w') else ?data bytes n' w') ?Q)"
        by (rule recv_rule) (use 2 m False assms data in
          \<open>auto simp: moved_def answered_def inst_ok_wf word_less_nat_alt unat_ucast
             dest: configD(1) simp del: returns_bind\<close>)
      then show ?thesis using False by (simp add: case_prod_unfold)
    qed (use 2 m in \<open>simp add: answered_def inst_ok_wf moved_def\<close>)
  qed (use m in simp)
  have "returns (recv_res_header n w) (\<lambda>(err, n', w'). returns
      (if err \<noteq> NMBS_ERROR_NONE then Some (err, out, n', w')
       else do { (err, n', w') \<leftarrow> recv n' 1 w';
                 if err \<noteq> NMBS_ERROR_NONE then Some (err, out, n', w') else ?count n' w' }) ?Q)"
  proof (rule returns_mono [OF recv_res_header_returns [OF assms(1-3)]], goal_cases)
    case (1 r)
    obtain err m w' where r: "r = (err, m, w')" by (cases r)
    show ?case
    proof (cases "err = NMBS_ERROR_NONE")
      case True
      have "returns (recv m 1 w') (\<lambda>(err, n', w'). returns
          (if err \<noteq> NMBS_ERROR_NONE then Some (err, out, n', w') else ?count n' w') ?Q)"
        by (rule recv_rule) (use 1 r True assms count in
          \<open>auto simp: moved_def answered_def inst_ok_wf dest: configD(1) simp del: returns_bind\<close>)
      then show ?thesis using True r by (simp add: case_prod_unfold)
    qed (use 1 r in \<open>simp add: answered_def inst_ok_wf\<close>)
  qed
  then show ?thesis
    unfolding recv_read_discrete_res_def returns_bind by (simp only: case_prod_unfold)
qed

section \<open>Requests\<close>

lemma msg_state_req_returns:
  assumes "rtu_conf rd wr (platform n)" "wf_nmbs n" "wok w"
  obtains b w' where "msg_state_req n fc w = Some (begun n fc b, w')" "length b = 260" "wok w'"
proof -
  have "unat (260 :: u16) \<le> length (mbuf n)" using assms(2) by (simp add: wf_nmbs_def)
  from rd_returns [OF assms(3) this, of 0 "conf_arg (platform n)"]
  obtain ret b w' where r: "rd (Some (mbuf n)) 260 0 (conf_arg (platform n)) w = Some (ret, Some b, w')"
      "wok w'" "length b = 260"
    using assms(2) by (auto elim!: returnsE simp: wf_nmbs_def)
  show thesis
    by (rule that [OF msg_state_req_begun [OF assms(1) r(1)] r(3,2)])
qed

lemma send_msg_returns:
  assumes "rtu_conf rd wr (platform n)" "length b = 260" "length bs \<le> 256" "wok w"
  shows "returns (send_msg (emit (begun n fc b) bs) w) (\<lambda>(err, n', w'). wok w' \<and>
    n' = emit (begun n fc b) (bs @ crc_bytes bs) \<and> \<not> nmbs_error_is_exception err)"
proof -
  have u: "unat (of_nat (length bs + 2) :: u16) = length bs + 2"
    using assms(3) by (intro unat_of_nat_less) simp
  have "unat (of_nat (length bs + 2) :: u16) \<le> length (bs @ crc_bytes bs @ drop (length bs + 2) b)"
    unfolding u using assms(2,3) by simp
  from wr_returns [OF assms(4) this, of "byte_timeout_ms n" "conf_arg (platform n)"] show ?thesis
    by (subst send_msg_begun [OF assms(1-3)], unfold returns_bind, elim returns_mono)
      (auto simp: transport_result_def)
qed

lemma read_registers_returns:
  assumes "rtu_conf rd wr (platform n)" "wf_nmbs n" "wok w"
    and out: "\<forall>xs. out = Some xs \<longrightarrow> 125 \<le> length xs"
  shows "returns (read_registers n fc address quantity out w) (\<lambda>(err, out', n', w'). out_length out out' \<and>
    answered wok n (dest_address_rtu n) fc (\<lambda>frame. \<exists>data. length data = 2 * unat quantity \<and>
      frame = rtu_frame (dest_address_rtu n) fc (of_nat (length data) # data) \<and>
      out' = map_option (\<lambda>xs. words_of data @ drop (unat quantity) xs) out) (err, n', w'))"
    (is "returns _ ?Q")
proof -
  obtain b w1 where b: "msg_state_req n fc w = Some (begun n fc b, w1)" "length b = 260" "wok w1"
    using msg_state_req_returns [OF assms(1-3)] .
  let ?bs = "[dest_address_rtu n, fc] @ be16 address @ be16 quantity"
  let ?n = "emit (begun n fc b) (?bs @ crc_bytes ?bs)"
  have res: "returns (recv_read_registers_res ?n quantity out w') ?Q" if "wok w'" for w'
    using read_registers_res_returns [of ?n w' out quantity] that assms b(2)
    by (simp add: answered_def case_prod_unfold)
  have "returns (send_msg (emit (begun n fc b) ?bs) w1) (\<lambda>(err, n', w'). returns
      (if err \<noteq> NMBS_ERROR_NONE then Some (err, out, n', w')
       else recv_read_registers_res n' quantity out w') ?Q)"
    by (rule returns_mono [OF send_msg_returns [OF assms(1) b(2) _ b(3)]])
      (use res b(2) in \<open>auto simp: answered_def simp del: append.simps\<close>)
  then show ?thesis
    using assms(2,3) b put_req_header_begun [OF assms(1) b(2), of fc 4]
    by (simp add: read_registers_def answered_def case_prod_unfold)
qed

lemma read_discrete_returns:
  assumes "rtu_conf rd wr (platform n)" "wf_nmbs n" "wok w"
    and out: "\<forall>xs. out = Some xs \<longrightarrow> 250 \<le> length xs"
  shows "returns (read_discrete n fc address quantity out w) (\<lambda>(err, out', n', w'). out_length out out' \<and>
    answered wok n (dest_address_rtu n) fc (\<lambda>frame. \<exists>data. length data \<le> 250 \<and>
      frame = rtu_frame (dest_address_rtu n) fc (of_nat (length data) # data) \<and>
      out' = map_option (\<lambda>xs. data @ drop (length data) xs) out) (err, n', w'))"
    (is "returns _ ?Q")
proof -
  obtain b w1 where b: "msg_state_req n fc w = Some (begun n fc b, w1)" "length b = 260" "wok w1"
    using msg_state_req_returns [OF assms(1-3)] .
  let ?bs = "[dest_address_rtu n, fc] @ be16 address @ be16 quantity"
  let ?n = "emit (begun n fc b) (?bs @ crc_bytes ?bs)"
  have res: "returns (recv_read_discrete_res ?n out w') ?Q" if "wok w'" for w'
    using read_discrete_res_returns [of ?n w' out] that assms b(2)
    by (simp add: answered_def case_prod_unfold)
  have "returns (send_msg (emit (begun n fc b) ?bs) w1) (\<lambda>(err, n', w'). returns
      (if err \<noteq> NMBS_ERROR_NONE then Some (err, out, n', w')
       else recv_read_discrete_res n' out w') ?Q)"
    by (rule returns_mono [OF send_msg_returns [OF assms(1) b(2) _ b(3)]])
      (use res b(2) in \<open>auto simp: answered_def simp del: append.simps\<close>)
  then show ?thesis
    using assms(2,3) b put_req_header_begun [OF assms(1) b(2), of fc 4]
    by (simp add: read_discrete_def answered_def case_prod_unfold)
qed

text \<open>The common end of the four write requests, from the complete PDU on.\<close>

lemma finish_write_returns:
  assumes "rtu_conf rd wr (platform n)" "wf_nmbs n" "wok w" "length b = 260" "length data \<le> 254"
  shows "returns (do {
      (err, n', w') \<leftarrow> send_msg (emit (begun n fc b) ([dest_address_rtu n, fc] @ data)) w;
      if err \<noteq> NMBS_ERROR_NONE then Some (err, n', w')
      else if \<not> broadcast (msg n') then recv_write_single_register_res n' a v w'
      else Some (NMBS_ERROR_NONE, n', w') })
    (answered wok n (dest_address_rtu n) fc (written (dest_address_rtu n) fc data a v))"
    (is "returns _ ?Q")
proof -
  let ?bs = "[dest_address_rtu n, fc] @ data"
  let ?n = "emit (begun n fc b) (?bs @ crc_bytes ?bs)"
  have seen: "seen ?n = rtu_frame (dest_address_rtu n) fc data" "inst_ok ?n"
    using seen_emit_begun [OF assms(4), of "?bs @ crc_bytes ?bs" n fc] assms(5)
    by (simp_all add: rtu_frame_def)
  have res: "returns (recv_write_single_register_res ?n a v w') ?Q"
    if "wok w'" "dest_address_rtu n \<noteq> 0" for w'
    by (rule returns_mono [OF echo_returns])
      (use that assms inst_ok_wf [OF seen(2)] in
        \<open>auto simp: answered_def written_def NMBS_BROADCAST_ADDRESS_def\<close>)
  show ?thesis
    unfolding returns_bind
    by (rule returns_mono [OF send_msg_returns [OF assms(1,4) _ assms(3)]])
      (use assms(5) res seen inst_ok_wf [OF seen(2)] in
        \<open>auto simp: answered_def written_def NMBS_BROADCAST_ADDRESS_def simp del: append.simps\<close>)
qed

lemma write_single_returns:
  assumes "rtu_conf rd wr (platform n)" "wf_nmbs n" "wok w"
  shows "returns (nmbs_write_single_register n address v w)
      (answered wok n (dest_address_rtu n) 6 (written (dest_address_rtu n) 6 (be16 address @ be16 v) address v))"
    and "returns (nmbs_write_single_coil n address on w)
      (answered wok n (dest_address_rtu n) 5 (written (dest_address_rtu n) 5
        (be16 address @ be16 (if on then 0xFF00 else 0)) address (if on then 0xFF00 else 0)))"
proof -
  obtain b w1 where b: "msg_state_req n 6 w = Some (begun n 6 b, w1)" "length b = 260" "wok w1"
    using msg_state_req_returns [OF assms] .
  show "returns (nmbs_write_single_register n address v w)
      (answered wok n (dest_address_rtu n) 6 (written (dest_address_rtu n) 6 (be16 address @ be16 v) address v))"
    using b put_req_header_begun [OF assms(1) b(2), of 6 4]
      finish_write_returns [OF assms(1,2) b(3,2), of "be16 address @ be16 v" 6 address v]
    by (simp add: nmbs_write_single_register_def)
next
  let ?v = "if on then 0xFF00 else 0 :: u16"
  obtain b w1 where b: "msg_state_req n 5 w = Some (begun n 5 b, w1)" "length b = 260" "wok w1"
    using msg_state_req_returns [OF assms] .
  show "returns (nmbs_write_single_coil n address on w)
      (answered wok n (dest_address_rtu n) 5 (written (dest_address_rtu n) 5 (be16 address @ be16 ?v) address ?v))"
    using b put_req_header_begun [OF assms(1) b(2), of 5 4]
      finish_write_returns [OF assms(1,2) b(3,2), of "be16 address @ be16 ?v" 5 address ?v]
    unfolding nmbs_write_single_coil_def Let_def echo_parsers by (simp split del: if_split)
qed

lemma write_multiple_registers_returns:
  assumes "rtu_conf rd wr (platform n)" "wf_nmbs n" "wok w" "unat quantity \<le> length registers"
  shows "returns (nmbs_write_multiple_registers n address quantity registers w)
    (answered wok n (dest_address_rtu n) 16 (written (dest_address_rtu n) 16
      (be16 address @ be16 quantity @ ucast (quantity * 2) # concat (map be16 (take (unat quantity) registers)))
      address quantity))"
proof (cases "quantity < 1 \<or> quantity > 0x007B \<or> beyond_address_space address quantity")
  case True
  then show ?thesis
    using assms by (auto simp: nmbs_write_multiple_registers_def answered_def)
next
  case False
  obtain b w1 where b: "msg_state_req n 16 w = Some (begun n 16 b, w1)" "length b = 260" "wok w1"
    using msg_state_req_returns [OF assms(1-3)] .
  have q: "unat quantity \<le> 123" using False by (simp add: word_less_nat_alt not_less)
  let ?regs = "concat (map be16 (take (unat quantity) registers))"
  let ?hd = "[dest_address_rtu n, 16] @ be16 address @ be16 quantity @ [ucast (quantity * 2)]"
  have regs: "put_words_loop (unat quantity) 0 (emit (begun n 16 b) ?hd) registers =
      Some (emit (begun n 16 b) (?hd @ ?regs))"
    using q b(2) assms(4)
    by (subst put_words_loop_emit) (simp_all add: room_def cursor_emit min_absorb2)
  show ?thesis
    using False b regs q assms(4) put_req_header_begun [OF assms(1) b(2), of 16]
      finish_write_returns [OF assms(1,2) b(3,2),
        of "be16 address @ be16 quantity @ ucast (quantity * 2) # ?regs" 16 address quantity]
    by (simp add: nmbs_write_multiple_registers_def Let_def min_absorb2)
qed

lemma write_multiple_coils_returns:
  assumes "rtu_conf rd wr (platform n)" "wf_nmbs n" "wok w" "(unat quantity + 7) div 8 \<le> length coils"
  shows "returns (nmbs_write_multiple_coils n address quantity coils w)
    (answered wok n (dest_address_rtu n) 15 (written (dest_address_rtu n) 15
      (be16 address @ be16 quantity @ ucast ((quantity + 7) div 8) # take ((unat quantity + 7) div 8) coils)
      address quantity))"
proof (cases "quantity < 1 \<or> quantity > 0x07B0 \<or> beyond_address_space address quantity")
  case True
  then show ?thesis
    using assms by (auto simp: nmbs_write_multiple_coils_def answered_def)
next
  case False
  obtain b w1 where b: "msg_state_req n 15 w = Some (begun n 15 b, w1)" "length b = 260" "wok w1"
    using msg_state_req_returns [OF assms(1-3)] .
  have q: "\<not> 0x07B0 < quantity" using False by simp
  let ?k = "(unat quantity + 7) div 8"
  let ?hd = "[dest_address_rtu n, 15] @ be16 address @ be16 quantity @ [ucast ((quantity + 7) div 8)]"
  have bits: "put_bytes_loop (unat (ucast ((quantity + 7) div 8) :: u8)) 0 (emit (begun n 15 b) ?hd) coils =
      Some (emit (begun n 15 b) (?hd @ take ?k coils))"
    using coil_bytes [OF q] b(2) assms(4)
    by (subst put_bytes_loop_emit) (simp_all add: room_def cursor_emit min_absorb2)
  show ?thesis
    using False b bits coil_bytes [OF q] assms(4) put_req_header_begun [OF assms(1) b(2), of 15]
      finish_write_returns [OF assms(1,2) b(3,2),
        of "be16 address @ be16 quantity @ ucast ((quantity + 7) div 8) # take ?k coils" 15 address quantity]
    unfolding nmbs_write_multiple_coils_def echo_parsers by (simp add: Let_def min_absorb2)
qed

lemma read_write_registers_returns:
  assumes "rtu_conf rd wr (platform n)" "wf_nmbs n" "wok w" "unat write_quantity \<le> length registers"
    and out: "\<forall>xs. out = Some xs \<longrightarrow> 125 \<le> length xs"
  shows "returns (nmbs_read_write_registers n read_address read_quantity out write_address write_quantity registers w)
    (\<lambda>(err, out', n', w'). out_length out out' \<and>
    answered wok n (dest_address_rtu n) 23 (\<lambda>frame. dest_address_rtu n \<noteq> NMBS_BROADCAST_ADDRESS \<longrightarrow>
      (\<exists>data. length data = 2 * unat read_quantity \<and>
      frame = rtu_frame (dest_address_rtu n) 23 (of_nat (length data) # data) \<and>
      out' = map_option (\<lambda>xs. words_of data @ drop (unat read_quantity) xs) out)) (err, n', w'))"
    (is "returns _ ?Q")
proof (cases "read_quantity < 1 \<or> read_quantity > 0x007D \<or> beyond_address_space read_address read_quantity \<or>
    write_quantity < 1 \<or> write_quantity > 0x0079 \<or> beyond_address_space write_address write_quantity")
  case True
  then show ?thesis
    using assms by (auto simp: nmbs_read_write_registers_def answered_def)
next
  case False
  obtain b w1 where b: "msg_state_req n 23 w = Some (begun n 23 b, w1)" "length b = 260" "wok w1"
    using msg_state_req_returns [OF assms(1-3)] .
  have q: "unat write_quantity \<le> 121" using False by (simp add: word_less_nat_alt not_less)
  let ?regs = "concat (map be16 (take (unat write_quantity) registers))"
  let ?hd = "[dest_address_rtu n, 23] @ be16 read_address @ be16 read_quantity @ be16 write_address @
      be16 write_quantity @ [ucast (write_quantity * 2)]"
  let ?bs = "?hd @ ?regs"
  let ?n = "emit (begun n 23 b) (?bs @ crc_bytes ?bs)"
  have regs: "put_words_loop (unat write_quantity) 0 (emit (begun n 23 b) ?hd) registers =
      Some (emit (begun n 23 b) ?bs)"
    using q b(2) assms(4)
    by (subst put_words_loop_emit) (simp_all add: room_def cursor_emit min_absorb2)
  have wf: "inst_ok ?n"
    using seen_emit_begun [OF b(2), of "?bs @ crc_bytes ?bs" n 23] q assms(4) by (simp add: min_absorb2)
  have res: "returns (recv_read_registers_res ?n read_quantity out w') ?Q" if "wok w'" for w'
    by (rule returns_mono [OF read_registers_res_returns])
      (use that assms inst_ok_wf [OF wf] in \<open>auto simp: answered_def\<close>)
  have "returns (send_msg (emit (begun n 23 b) ?bs) w1) (\<lambda>(err, n', w'). returns
      (if err \<noteq> NMBS_ERROR_NONE then Some (err, out, n', w')
       else if \<not> broadcast (msg n') then recv_read_registers_res n' read_quantity out w'
       else Some (NMBS_ERROR_NONE, out, n', w')) ?Q)"
    by (rule returns_mono [OF send_msg_returns [OF assms(1) b(2) _ b(3)]])
      (use q assms(4) res inst_ok_wf [OF wf] in
        \<open>auto simp: answered_def NMBS_BROADCAST_ADDRESS_def min_absorb2 simp del: append.simps append_assoc\<close>)
  then show ?thesis
    using False b regs q assms(4) put_req_header_begun [OF assms(1) b(2), of 23]
    by (simp add: nmbs_read_write_registers_def Let_def min_absorb2 case_prod_unfold)
qed

end

end
