(* ===== verification/Driver_Serial.thy ===== *)
theory Driver_Serial
  imports Byte_Fifo Modbus_Client
begin

text \<open>
  The serial half of \<^verbatim>\<open>serial_driver/serial_modbus_main.c\<close>: the receive callback, which fills
  the ring, and \<open>read_serial\<close> and \<open>write_serial\<close>, the platform functions of the Modbus client.
  The kernel services they call are the parameter \<open>k\<close>.  They act on an environment \<open>'e\<close>: the
  clock, what is on its way on the wire, the units on the bus.  The receive callback runs in
  another context, for which \<open>read_serial\<close> leaves room in \<^verbatim>\<open>msleep\<close>: here \<open>msleep\<close> returns the
  buffers that the serdev core delivers meanwhile.  A callback in the middle of a ring
  operation is the subject of \<open>fifo_step\<close> in \<open>Byte_Fifo\<close>.
\<close>

section \<open>State\<close>

record 'e kernel =
  ktime_get_ns :: "'e \<Rightarrow> u64 \<times> 'e"
  msleep :: "u32 \<Rightarrow> 'e \<Rightarrow> u8 list list \<times> 'e"
  serdev_device_write_buf :: "void_ptr \<Rightarrow> u8 list \<Rightarrow> 'e \<Rightarrow> i32 \<times> 'e"

text \<open>
  The global \<^verbatim>\<open>rx_fifo\<close>, the fields of the global \<^verbatim>\<open>modbus_dev\<close> that the driver uses (\<open>None\<close> is
  NULL, \<open>dev_fifo\<close> says whether the fifo pointer is set), and the environment.
\<close>

record 'e driver =
  rx_fifo :: byte_fifo_t
  dev_fifo :: bool
  dev_serdev :: "void_ptr option"
  env :: 'e

definition BUFFER_LENGTH :: u32 where "BUFFER_LENGTH = 256"
definition UINT16_MAX :: "'a::len word" where "UINT16_MAX = 65535"

section \<open>Receive callback\<close>

text \<open>The parameter \<^verbatim>\<open>size\<close> (\<open>n_bytes\<close>) is narrowed to the \<^verbatim>\<open>unsigned int\<close> of \<open>byte_fifo_write\<close>, and to \<^verbatim>\<open>int\<close> for the result.\<close>

definition serdev_serial_recv ::
  "u8 list option \<Rightarrow> u64 \<Rightarrow> 'e driver \<Rightarrow> (i32 \<times> 'e driver) option" where
  "serdev_serial_recv buffer n_bytes w = do {
     (res, fifo) \<leftarrow> byte_fifo_write (Some (rx_fifo w)) buffer (ucast n_bytes);
     f \<leftarrow> fifo;
     Some (ucast n_bytes, w\<lparr>rx_fifo := f\<rparr>)
   }"

fun deliver :: "u8 list list \<Rightarrow> 'e driver \<Rightarrow> 'e driver option" where
  "deliver [] w = Some w"
| "deliver (b # bs) w = do {
     (_, w) \<leftarrow> serdev_serial_recv (Some b) (of_nat (length b)) w;
     deliver bs w
   }"

definition msleep_10 :: "'e kernel \<Rightarrow> 'e driver \<Rightarrow> 'e driver option" where
  "msleep_10 k w = (let (buffers, e) = msleep k 10 (env w) in deliver buffers (w\<lparr>env := e\<rparr>))"

definition ktime :: "'e kernel \<Rightarrow> 'e driver \<Rightarrow> u64 \<times> 'e driver" where
  "ktime k w = (let (t, e) = ktime_get_ns k (env w) in (t, w\<lparr>env := e\<rparr>))"

section \<open>Platform functions\<close>

text \<open>
  The loop of \<open>read_serial\<close> on \<open>buf\<close>, \<open>read_bytes\<close> and the driver.  Its condition reads the clock
  only when bytes are missing.  The flag is true for the early \<^verbatim>\<open>return -EFAULT\<close>.
\<close>

partial_function (option) read_serial_loop ::
  "'e kernel \<Rightarrow> u16 \<Rightarrow> u64 \<Rightarrow> u8 list \<times> u16 \<times> 'e driver \<Rightarrow> (bool \<times> u8 list \<times> u16 \<times> 'e driver) option" where
  "read_serial_loop k count timestamp_timeout vars = (case vars of (buf, read_bytes, w) \<Rightarrow>
     if read_bytes < count then
       (case ktime k w of (now, w) \<Rightarrow>
          if now < timestamp_timeout then do {
            (res, fifo, buffer) \<leftarrow> byte_fifo_read (Some (rx_fifo w)) (Some buf) (ucast (count - read_bytes));
            f \<leftarrow> fifo;
            buf \<leftarrow> buffer;
            let w = w\<lparr>rx_fifo := f\<rparr>;
            if 0 \<le>s res then do {
              w \<leftarrow> msleep_10 k w;
              read_serial_loop k count timestamp_timeout (buf, read_bytes + res, w)
            }
            else Some (True, buf, read_bytes, w)
          }
          else Some (False, buf, read_bytes, w))
     else Some (False, buf, read_bytes, w))"

definition read_serial :: "'e kernel \<Rightarrow> 'e driver transport_read" where
  "read_serial k buf count timeout_ms arg w =
     (case buf of
        None \<Rightarrow> Some (- EFAULT, None, w)
      | Some b \<Rightarrow>
          if timeout_ms = 0 then do {
            (res, fifo) \<leftarrow> byte_fifo_reset (Some (rx_fifo w));
            f \<leftarrow> fifo;
            Some (scast res, Some b, w\<lparr>rx_fifo := f\<rparr>)
          }
          else
            (case ktime k w of (timestamp_now, w) \<Rightarrow>
               let timeout_ns = (scast timeout_ms :: u64) * 1000000;
                   timestamp_timeout = timestamp_now + timeout_ns in do {
                 (failed, b, read_bytes, w) \<leftarrow> read_serial_loop k count timestamp_timeout (b, 0, w);
                 if failed then Some (- EFAULT, Some b, w)
                 else
                   (case ktime k w of (timestamp_stop, w) \<Rightarrow>
                      if timestamp_stop > timestamp_timeout then Some (- ETIMEDOUT, Some b, w)
                      else Some (ucast read_bytes, Some b, w))
               }))"

definition write_serial :: "'e kernel \<Rightarrow> 'e driver transport_write" where
  "write_serial k buf count timeout_ms arg w =
     (case dev_serdev w of
        None \<Rightarrow> Some (- EFAULT, w)
      | Some serdev \<Rightarrow>
          (case buf of
             None \<Rightarrow> Some (- EFAULT, w)
           | Some b \<Rightarrow> do {
               bytes \<leftarrow> buf_slice b 0 (unat count);
               let (status, e) = serdev_device_write_buf k serdev bytes (env w);
               Some (status, w\<lparr>env := e\<rparr>)
             }))"

definition init_modbus_client ::
  "'e kernel \<Rightarrow> 'e driver nmbs_t option \<Rightarrow> nmbs_error \<times> 'e driver nmbs_t option" where
  "init_modbus_client k nmbs = (
     let conf = nmbs_platform_conf_create\<lparr>transport := NMBS_TRANSPORT_RTU,
           conf_read := Some (read_serial k), conf_write := Some (write_serial k)\<rparr>;
         (status, n) = nmbs_client_create nmbs (Some conf) in
     if status \<noteq> NMBS_ERROR_NONE then (status, n)
     else (NMBS_ERROR_NONE,
       map_option (\<lambda>n. nmbs_set_read_timeout (nmbs_set_byte_timeout n 100) 1000) n))"

section \<open>A running kernel\<close>

text \<open>The ring is well-formed, with its 256 bytes, and the environment is in a good state.\<close>

definition driver_ok :: "('e \<Rightarrow> bool) \<Rightarrow> 'e driver \<Rightarrow> bool" where
  "driver_ok live w \<longleftrightarrow> fifo_inv (rx_fifo w) \<and> fifo_cap (rx_fifo w) = 256 \<and> live (env w)"

text \<open>
  What is assumed of the kernel: its calls keep the environment good, a delivered buffer has
  less than 2 GiB, and time passes, that is, a loop that polls the clock and sleeps in
  turn sees any given time go by after a number of rounds (\<open>wait\<close>).
\<close>

locale live_kernel =
  fixes k :: "'e kernel" and live :: "'e \<Rightarrow> bool" and wait :: "u64 \<Rightarrow> 'e \<Rightarrow> nat"
  assumes clock_live: "live e \<Longrightarrow> ktime_get_ns k e = (t, e') \<Longrightarrow> live e'"
    and sleep_live: "live e \<Longrightarrow> msleep k ms e = (bufs, e') \<Longrightarrow> live e' \<and> (\<forall>b\<in>set bufs. length b < 2 ^ 31)"
    and write_live: "live e \<Longrightarrow> serdev_device_write_buf k d bs e = (r, e') \<Longrightarrow> live e'"
    and time_passes: "live e \<Longrightarrow> ktime_get_ns k e = (t, e1) \<Longrightarrow> t < deadline \<Longrightarrow>
      msleep k 10 e1 = (bufs, e2) \<Longrightarrow> wait deadline e2 < wait deadline e"

lemma serdev_serial_recv_spec:
  assumes "fifo_inv (rx_fifo w)" "length b < 2 ^ 31"
  shows "returns (serdev_serial_recv (Some b) (of_nat (length b)) w) (\<lambda>(r, w'). \<exists>f. w' = w\<lparr>rx_fifo := f\<rparr> \<and>
    fifo_inv f \<and> fifo_cap f = fifo_cap (rx_fifo w) \<and>
    fifo_bytes f = lossy_push (fifo_cap f) (fifo_bytes (rx_fifo w)) b \<and> unat r = length b)"
proof -
  have n: "unat (ucast (of_nat (length b) :: u64) :: u32) = length b"
    using assms(2) by (simp add: unat_ucast unat_of_nat_less)
  have "returns (byte_fifo_write (Some (rx_fifo w)) (Some b) (ucast (of_nat (length b) :: u64))) (\<lambda>(r, f').
      \<exists>g. f' = Some g \<and> fifo_inv g \<and> fifo_cap g = fifo_cap (rx_fifo w) \<and>
      fifo_bytes g = lossy_push (fifo_cap (rx_fifo w)) (fifo_bytes (rx_fifo w)) b)"
    by (rule returns_mono [OF byte_fifo_write_spec [OF assms(1)]]) (use n assms(2) in auto)
  then show ?thesis
    unfolding serdev_serial_recv_def returns_bind
    by (elim returns_mono) (use n in \<open>auto intro!: exI\<close>)
qed

lemma deliver_spec:
  assumes "fifo_inv (rx_fifo w)" "\<forall>b\<in>set bs. length b < 2 ^ 31"
  shows "returns (deliver bs w) (\<lambda>w'. \<exists>f. w' = w\<lparr>rx_fifo := f\<rparr> \<and> fifo_inv f \<and>
    fifo_cap f = fifo_cap (rx_fifo w) \<and>
    fifo_bytes f = foldl (lossy_push (fifo_cap f)) (fifo_bytes (rx_fifo w)) bs)"
  using assms
proof (induction bs arbitrary: w)
  case Nil
  then show ?case by (auto intro: exI [of _ "rx_fifo w"])
next
  case (Cons b bs)
  show ?case
    unfolding deliver.simps returns_bind
  proof (rule returns_mono [OF serdev_serial_recv_spec])
    fix r assume "case r of (r, w') \<Rightarrow> \<exists>f. w' = w\<lparr>rx_fifo := f\<rparr> \<and> fifo_inv f \<and>
        fifo_cap f = fifo_cap (rx_fifo w) \<and>
        fifo_bytes f = lossy_push (fifo_cap f) (fifo_bytes (rx_fifo w)) b \<and> unat r = length b"
    then obtain x f where r: "r = (x, w\<lparr>rx_fifo := f\<rparr>)" and f: "fifo_inv f" "fifo_cap f = fifo_cap (rx_fifo w)"
        "fifo_bytes f = lossy_push (fifo_cap f) (fifo_bytes (rx_fifo w)) b"
      by (cases r) auto
    show "returns (case r of (_, w) \<Rightarrow> deliver bs w) (\<lambda>w'. \<exists>f. w' = w\<lparr>rx_fifo := f\<rparr> \<and> fifo_inv f \<and>
        fifo_cap f = fifo_cap (rx_fifo w) \<and>
        fifo_bytes f = foldl (lossy_push (fifo_cap f)) (fifo_bytes (rx_fifo w)) (b # bs))"
      using Cons.IH [of "w\<lparr>rx_fifo := f\<rparr>"] Cons.prems(2) f r by (auto elim!: returns_mono)
  qed (use Cons.prems in auto)
qed

context live_kernel
begin

lemma msleep_returns:
  assumes "driver_ok live w"
  shows "returns (msleep_10 k w) (\<lambda>w'. driver_ok live w' \<and> dev_serdev w' = dev_serdev w \<and>
    env w' = snd (msleep k 10 (env w)))"
proof -
  obtain bufs e where e: "msleep k 10 (env w) = (bufs, e)" by fastforce
  show ?thesis
    using deliver_spec [of "w\<lparr>env := e\<rparr>" bufs] sleep_live [OF _ e] assms
    by (auto simp: msleep_10_def e driver_ok_def elim!: returns_mono)
qed

lemma ktime_ok: "driver_ok live w \<Longrightarrow> ktime k w = (t, w') \<Longrightarrow> driver_ok live w' \<and> dev_serdev w' = dev_serdev w"
  using clock_live [of "env w"] by (auto simp: ktime_def driver_ok_def split: prod.splits)

text \<open>The loop ends, whatever arrives, and never stores more than it was asked for.\<close>

lemma read_serial_loop_returns:
  assumes "driver_ok live w" "unat count \<le> length buf" "read_bytes \<le> count"
  shows "returns (read_serial_loop k count deadline (buf, read_bytes, w)) (\<lambda>(failed, buf', read_bytes', w').
    \<not> failed \<and> length buf' = length buf \<and> read_bytes' \<le> count \<and> driver_ok live w' \<and> dev_serdev w' = dev_serdev w)"
  using assms
proof (induction "wait deadline (env w)" arbitrary: w buf read_bytes rule: less_induct)
  case less
  obtain now w1 where t: "ktime k w = (now, w1)" by fastforce
  then have w1: "driver_ok live w1" "dev_serdev w1 = dev_serdev w" "rx_fifo w1 = rx_fifo w"
    using ktime_ok [OF less.prems(1) t] by (auto simp: ktime_def split: prod.splits)
  show ?case
  proof (cases "read_bytes < count \<and> now < deadline")
    case False
    then show ?thesis
      using less.prems t w1 by (subst read_serial_loop.simps) auto
  next
    case True
    let ?left = "count - read_bytes"
    have left: "unat ?left = unat count - unat read_bytes"
      using True by (simp add: unat_sub less_imp_le)
    obtain res g buf' where rd: "byte_fifo_read (Some (rx_fifo w1)) (Some buf) (ucast ?left) = Some (res, Some g, Some buf')"
      and g: "fifo_inv g" "fifo_cap g = 256" "length buf' = length buf" "unat res \<le> unat ?left" "unat res \<le> 256"
    proof -
      have f: "fifo_inv (rx_fifo w1)" "fifo_cap (rx_fifo w1) = 256" "length (fifo_bytes (rx_fifo w1)) \<le> 256"
        using w1(1) fifo.bound [of "Some (rx_fifo w1)"]
        by (auto simp: driver_ok_def fifo_view_defs)
      have u: "unat (ucast ?left :: u32) = unat ?left"
        using unsigned_less [of ?left, where ?'a = nat] by (simp add: unat_ucast)
      have "returns (byte_fifo_read (Some (rx_fifo w1)) (Some buf) (ucast ?left)) (\<lambda>(r, f', buf').
          \<exists>g b. f' = Some g \<and> buf' = Some b \<and> fifo_inv g \<and> fifo_cap g = 256 \<and> length b = length buf \<and>
            unat r \<le> unat ?left \<and> unat r \<le> 256)"
        by (rule returns_mono [OF byte_fifo_read_spec [OF f(1)]])
          (use u left less.prems(2) f unsigned_less [of ?left, where ?'a = nat] in \<open>auto simp: Let_def\<close>)
      with that show thesis by (auto elim!: returnsE)
    qed
    have sum: "unat (read_bytes + res) = unat read_bytes + unat res"
    proof -
      have "unat read_bytes + unat res < 2 ^ 16"
        using g(4) left True unsigned_less [of count, where ?'a = nat]
        by (simp add: word_less_nat_alt) linarith
      then show ?thesis by (simp add: unat_word_ariths)
    qed
    have res: "0 \<le>s res"
      using sint_eq_uint_small [of res] g(5) by (simp add: word_sle_eq)
    let ?w = "w1\<lparr>rx_fifo := g\<rparr>"
    have ok: "driver_ok live ?w" using w1(1) g(1,2) by (simp add: driver_ok_def)
    have "returns (msleep_10 k ?w) (\<lambda>w2. returns (read_serial_loop k count deadline (buf', read_bytes + res, w2))
      (\<lambda>(failed, buf', read_bytes', w'). \<not> failed \<and> length buf' = length buf \<and> read_bytes' \<le> count \<and>
         driver_ok live w' \<and> dev_serdev w' = dev_serdev w))"
    proof (rule returns_mono [OF msleep_returns [OF ok]])
      fix w2 assume w2: "driver_ok live w2 \<and> dev_serdev w2 = dev_serdev ?w \<and> env w2 = snd (msleep k 10 (env ?w))"
      have "wait deadline (env w2) < wait deadline (env w)"
        using time_passes [of "env w" now "env w1" deadline "fst (msleep k 10 (env w1))" "env w2"]
          t True w2 less.prems(1) by (auto simp: ktime_def driver_ok_def split: prod.splits)
      from less.hyps [OF this, of buf' "read_bytes + res"] w2 less.prems(2) g(3,4) w1(2) sum left True
      show "returns (read_serial_loop k count deadline (buf', read_bytes + res, w2))
        (\<lambda>(failed, buf', read_bytes', w'). \<not> failed \<and> length buf' = length buf \<and> read_bytes' \<le> count \<and>
           driver_ok live w' \<and> dev_serdev w' = dev_serdev w)"
        by (auto simp: word_le_nat_alt word_less_nat_alt)
    qed
    then show ?thesis
      using True t rd res by (subst read_serial_loop.simps) (simp add: Let_def)
  qed
qed

lemma read_serial_returns:
  assumes "driver_ok live w" "unat count \<le> length buf"
  shows "returns (read_serial k (Some buf) count timeout a w)
    (\<lambda>(_, p, w'). driver_ok live w' \<and> (\<exists>b. p = Some b \<and> length b = length buf))"
proof (cases "timeout = 0")
  case True
  then show ?thesis
    using assms byte_fifo_reset_spec [of "rx_fifo w"]
    by (auto simp: read_serial_def driver_ok_def)
next
  case False
  obtain now w1 where t: "ktime k w = (now, w1)" by fastforce
  let ?d = "now + (scast timeout :: u64) * 1000000"
  have "returns (read_serial_loop k count ?d (buf, 0, w1)) (\<lambda>(failed, buf', read_bytes', w'). \<not> failed \<and>
      length buf' = length buf \<and> read_bytes' \<le> count \<and> driver_ok live w' \<and> dev_serdev w' = dev_serdev w1)"
    by (rule read_serial_loop_returns) (use ktime_ok [OF assms(1) t] assms(2) in simp_all)
  then show ?thesis
    unfolding read_serial_def using False t
    by (auto simp: Let_def split: prod.splits elim!: returns_mono dest: ktime_ok)
qed

lemma write_serial_returns:
  assumes "driver_ok live w" "unat count \<le> length buf"
  shows "returns (write_serial k (Some buf) count timeout a w) (\<lambda>(_, w'). driver_ok live w')"
  using assms write_live [of "env w"]
  by (auto simp: write_serial_def driver_ok_def split: option.splits prod.splits)

end

text \<open>So the driver's platform functions satisfy the contract of the Modbus library.\<close>

sublocale live_kernel \<subseteq> plat: total_platform "read_serial k" "write_serial k" "driver_ok live"
  by unfold_locales (rule read_serial_returns write_serial_returns; assumption)+

end
