(* ===== verification/Modbus_Exchange.thy ===== *)
theory Modbus_Exchange
  imports Modbus_Client
begin

text \<open>
  Transactions on a working half-duplex line: the platform delivers exactly the bytes that the
  addressed unit answers.  Here the outcome of a request is a function of the answer, in all
  cases, the malformed answers included.
\<close>

section \<open>The line\<close>

text \<open>
  \<open>idle\<close>: nothing is on its way; \<open>quiet\<close>: moreover no stale byte waits to be read; \<open>coming w bs\<close>: exactly \<open>bs\<close> is about to arrive; \<open>arrived w bs\<close>: the
  bytes \<open>bs\<close> wait to be read and no more follow.  \<open>answer w frame\<close> is what the units on the line
  send in reply to \<open>frame\<close>.  The first byte is waited for with the read timeout, the others
  with the byte timeout.
\<close>

locale half_duplex_line =
  fixes rd :: "'w transport_read" and wr :: "'w transport_write"
    and idle quiet :: "'w \<Rightarrow> bool" and coming :: "'w \<Rightarrow> u8 list \<Rightarrow> bool" and arrived :: "'w \<Rightarrow> u8 list \<Rightarrow> bool"
    and answer :: "'w \<Rightarrow> u8 list \<Rightarrow> u8 list" and read_to byte_to :: i32
  assumes flush: "idle w \<Longrightarrow> length buf = 260 \<Longrightarrow> \<exists>ret b w'. rd (Some buf) 260 0 a w = Some (ret, Some b, w') \<and>
      length b = 260 \<and> quiet w' \<and> answer w' = answer w"
    and send: "quiet w \<Longrightarrow> 0 < unat count \<Longrightarrow> unat count \<le> length buf \<Longrightarrow> answer w (take (unat count) buf) \<noteq> [] \<Longrightarrow>
      \<exists>w'. wr (Some buf) count byte_to a w = Some (ucast count, w') \<and> coming w' (answer w (take (unat count) buf))"
    and first: "coming w (x # bs) \<Longrightarrow> buf \<noteq> [] \<Longrightarrow>
      \<exists>w'. rd (Some buf) 1 read_to a w = Some (1, Some (x # tl buf), w') \<and> arrived w' bs"
    and more: "arrived w bs \<Longrightarrow> 0 < unat count \<Longrightarrow> unat count \<le> length bs \<Longrightarrow> unat count \<le> length buf \<Longrightarrow>
      \<exists>w'. rd (Some buf) count byte_to a w =
        Some (ucast count, Some (take (unat count) bs @ drop (unat count) buf), w') \<and> arrived w' (drop (unat count) bs)"

lemma msg_state_reset_simps [simp]:
  "byte_timeout_ms (msg_state_reset n) = byte_timeout_ms n" "cursor (msg_state_reset n) = 0"
  "mbuf (msg_state_reset n) = mbuf n"
  by (simp_all add: msg_state_reset_def msg_buf_reset_def)

section \<open>Bytes that the buffer holds ahead of the cursor\<close>

definition holds :: "'w nmbs_t \<Rightarrow> u8 list \<Rightarrow> bool" where
  "holds n xs \<longleftrightarrow> inst_ok n \<and> take (cursor n + length xs) (mbuf n) = seen n @ xs \<and> cursor n + length xs \<le> 260"

lemma moved_holds:
  assumes "moved n (advance n k) xs" "holds n ys" "length xs \<le> length ys"
  shows "xs = take (length xs) ys" and "holds (advance n k) (drop (length xs) ys)"
proof -
  have n: "inst_ok n" "length (mbuf n) = 260" "cursor n \<le> 260" "length (seen n) = cursor n"
      "take (cursor n + length ys) (mbuf n) = seen n @ ys" "cursor n + length ys \<le> 260"
    using assms(2) by (auto simp: holds_def inst_ok_def wf_nmbs_def seen_def)
  have m: "inst_ok (advance n k)" "seen (advance n k) = seen n @ xs"
    using assms(1) by (simp_all add: moved_def)
  then have c: "cursor (advance n k) = cursor n + length xs"
    using n(4) length_seen [OF m(1)] by simp
  have "take (cursor n + length xs) (take (cursor n + length ys) (mbuf n)) = seen n @ xs"
    using m(2) c assms(3) by (simp add: seen_def min_absorb1)
  then show xs: "xs = take (length xs) ys"
    unfolding n(5) using n(4) by simp
  have "take (cursor n + length ys) (mbuf n) = (seen n @ xs) @ drop (length xs) ys"
    unfolding n(5) using xs by simp (metis append_take_drop_id xs)
  then show "holds (advance n k) (drop (length xs) ys)"
    using m c n(6) assms(3) by (simp add: holds_def)
qed

lemma holds_room: "holds n ys \<Longrightarrow> inst_ok n \<and> length (seen n) + length ys \<le> 260"
  using length_seen [of n] by (simp add: holds_def)

text \<open>A word loop that runs past the end of its array leaves the memory of the caller.\<close>

lemma get_words_loop_overflow:
  "inst_ok n \<Longrightarrow> length (seen n) + 2 * k \<le> 260 \<Longrightarrow> i \<le> length xs \<Longrightarrow> length xs < i + k \<Longrightarrow>
   get_words_loop k i n (Some xs) = None"
proof (induction k arbitrary: i n xs)
  case (Suc k)
  obtain x where x: "get_2 n = Some (x, advance n 2)" "inst_ok (advance n 2)"
      "length (seen (advance n 2)) = length (seen n) + 2"
  proof -
    have "returns (get_2 n) (\<lambda>(x, n'). n' = advance n 2 \<and> inst_ok n' \<and> length (seen n') = length (seen n) + 2)"
      by (rule get_2_rule [OF Suc.prems(1)]) (use Suc.prems(2) in \<open>auto simp: moved_def\<close>)
    with that show thesis by (auto elim!: returnsE)
  qed
  show ?case
  proof (cases "i < length xs")
    case True
    then show ?thesis
      using Suc.prems x Suc.IH [of "advance n 2" "i + 1" "xs[i := x]"] by (simp add: buf_set_def)
  next
    case False
    then show ?thesis using x by (simp add: buf_set_def)
  qed
qed simp

text \<open>What a client makes of the body and the checksum of a register response.\<close>

definition registers_verdict :: "u16 \<Rightarrow> u8 list \<Rightarrow> u8 list \<Rightarrow> nmbs_error" where
  "registers_verdict quantity body crc =
     (if crc \<noteq> crc_bytes body then NMBS_ERROR_CRC
      else if unat (body ! 2) \<noteq> unat quantity * 2 then NMBS_ERROR_INVALID_RESPONSE
      else NMBS_ERROR_NONE)"

context half_duplex_line
begin

text \<open>An instance in the middle of a transaction.\<close>

definition listening :: "'w nmbs_t \<Rightarrow> bool" where
  "listening n \<longleftrightarrow> rtu_conf rd wr (platform n) \<and> byte_timeout_ms n = byte_to \<and> read_timeout_ms n = read_to \<and>
     wf_nmbs n"

lemma listening_config: "config n' = config n \<Longrightarrow> listening n \<Longrightarrow> wf_nmbs n' \<Longrightarrow> listening n'"
  by (auto simp: listening_def dest: configD)

lemma recv_exact:
  assumes "listening n" "inst_ok n" "\<not> complete (msg n)" "arrived w bs"
    and "0 < unat count" "unat count \<le> length bs" "length (seen n) + unat count \<le> 260"
    and "\<And>b w'. length b = 260 \<Longrightarrow> moved n (set_buf n b) [] \<Longrightarrow> holds (set_buf n b) (take (unat count) bs) \<Longrightarrow>
      arrived w' (drop (unat count) bs) \<Longrightarrow> Q (NMBS_ERROR_NONE, set_buf n b, w')"
  shows "returns (recv n count w) Q"
proof -
  let ?win = "drop (cursor n) (mbuf n)"
  have n: "length (mbuf n) = 260" "cursor n \<le> 260" "length (seen n) = cursor n"
    using assms(2) length_seen [OF assms(2)] by (auto simp: inst_ok_def wf_nmbs_def)
  then have "unat count \<le> length ?win" using assms(7) by simp
  then obtain w' where w': "rd (Some ?win) count byte_to (conf_arg (platform n)) w =
        Some (ucast count, Some (take (unat count) bs @ drop (unat count) ?win), w')"
      "arrived w' (drop (unat count) bs)"
    using more [OF assms(4-6)] by blast
  let ?b = "take (cursor n) (mbuf n) @ take (unat count) bs @ drop (unat count) ?win"
  have b: "length ?b = 260" "take (cursor n) ?b = seen n"
    using n assms(6,7) by (simp_all add: seen_def)
  have "holds (set_buf n ?b) (take (unat count) bs)"
    using seen_set_buf [OF assms(2) b] n assms(6,7) by (simp add: holds_def min_absorb2 seen_def)
  moreover have "moved n (set_buf n ?b) []"
    using seen_set_buf [OF assms(2) b] by (simp add: moved_def)
  ultimately show ?thesis
    using assms(1,3) w' b(1) assms(8)
    by (simp add: recv_def platform_read_def listening_def rtu_conf_def transport_result_def)
qed

text \<open>The footer: the two bytes after the message decide.\<close>

lemma recv_msg_footer_exact:
  assumes "listening n" "inst_ok n" "\<not> complete (msg n)" "arrived w bs" "2 \<le> length bs" "length (seen n) + 2 \<le> 260"
  shows "returns (recv_msg_footer n w) (\<lambda>(err, n', w'). config n' = config n \<and> inst_ok n' \<and>
    arrived w' (drop 2 bs) \<and> seen n' = seen n @ take 2 bs \<and>
    err = (if take 2 bs = crc_bytes (seen n) then NMBS_ERROR_NONE else NMBS_ERROR_CRC))"
    (is "returns _ ?Q")
proof -
  let ?check = "\<lambda>n' w'. do {
      (recv_crc, n') \<leftarrow> get_2 n';
      if recv_crc \<noteq> swap16 (crc_loop (seen n) 0xFFFF) then Some (NMBS_ERROR_CRC, n', w')
      else Some (NMBS_ERROR_NONE, n', w') }"
  have "returns (recv n 2 w) (\<lambda>(err, n', w'). returns
      (if err \<noteq> NMBS_ERROR_NONE then Some (err, n', w') else ?check n' w') ?Q)"
  proof (rule recv_exact [OF assms(1-4)], goal_cases)
    case (4 b w')
    have "returns (?check (set_buf n b) w') ?Q"
      unfolding returns_bind
    proof (rule get_2_rule, goal_cases)
      case (3 h l)
      have "length [h, l] \<le> length (take (unat (2 :: u16)) bs)"
        using assms(5) by simp
      from moved_holds(1) [OF 3 4(3) this] have "[h, l] = take 2 bs"
        by (simp flip: numeral_2_eq_2)
      then show ?case
        using 3 4 crc_bytes_iff [of h l "seen n"] by (auto simp: moved_def)
    qed (use 4 assms(6) in \<open>simp_all add: moved_def\<close>)
    then show ?case by simp
  qed (use assms in simp_all)
  then show ?thesis
    using assms(1) platform_crc_seen [OF _ assms(2), of rd wr]
    by (simp add: recv_msg_footer_def listening_def rtu_conf_def case_prod_unfold)
qed

lemma recv_msg_header_exact:
  assumes "listening n" "coming w (u # f # bs)"
  shows "returns (recv_msg_header n w) (\<lambda>(err, first, n', w'). err = NMBS_ERROR_NONE \<and> config n' = config n \<and>
    inst_ok n' \<and> \<not> complete (msg n') \<and> arrived w' bs \<and> unit_id (msg n') = u \<and> msg_fc (msg n') = f \<and>
    seen n' = [u, f])"
    (is "returns _ ?Q")
proof -
  let ?n0 = "msg_state_reset (n\<lparr>byte_timeout_ms := read_timeout_ms n\<rparr>)"
  have n: "rtu_conf rd wr (platform n)" "byte_timeout_ms n = byte_to" "read_timeout_ms n = read_to"
      "length (mbuf n) = 260" "wf_nmbs n"
    using assms(1) by (simp_all add: listening_def wf_nmbs_def)
  have m0: "mbuf ?n0 = mbuf n" "cursor ?n0 = 0" "\<not> complete (msg ?n0)"
    by simp_all
  obtain w1 where w1: "rd (Some (mbuf n)) 1 read_to (conf_arg (platform n)) w = Some (1, Some (u # tl (mbuf n)), w1)"
      "arrived w1 (f # bs)"
    using first [OF assms(2), of "mbuf n"] n(4) by (metis list.size(3) zero_neq_numeral)
  let ?n1 = "(set_buf ?n0 (u # tl (mbuf n)))\<lparr>byte_timeout_ms := byte_to\<rparr>"
  have n1: "inst_ok ?n1" "seen ?n1 = []" "config ?n1 = config n" "mbuf ?n1 = u # tl (mbuf n)" "cursor ?n1 = 0"
      "\<not> complete (msg ?n1)"
    using n m0 by (simp_all add: inst_ok_def seen_def) (metis config_byte_timeout(3) n(2))
  have first_byte: "recv ?n0 1 w = Some (NMBS_ERROR_NONE, set_buf ?n0 (u # tl (mbuf n)), w1)"
    using n m0 w1 by (simp add: recv_def platform_read_def rtu_conf_def transport_result_def)
  let ?n2 = "set_unit_id (advance ?n1 1) u"
  have get: "get_1 ?n1 = Some (u, advance ?n1 1)"
    using n1 by (simp add: get_1_def buf_get_def)
  have n2: "inst_ok ?n2" "seen ?n2 = [u]" "config ?n2 = config n" "\<not> complete (msg ?n2)" "unit_id (msg ?n2) = u"
    using seen_advance [OF n1(1), of 1] n1 by simp_all
  have "listening ?n2"
    using listening_config [OF n2(3) assms(1) inst_ok_wf [OF n2(1)]] .
  then have "returns (recv ?n2 1 w1) (\<lambda>(err, n', w'). returns
      (if err \<noteq> NMBS_ERROR_NONE then Some (err, True, n', w')
       else do { (fc, n') \<leftarrow> get_1 n'; Some (NMBS_ERROR_NONE, True, set_fc n' fc, w') }) ?Q)"
  proof (rule recv_exact [OF _ n2(1,4) w1(2)], goal_cases)
    case (4 b w')
    have "returns (get_1 (set_buf ?n2 b)) (\<lambda>(fc, n'). ?Q (NMBS_ERROR_NONE, True, set_fc n' fc, w'))"
    proof (rule get_1_rule, goal_cases)
      case (3 x)
      then have "[x] = take 1 [f]" using moved_holds(1) [OF 3 4(3)] by simp
      then show ?case using 3 4 n2 by (simp add: moved_def)
    qed (use 4 n2 in \<open>simp_all add: moved_def\<close>)
    then show ?case by (simp add: case_prod_unfold)
  qed (use n2 in simp_all)
  then show ?thesis
    using n first_byte get by (simp add: recv_msg_header_def rtu_conf_def Let_def case_prod_unfold)
qed

text \<open>The response header, on the three kinds of answer.\<close>

lemma recv_res_header_exact:
  assumes "listening n" "coming w (unit_id (msg n) # msg_fc (msg n) # bs)"
  shows "returns (recv_res_header n w) (\<lambda>(err, n', w'). err = NMBS_ERROR_NONE \<and> config n' = config n \<and>
    inst_ok n' \<and> \<not> complete (msg n') \<and> arrived w' bs \<and> seen n' = [unit_id (msg n), msg_fc (msg n)])"
proof -
  have "transport (platform n) = 1" using assms(1) by (simp add: listening_def rtu_conf_def)
  then show ?thesis
    unfolding recv_res_header_def Let_def returns_bind
    by (intro returns_mono [OF recv_msg_header_exact [OF assms]]) (auto simp: config_def)
qed

lemma recv_res_header_wrong_unit:
  assumes "listening n" "coming w (u # f # bs)" "u \<noteq> unit_id (msg n)"
  shows "returns (recv_res_header n w) (\<lambda>(err, n', w'). err = NMBS_ERROR_INVALID_UNIT_ID \<and> config n' = config n)"
proof -
  have "transport (platform n) = 1" using assms(1) by (simp add: listening_def rtu_conf_def)
  then show ?thesis
    unfolding recv_res_header_def Let_def returns_bind
    by (intro returns_mono [OF recv_msg_header_exact [OF assms(1,2)]]) (use assms(3) in \<open>auto simp: config_def\<close>)
qed

lemma recv_res_header_exception:
  assumes "listening n" "coming w (rtu_frame (unit_id (msg n)) (msg_fc (msg n) + 0x80) [code])"
    and "msg_fc (msg n) < 0x80" "1 \<le> code" "code \<le> 4"
  shows "returns (recv_res_header n w) (\<lambda>(err, n', w'). err = nmbs_error_of_exception code \<and>
    config n' = config n \<and> wf_nmbs n' \<and> arrived w' [])"
    (is "returns _ ?Q")
proof -
  let ?u = "unit_id (msg n)" and ?f = "msg_fc (msg n) + 0x80"
  let ?crc = "crc_bytes [?u, ?f, code]"
  have tr: "transport (platform n) = 1" using assms(1) by (simp add: listening_def rtu_conf_def)
  have f: "uint ?f - 0x80 = uint (msg_fc (msg n))" "?f \<noteq> msg_fc (msg n)"
    using assms(3) by (simp_all add: word_less_alt uint_word_ariths)
  have code: "\<not> code < 1" "\<not> 4 < code" using leD [OF assms(4)] leD [OF assms(5)] .
  have frame: "rtu_frame ?u ?f [code] = ?u # ?f # code # ?crc" by (simp add: rtu_frame_def)
  have footer: "returns (do {
      (err, n', w') \<leftarrow> recv_msg_footer m w';
      if err \<noteq> NMBS_ERROR_NONE then Some (err, n', w')
      else if code < 1 \<or> code > 4 then Some (NMBS_ERROR_INVALID_RESPONSE, n', w')
      else Some (nmbs_error_of_exception code, n', w') }) ?Q"
    if m: "inst_ok m" "\<not> complete (msg m)" "config m = config n" "arrived w' ?crc" "seen m = [?u, ?f, code]" for m w'
    unfolding returns_bind
    by (rule returns_mono [OF recv_msg_footer_exact [OF listening_config [OF m(3) assms(1) inst_ok_wf [OF m(1)]] m(1,2,4)]])
      (use m code in \<open>auto simp: inst_ok_wf\<close>)
  have exc: "returns (recv m 1 w') (\<lambda>(err, n', w'). returns
      (if err \<noteq> NMBS_ERROR_NONE then Some (err, n', w')
       else do { (exception, n') \<leftarrow> get_1 n';
         (err, n', w') \<leftarrow> recv_msg_footer n' w';
         if err \<noteq> NMBS_ERROR_NONE then Some (err, n', w')
         else if exception < 1 \<or> exception > 4 then Some (NMBS_ERROR_INVALID_RESPONSE, n', w')
         else Some (nmbs_error_of_exception exception, n', w') }) ?Q)"
    if m: "inst_ok m" "\<not> complete (msg m)" "config m = config n" "arrived w' (code # ?crc)" "seen m = [?u, ?f]" for m w'
  proof (rule recv_exact [OF listening_config [OF m(3) assms(1) inst_ok_wf [OF m(1)]] m(1,2,4)], goal_cases)
    case (4 b w'')
    have "returns (get_1 (set_buf m b)) (\<lambda>(x, n'). returns (do {
         (err, n', w') \<leftarrow> recv_msg_footer n' w'';
         if err \<noteq> NMBS_ERROR_NONE then Some (err, n', w')
         else if x < 1 \<or> x > 4 then Some (NMBS_ERROR_INVALID_RESPONSE, n', w')
         else Some (nmbs_error_of_exception x, n', w') }) ?Q)"
    proof (rule get_1_rule, goal_cases)
      case (3 x)
      then have "[x] = take 1 [code]" using moved_holds(1) [OF 3 4(3)] by simp
      then have x: "x = code" by simp
      show ?case
        unfolding prod.case x by (rule footer) (use 3 4 m x in \<open>auto simp: moved_def\<close>)
    qed (use 4 m in \<open>simp_all add: moved_def\<close>)
    then show ?case by (simp add: case_prod_unfold)
  qed (use m in simp_all)
  have c: "coming w (?u # ?f # code # ?crc)" using assms(2) by (simp only: frame)
  show ?thesis
    unfolding recv_res_header_def Let_def returns_bind [of "recv_msg_header n w"]
  proof (rule returns_mono [OF recv_msg_header_exact [OF assms(1) c]], goal_cases)
    case (1 r)
    obtain err b m w' where r: "r = (err, b, m, w')" by (cases r)
    have m: "config m = config n" "platform m = platform n" "err = NMBS_ERROR_NONE"
        "msg_fc (msg m) = ?f" "unit_id (msg m) = ?u"
      using 1 r configD(1) [of m n] by auto
    show ?case
      using exc [of m w'] 1 r m f tr by (simp add: case_prod_unfold)
  qed
qed

text \<open>Up to the loop over the registers, with a continuation \<open>g\<close> that may fail.\<close>

lemma registers_res_prefix:
  assumes "listening n" "unit_id (msg n) = u" "msg_fc (msg n) = f"
    and "coming w (u # f # nb # data @ crc)"
    and "length data = unat nb" "0 < nb" "\<not> 250 < nb"
  obtains m w' where "listening m" "inst_ok m" "config m = config n" "seen m = [u, f, nb]" "holds m data"
    "arrived w' crc" "\<not> complete (msg m)"
    "recv_read_registers_res n quantity out w = do {
       (n', registers) \<leftarrow> get_words_loop (unat nb div 2) 0 m out;
       (err, n', w') \<leftarrow> recv_msg_footer n' w';
       if err \<noteq> NMBS_ERROR_NONE then Some (err, registers, n', w')
       else if unat nb \<noteq> unat quantity * 2 then Some (NMBS_ERROR_INVALID_RESPONSE, registers, n', w')
       else Some (NMBS_ERROR_NONE, registers, n', w') }"
proof -
  let ?P = "\<lambda>m. listening m \<and> inst_ok m \<and> config m = config n \<and> \<not> complete (msg m)"
  obtain n1 w1 where 1: "recv_res_header n w = Some (NMBS_ERROR_NONE, n1, w1)" "?P n1" "seen n1 = [u, f]"
      "arrived w1 (nb # data @ crc)"
    using recv_res_header_exact [OF assms(1), of w "nb # data @ crc"] assms(2-4)
    by (auto elim!: returnsE simp: listening_config [OF _ assms(1)] inst_ok_wf)
  have "returns (recv n1 1 w1) (\<lambda>(err, n', w'). err = NMBS_ERROR_NONE \<and> ?P n' \<and> holds n' [nb] \<and>
      seen n' = [u, f] \<and> arrived w' (data @ crc))"
    by (rule recv_exact [of n1 w1 "nb # data @ crc"])
      (use 1 in \<open>auto simp: moved_def listening_config [OF _ assms(1)] inst_ok_wf\<close>)
  then obtain n2 w2 where 2: "recv n1 1 w1 = Some (NMBS_ERROR_NONE, n2, w2)" "?P n2" "holds n2 [nb]"
      "seen n2 = [u, f]" "arrived w2 (data @ crc)"
    by (auto elim!: returnsE)
  have "returns (get_1 n2) (\<lambda>(x, n'). x = nb \<and> ?P n' \<and> seen n' = [u, f, nb])"
  proof (rule get_1_rule, goal_cases)
    case (3 x)
    then show ?case
      using moved_holds(1) [OF 3 2(3)] 2 by (auto simp: moved_def listening_config [OF _ assms(1)] inst_ok_wf)
  qed (use 2 in simp_all)
  then obtain n3 where 3: "get_1 n2 = Some (nb, n3)" "?P n3" "seen n3 = [u, f, nb]"
    by (auto elim!: returnsE)
  have nb: "unat (ucast nb :: u16) = unat nb" "0 < unat nb" "unat nb \<le> 250"
    using assms(6,7) by (simp_all add: unat_ucast word_less_nat_alt)
  have "returns (recv n3 (ucast nb) w2) (\<lambda>(err, n', w'). err = NMBS_ERROR_NONE \<and> ?P n' \<and> holds n' data \<and>
      seen n' = [u, f, nb] \<and> arrived w' crc)"
    by (rule recv_exact [of n3 w2 "data @ crc"])
      (use 3 2(5) nb assms(5) in \<open>auto simp: moved_def listening_config [OF _ assms(1)] inst_ok_wf\<close>)
  then obtain n4 w4 where 4: "recv n3 (ucast nb) w2 = Some (NMBS_ERROR_NONE, n4, w4)" "?P n4" "holds n4 data"
      "seen n4 = [u, f, nb]" "arrived w4 crc"
    by (auto elim!: returnsE)
  show thesis
    by (rule that [of n4 w4]) (use 1 2 3 4 assms(7) in \<open>simp_all add: recv_read_registers_res_def\<close>)
qed

lemma read_registers_res_exact:
  assumes "listening n" "unit_id (msg n) = u" "msg_fc (msg n) = f"
    and "coming w (u # f # nb # data @ crc)"
    and "length data = unat nb" "0 < nb" "\<not> 250 < nb" "even (unat nb)" "length crc = 2"
    and "unat nb div 2 \<le> length xs"
  shows "returns (recv_read_registers_res n quantity (Some xs) w) (\<lambda>(err, out', n', w').
    err = registers_verdict quantity (u # f # nb # data) crc \<and>
    out' = Some (words_of data @ drop (unat nb div 2) xs) \<and> config n' = config n \<and> wf_nmbs n' \<and> arrived w' [])"
    (is "returns _ ?Q")
proof -
  obtain m w' where m: "listening m" "inst_ok m" "config m = config n" "seen m = [u, f, nb]" "holds m data"
      "arrived w' crc" "\<not> complete (msg m)"
    and eq: "recv_read_registers_res n quantity (Some xs) w = do {
       (n', registers) \<leftarrow> get_words_loop (unat nb div 2) 0 m (Some xs);
       (err, n', w') \<leftarrow> recv_msg_footer n' w';
       if err \<noteq> NMBS_ERROR_NONE then Some (err, registers, n', w')
       else if unat nb \<noteq> unat quantity * 2 then Some (NMBS_ERROR_INVALID_RESPONSE, registers, n', w')
       else Some (NMBS_ERROR_NONE, registers, n', w') }"
    using registers_res_prefix [OF assms(1-7)] by blast
  have nb: "2 * (unat nb div 2) = unat nb" "unat nb \<le> 250"
    using assms(7,8) by (simp_all add: word_less_nat_alt)
  show ?thesis
    unfolding eq returns_bind [of "get_words_loop _ _ _ _"]
  proof (rule get_words_loop_rule [OF m(2)], goal_cases)
    case (3 d)
    then have d: "d = data" using moved_holds(1) [OF 3(2) m(5)] nb assms(5) by simp
    let ?m = "advance m (of_nat (2 * (unat nb div 2)))"
    have m': "inst_ok ?m" "seen ?m = u # f # nb # data" "config ?m = config n" "\<not> complete (msg ?m)"
      using 3 m d by (simp_all add: moved_def)
    have "returns (recv_msg_footer ?m w') (\<lambda>(err, n', w'). config n' = config n \<and> inst_ok n' \<and> arrived w' [] \<and>
        err = (if crc = crc_bytes (u # f # nb # data) then NMBS_ERROR_NONE else NMBS_ERROR_CRC))"
      by (rule returns_mono [OF recv_msg_footer_exact
            [OF listening_config [OF m'(3) assms(1) inst_ok_wf [OF m'(1)]] m'(1,4) m(6)]])
        (use m' assms(5,9) nb in \<open>auto split: if_splits\<close>)
    then show ?case
      unfolding prod.case returns_bind
      by (elim returns_mono) (auto simp: registers_verdict_def d inst_ok_wf split: if_splits)
  qed (use m nb assms(10) in simp_all)
qed

text \<open>A response with more registers than the caller's array has: the client writes beyond it.\<close>

lemma read_registers_res_overflow:
  assumes "listening n" "unit_id (msg n) = u" "msg_fc (msg n) = f"
    and "coming w (u # f # nb # data @ crc)"
    and "length data = unat nb" "0 < nb" "\<not> 250 < nb" "length xs < unat nb div 2"
  shows "recv_read_registers_res n quantity (Some xs) w = None"
proof -
  have nb: "2 * (unat nb div 2) \<le> unat nb" "unat nb \<le> 250"
    using assms(7) by (simp_all add: word_less_nat_alt)
  obtain m w' where m: "inst_ok m" "seen m = [u, f, nb]"
    and eq: "recv_read_registers_res n quantity (Some xs) w = do {
       (n', registers) \<leftarrow> get_words_loop (unat nb div 2) 0 m (Some xs);
       (err, n', w') \<leftarrow> recv_msg_footer n' w';
       if err \<noteq> NMBS_ERROR_NONE then Some (err, registers, n', w')
       else if unat nb \<noteq> unat quantity * 2 then Some (NMBS_ERROR_INVALID_RESPONSE, registers, n', w')
       else Some (NMBS_ERROR_NONE, registers, n', w') }"
    using registers_res_prefix [OF assms(1-7), of quantity "Some xs"] by blast
  have "get_words_loop (unat nb div 2) 0 m (Some xs) = None"
    by (rule get_words_loop_overflow) (use m nb assms(8) in simp_all)
  then show ?thesis unfolding eq by simp
qed

lemma echo_exact:
  assumes "listening n" "coming w (rtu_frame (unit_id (msg n)) (msg_fc (msg n)) (be16 a @ be16 v))"
  shows "returns (recv_write_single_register_res n address value w) (\<lambda>(err, n', w').
    err = (if a = address \<and> v = value then NMBS_ERROR_NONE else NMBS_ERROR_INVALID_RESPONSE) \<and>
    config n' = config n \<and> wf_nmbs n' \<and> arrived w' [])"
    (is "returns _ ?Q")
proof -
  let ?u = "unit_id (msg n)" and ?f = "msg_fc (msg n)"
  let ?crc = "crc_bytes (?u # ?f # be16 a @ be16 v)"
  let ?P = "\<lambda>m. listening m \<and> inst_ok m \<and> config m = config n \<and> \<not> complete (msg m)"
  have frame: "rtu_frame ?u ?f (be16 a @ be16 v) = ?u # ?f # (be16 a @ be16 v @ ?crc)"
    by (simp add: rtu_frame_def)
  obtain n1 w1 where 1: "recv_res_header n w = Some (NMBS_ERROR_NONE, n1, w1)" "?P n1" "seen n1 = [?u, ?f]"
      "arrived w1 (be16 a @ be16 v @ ?crc)"
    using recv_res_header_exact [OF assms(1), of w "be16 a @ be16 v @ ?crc"] assms(2) frame
    by (auto elim!: returnsE simp: listening_config [OF _ assms(1)] inst_ok_wf)
  have "returns (recv n1 4 w1) (\<lambda>(err, n', w'). err = NMBS_ERROR_NONE \<and> ?P n' \<and> holds n' (be16 a @ be16 v) \<and>
      seen n' = [?u, ?f] \<and> arrived w' ?crc)"
    by (rule recv_exact [of n1 w1 "be16 a @ be16 v @ ?crc"])
      (use 1 in \<open>auto simp: moved_def listening_config [OF _ assms(1)] inst_ok_wf be16_def\<close>)
  then obtain n2 w2 where 2: "recv n1 4 w1 = Some (NMBS_ERROR_NONE, n2, w2)" "?P n2"
      "holds n2 (be16 a @ be16 v)" "seen n2 = [?u, ?f]" "arrived w2 ?crc"
    by (auto elim!: returnsE)
  have "returns (get_2 n2) (\<lambda>(x, n'). x = a \<and> ?P n' \<and> holds n' (be16 v) \<and> seen n' = [?u, ?f] @ be16 a)"
  proof (rule get_2_rule, goal_cases)
    case (3 h l)
    then have "[h, l] = be16 a" using moved_holds(1) [OF 3 2(3)] by (simp add: be16_def)
    moreover have "holds (advance n2 2) (be16 v)"
      using moved_holds(2) [OF 3 2(3)] by (simp add: be16_def)
    ultimately show ?case
      using 3 2 by (auto simp: moved_def be16_def listening_config [OF _ assms(1)] inst_ok_wf)
  qed (use 2 in simp_all)
  then obtain n3 where 3: "get_2 n2 = Some (a, n3)" "?P n3" "holds n3 (be16 v)" "seen n3 = [?u, ?f] @ be16 a"
    by (auto elim!: returnsE)
  have "returns (get_2 n3) (\<lambda>(x, n'). x = v \<and> ?P n' \<and> seen n' = ?u # ?f # be16 a @ be16 v)"
  proof (rule get_2_rule, goal_cases)
    case (3 h l)
    then have "[h, l] = be16 v" using moved_holds(1) [OF 3 \<open>holds n3 (be16 v)\<close>] by (simp add: be16_def)
    then show ?case
      using 3 \<open>?P n3\<close> \<open>seen n3 = [?u, ?f] @ be16 a\<close>
      by (auto simp: moved_def be16_def listening_config [OF _ assms(1)] inst_ok_wf)
  qed (use 3 in simp_all)
  then obtain n4 where 4: "get_2 n3 = Some (v, n4)" "?P n4" "seen n4 = ?u # ?f # be16 a @ be16 v"
    by (auto elim!: returnsE)
  have "returns (recv_msg_footer n4 w2) (\<lambda>(err, n', w'). config n' = config n \<and> inst_ok n' \<and>
      arrived w' [] \<and> err = NMBS_ERROR_NONE)"
    by (rule returns_mono [OF recv_msg_footer_exact [of n4 w2 ?crc]]) (use 4 2(5) in auto)
  then obtain n5 w5 where "recv_msg_footer n4 w2 = Some (NMBS_ERROR_NONE, n5, w5)" "config n5 = config n"
      "inst_ok n5" "arrived w5 []"
    by (auto elim!: returnsE)
  then show ?thesis
    using 1(1) 2(1) 3(1) 4(1) by (simp add: recv_write_single_register_res_def inst_ok_wf)
qed

section \<open>Whole transactions\<close>

lemma request_sent:
  assumes "listening n" "idle w" "length pdu \<le> 254"
    and "answer w (rtu_frame (dest_address_rtu n) fc pdu) \<noteq> []"
  obtains b w1 w2 where "msg_state_req n fc w = Some (begun n fc b, w1)" "length b = 260"
    "send_msg (emit (begun n fc b) ([dest_address_rtu n, fc] @ pdu)) w1 =
       Some (NMBS_ERROR_NONE, emit (begun n fc b) (rtu_frame (dest_address_rtu n) fc pdu), w2)"
    "coming w2 (answer w (rtu_frame (dest_address_rtu n) fc pdu))"
    "listening (emit (begun n fc b) (rtu_frame (dest_address_rtu n) fc pdu))"
proof -
  let ?bs = "[dest_address_rtu n, fc] @ pdu" and ?frame = "rtu_frame (dest_address_rtu n) fc pdu"
  have frame: "?bs @ crc_bytes ?bs = ?frame" by (simp add: rtu_frame_def)
  have n: "rtu_conf rd wr (platform n)" "byte_timeout_ms n = byte_to" "length (mbuf n) = 260"
    using assms(1) by (simp_all add: listening_def wf_nmbs_def)
  obtain ret b w1 where b: "rd (Some (mbuf n)) 260 0 (conf_arg (platform n)) w = Some (ret, Some b, w1)"
      "length b = 260" "quiet w1" "answer w1 = answer w"
    using flush [OF assms(2) n(3)] by blast
  let ?count = "of_nat (length ?bs + 2) :: u16" and ?buf = "?bs @ crc_bytes ?bs @ drop (length ?bs + 2) b"
  have count: "unat ?count = length ?bs + 2"
    using assms(3) by (intro unat_of_nat_less) simp
  have "take (length ?bs + 2) ?buf = ?frame"
    by (simp add: rtu_frame_def)
  then have cut: "take (unat ?count) ?buf = ?frame"
    by (simp only: count)
  have "0 < unat ?count" "unat ?count \<le> length ?buf"
    unfolding count using assms(3) b(2) by simp_all
  from send [OF b(3) this, of "conf_arg (platform n)"] obtain w2 where
      w2: "wr (Some ?buf) ?count byte_to (conf_arg (platform n)) w1 = Some (ucast ?count, w2)"
        "coming w2 (answer w ?frame)"
    using assms(4) b(4) unfolding cut by auto
  have "send_msg (emit (begun n fc b) ?bs) w1 = Some (NMBS_ERROR_NONE, emit (begun n fc b) ?frame, w2)"
    using assms(3) n(2) w2(1) unfolding frame [symmetric]
    by (subst send_msg_begun [OF n(1) b(2)]) (simp_all add: transport_result_def del: of_nat_add)
  moreover have "listening (emit (begun n fc b) ?frame)"
    using listening_config [OF _ assms(1), of "emit (begun n fc b) ?frame"] assms(3) b(2) by simp
  ultimately show thesis
    using that msg_state_req_begun [OF n(1) b(1)] b(2) w2(2) by blast
qed

text \<open>The part of \<open>read_registers\<close> before the response.\<close>

lemma read_registers_sent:
  assumes "listening n" "idle w" "1 \<le> unat quantity" "unat quantity \<le> 125" "unat address + unat quantity \<le> 65536"
    and "answer w (rtu_frame (dest_address_rtu n) fc (be16 address @ be16 quantity)) \<noteq> []"
  obtains m w' where "listening m" "config m = config n" "unit_id (msg m) = dest_address_rtu n" "msg_fc (msg m) = fc"
    "coming w' (answer w (rtu_frame (dest_address_rtu n) fc (be16 address @ be16 quantity)))"
    "read_registers n fc address quantity out w = recv_read_registers_res m quantity out w'"
proof -
  have len: "length (be16 address @ be16 quantity) \<le> 254" by simp
  obtain b w1 w2 where r: "msg_state_req n fc w = Some (begun n fc b, w1)" "length b = 260"
    "send_msg (emit (begun n fc b) ([dest_address_rtu n, fc] @ be16 address @ be16 quantity)) w1 =
       Some (NMBS_ERROR_NONE, emit (begun n fc b) (rtu_frame (dest_address_rtu n) fc (be16 address @ be16 quantity)), w2)"
    "coming w2 (answer w (rtu_frame (dest_address_rtu n) fc (be16 address @ be16 quantity)))"
    "listening (emit (begun n fc b) (rtu_frame (dest_address_rtu n) fc (be16 address @ be16 quantity)))"
    using request_sent [OF assms(1,2) len assms(6)] by blast
  have q: "\<not> quantity < 1" "\<not> 125 < quantity" "\<not> beyond_address_space address quantity"
    using assms(3-5) by (simp_all add: beyond_address_space_iff word_less_nat_alt)
  have "rtu_conf rd wr (platform n)" using assms(1) by (simp add: listening_def)
  then have "read_registers n fc address quantity out w =
      recv_read_registers_res (emit (begun n fc b) (rtu_frame (dest_address_rtu n) fc (be16 address @ be16 quantity)))
        quantity out w2"
    using q r(1-3) by (simp add: read_registers_def put_req_header_begun)
  with that [OF r(5) _ _ _ r(4)] show thesis by simp
qed

lemma read_registers_exact:
  assumes "listening n" "idle w" "1 \<le> unat quantity" "unat quantity \<le> 125" "unat address + unat quantity \<le> 65536"
    and "answer w (rtu_frame (dest_address_rtu n) fc (be16 address @ be16 quantity)) =
      dest_address_rtu n # fc # nb # data @ crc"
    and "length data = unat nb" "0 < nb" "\<not> 250 < nb" "even (unat nb)" "length crc = 2"
    and "unat nb div 2 \<le> length xs"
  shows "returns (read_registers n fc address quantity (Some xs) w) (\<lambda>(err, out', n', w').
    err = registers_verdict quantity (dest_address_rtu n # fc # nb # data) crc \<and>
    out' = Some (words_of data @ drop (unat nb div 2) xs) \<and> config n' = config n \<and> wf_nmbs n' \<and> arrived w' [])"
proof -
  obtain m w' where m: "listening m" "config m = config n" "unit_id (msg m) = dest_address_rtu n" "msg_fc (msg m) = fc"
      "coming w' (dest_address_rtu n # fc # nb # data @ crc)"
      "read_registers n fc address quantity (Some xs) w = recv_read_registers_res m quantity (Some xs) w'"
    using read_registers_sent [OF assms(1-5), of fc "Some xs"] assms(6) by auto
  show ?thesis
    unfolding m(6) by (rule returns_mono [OF read_registers_res_exact [OF m(1,3-5) assms(7-12)]])
      (use m(2) in auto)
qed

lemma read_registers_overflow:
  assumes "listening n" "idle w" "1 \<le> unat quantity" "unat quantity \<le> 125" "unat address + unat quantity \<le> 65536"
    and "answer w (rtu_frame (dest_address_rtu n) fc (be16 address @ be16 quantity)) =
      dest_address_rtu n # fc # nb # data @ crc"
    and "length data = unat nb" "0 < nb" "\<not> 250 < nb" "length xs < unat nb div 2"
  shows "read_registers n fc address quantity (Some xs) w = None"
proof -
  obtain m w' where m: "listening m" "config m = config n" "unit_id (msg m) = dest_address_rtu n" "msg_fc (msg m) = fc"
      "coming w' (dest_address_rtu n # fc # nb # data @ crc)"
      "read_registers n fc address quantity (Some xs) w = recv_read_registers_res m quantity (Some xs) w'"
    using read_registers_sent [OF assms(1-5), of fc "Some xs"] assms(6) by auto
  show ?thesis
    unfolding m(6) by (rule read_registers_res_overflow [OF m(1,3-5) assms(7-10)])
qed

lemma read_registers_exception:
  assumes "listening n" "idle w" "1 \<le> unat quantity" "unat quantity \<le> 125" "unat address + unat quantity \<le> 65536"
    and "answer w (rtu_frame (dest_address_rtu n) fc (be16 address @ be16 quantity)) =
      rtu_frame (dest_address_rtu n) (fc + 0x80) [code]"
    and "fc < 0x80" "1 \<le> code" "code \<le> 4"
  shows "returns (read_registers n fc address quantity out w) (\<lambda>(err, out', n', w').
    err = nmbs_error_of_exception code \<and> out' = out \<and> config n' = config n \<and> wf_nmbs n' \<and> arrived w' [])"
proof -
  have "answer w (rtu_frame (dest_address_rtu n) fc (be16 address @ be16 quantity)) \<noteq> []"
    using assms(6) by (simp add: rtu_frame_def)
  from read_registers_sent [OF assms(1-5) this, of out]
  obtain m w' where m: "listening m" "config m = config n" "unit_id (msg m) = dest_address_rtu n" "msg_fc (msg m) = fc"
      "coming w' (rtu_frame (dest_address_rtu n) (fc + 0x80) [code])"
      "read_registers n fc address quantity out w = recv_read_registers_res m quantity out w'"
    using assms(6) by auto
  have "returns (recv_res_header m w') (\<lambda>(err, n', w'). err = nmbs_error_of_exception code \<and>
      config n' = config m \<and> wf_nmbs n' \<and> arrived w' [])"
    using recv_res_header_exception [OF m(1), of w' code] m(3-5) assms(7-9) by simp
  then show ?thesis
    unfolding m(6) using m(2) by (auto simp: recv_read_registers_res_def elim!: returnsE)
qed

lemma write_multiple_registers_exact:
  assumes "listening n" "idle w" "1 \<le> unat quantity" "unat quantity \<le> 123" "unat address + unat quantity \<le> 65536"
    and "unat quantity \<le> length registers" "dest_address_rtu n \<noteq> 0"
    and "answer w (rtu_frame (dest_address_rtu n) 16 (be16 address @ be16 quantity @
        ucast (quantity * 2) # concat (map be16 (take (unat quantity) registers)))) =
      rtu_frame (dest_address_rtu n) 16 (be16 a @ be16 v)"
  shows "returns (nmbs_write_multiple_registers n address quantity registers w) (\<lambda>(err, n', w').
    err = (if a = address \<and> v = quantity then NMBS_ERROR_NONE else NMBS_ERROR_INVALID_RESPONSE) \<and>
    config n' = config n \<and> wf_nmbs n' \<and> arrived w' [])"
proof -
  let ?regs = "concat (map be16 (take (unat quantity) registers))"
  let ?pdu = "be16 address @ be16 quantity @ ucast (quantity * 2) # ?regs"
  let ?hd = "[dest_address_rtu n, 16] @ be16 address @ be16 quantity @ [ucast (quantity * 2)]"
  have len: "length ?pdu \<le> 254" using assms(4,6) by (simp add: min_absorb2)
  have ans: "answer w (rtu_frame (dest_address_rtu n) 16 ?pdu) \<noteq> []"
    unfolding assms(8) by (simp add: rtu_frame_def)
  obtain b w1 w2 where r: "msg_state_req n 16 w = Some (begun n 16 b, w1)" "length b = 260"
    "send_msg (emit (begun n 16 b) ([dest_address_rtu n, 16] @ ?pdu)) w1 =
       Some (NMBS_ERROR_NONE, emit (begun n 16 b) (rtu_frame (dest_address_rtu n) 16 ?pdu), w2)"
    "coming w2 (answer w (rtu_frame (dest_address_rtu n) 16 ?pdu))"
    "listening (emit (begun n 16 b) (rtu_frame (dest_address_rtu n) 16 ?pdu))"
    using request_sent [OF assms(1,2) len ans] by blast
  have q: "\<not> quantity < 1" "\<not> 0x007B < quantity" "\<not> beyond_address_space address quantity"
    using assms(3-5) by (simp_all add: beyond_address_space_iff word_less_nat_alt)
  have regs: "put_words_loop (unat quantity) 0 (emit (begun n 16 b) ?hd) registers =
      Some (emit (begun n 16 b) (?hd @ ?regs))"
    using assms(4,6) r(2) by (subst put_words_loop_emit) (simp_all add: room_def cursor_emit min_absorb2)
  let ?m = "emit (begun n 16 b) (rtu_frame (dest_address_rtu n) 16 ?pdu)"
  have conf: "rtu_conf rd wr (platform n)" using assms(1) by (simp add: listening_def)
  have "nmbs_write_multiple_registers n address quantity registers w =
      recv_write_single_register_res ?m address quantity w2"
    using q r(1-3) regs assms(4,6,7) put_req_header_begun [OF conf r(2), of 16]
    by (simp add: nmbs_write_multiple_registers_def Let_def min_absorb2)
  moreover have "coming w2 (rtu_frame (unit_id (msg ?m)) (msg_fc (msg ?m)) (be16 a @ be16 v))"
    using r(4) unfolding assms(8) by simp
  ultimately show ?thesis
    using echo_exact [OF r(5)] by (auto elim!: returns_mono)
qed

end

end
