(* ===== verification/Driver_Line.thy ===== *)
theory Driver_Line
  imports Driver_Serial Modbus_Exchange
begin

text \<open>
  The serial line as the driver sees it when the kernel is timely: \<open>read_serial\<close> and
  \<open>write_serial\<close> provide the half-duplex line of \<open>Modbus_Exchange\<close>, provided that the answer of
  a unit comes out of the receive callback in one piece.
\<close>

section \<open>A timely kernel\<close>

text \<open>
  \<open>elapsed\<close> is the time in ns, \<open>transit\<close> what successive sleeps of 10 ms will deliver, and
  \<open>reply e frame\<close> what they will deliver once \<open>frame\<close> was sent.  A clock call takes at most
  1 ms, \<^verbatim>\<open>msleep(10)\<close> at most 20 ms, and transmission at most 100 ms.
\<close>

locale timely_kernel = live_kernel k live wait
  for k :: "'e kernel" and live :: "'e \<Rightarrow> bool" and wait :: "u64 \<Rightarrow> 'e \<Rightarrow> nat" +
  fixes elapsed :: "'e \<Rightarrow> nat" and transit :: "'e \<Rightarrow> u8 list list" and reply :: "'e \<Rightarrow> u8 list \<Rightarrow> u8 list list"
  assumes clock_tells: "live e \<Longrightarrow> elapsed e < 2 ^ 62 \<Longrightarrow> ktime_get_ns k e = (t, e') \<Longrightarrow>
      unat t = elapsed e' \<and> elapsed e \<le> elapsed e' \<and> elapsed e' \<le> elapsed e + 1000000 \<and>
      transit e' = transit e \<and> reply e' = reply e"
    and sleep_delivers: "live e \<Longrightarrow> elapsed e < 2 ^ 62 \<Longrightarrow> msleep k 10 e = (bufs, e') \<Longrightarrow>
      bufs = take 1 (transit e) \<and> transit e' = drop 1 (transit e) \<and>
      elapsed e \<le> elapsed e' \<and> elapsed e' \<le> elapsed e + 20000000 \<and> reply e' = reply e"
    and write_transmits: "live e \<Longrightarrow> elapsed e < 2 ^ 62 \<Longrightarrow> transit e = [] \<Longrightarrow> bs \<noteq> [] \<Longrightarrow>
      serdev_device_write_buf k d bs e = (r, e') \<Longrightarrow>
      r = of_nat (length bs) \<and> transit e' = reply e bs \<and> elapsed e \<le> elapsed e' \<and> elapsed e' \<le> elapsed e + 100000000"

text \<open>
  The answer in a list of deliveries, when it is one burst that fits the ring: silence during
  at most 31 sleeps, then all bytes.
\<close>

definition answer_of :: "u8 list list \<Rightarrow> u8 list" where
  "answer_of ts = (if ts \<noteq> [] \<and> last ts = concat ts \<and> length ts \<le> 32 \<and> length (last ts) \<le> 256
     then last ts else [])"

lemma answer_of_eq:
  "bs \<noteq> [] \<Longrightarrow> answer_of ts = bs \<longleftrightarrow>
     ts \<noteq> [] \<and> last ts = bs \<and> concat ts = bs \<and> length ts \<le> 32 \<and> length bs \<le> 256"
  by (auto simp: answer_of_def)

lemma length_last_concat: "ts \<noteq> [] \<Longrightarrow> length (last ts) \<le> length (concat ts)"
  by (induction ts) auto

lemma answer_of_Cons:
  assumes "answer_of (t # ts) = bs" "bs \<noteq> []"
  shows "if ts = [] then t = bs else t = [] \<and> answer_of ts = bs"
proof (cases "ts = []")
  case False
  then have h: "last ts = bs" "t @ concat ts = bs" "length ts \<le> 31" "length bs \<le> 256"
    using assms by (auto simp: answer_of_eq)
  then have "length t + length (concat ts) = length (last ts)" by (metis length_append)
  then have "length t = 0" using length_last_concat [OF False] by linarith
  then have "t = []" by simp
  then show ?thesis using False h assms(2) by (simp add: answer_of_eq)
qed (use assms in \<open>simp add: answer_of_eq\<close>)

lemma answer_of_length: "answer_of ts = bs \<Longrightarrow> bs \<noteq> [] \<Longrightarrow> ts \<noteq> [] \<and> length ts \<le> 32 \<and> length bs \<le> 256"
  by (simp add: answer_of_eq)

text \<open>
  The states of the line: nothing under way; moreover no stale byte in the ring; an answer on
  its way; the rest of an answer in the ring.
\<close>

definition line_idle ::
  "('e \<Rightarrow> bool) \<Rightarrow> ('e \<Rightarrow> nat) \<Rightarrow> ('e \<Rightarrow> u8 list list) \<Rightarrow> 'e driver \<Rightarrow> bool" where
  "line_idle live elapsed transit w \<longleftrightarrow> driver_ok live w \<and> dev_serdev w \<noteq> None \<and> transit (env w) = [] \<and> elapsed (env w) < 2 ^ 61"

definition line_quiet ::
  "('e \<Rightarrow> bool) \<Rightarrow> ('e \<Rightarrow> nat) \<Rightarrow> ('e \<Rightarrow> u8 list list) \<Rightarrow> 'e driver \<Rightarrow> bool" where
  "line_quiet live elapsed transit w \<longleftrightarrow> line_idle live elapsed transit w \<and> fifo_bytes (rx_fifo w) = []"

definition line_coming ::
  "('e \<Rightarrow> bool) \<Rightarrow> ('e \<Rightarrow> nat) \<Rightarrow> ('e \<Rightarrow> u8 list list) \<Rightarrow> 'e driver \<Rightarrow> u8 list \<Rightarrow> bool" where
  "line_coming live elapsed transit w bs \<longleftrightarrow> driver_ok live w \<and> fifo_bytes (rx_fifo w) = [] \<and> answer_of (transit (env w)) = bs \<and>
     bs \<noteq> [] \<and> elapsed (env w) < 2 ^ 61 + 100000000"

definition line_arrived ::
  "('e \<Rightarrow> bool) \<Rightarrow> ('e \<Rightarrow> nat) \<Rightarrow> ('e \<Rightarrow> u8 list list) \<Rightarrow> 'e driver \<Rightarrow> u8 list \<Rightarrow> bool" where
  "line_arrived live elapsed transit w bs \<longleftrightarrow> driver_ok live w \<and> fifo_bytes (rx_fifo w) = bs \<and> transit (env w) = [] \<and>
     elapsed (env w) + length bs * 1000000000 < 2 ^ 62"

definition line_answer ::
  "('e \<Rightarrow> u8 list \<Rightarrow> u8 list list) \<Rightarrow> 'e driver \<Rightarrow> u8 list \<Rightarrow> u8 list" where
  "line_answer reply w frame = answer_of (reply (env w) frame)"

context timely_kernel
begin

text \<open>One round of the read loop before the deadline.\<close>

lemma loop_round:
  assumes ok: "driver_ok live w" and t: "elapsed (env w) + 1000000 < unat deadline" "unat deadline \<le> 2 ^ 62"
    and c: "read_bytes < count" "unat (count - read_bytes) \<le> length buf"
  defines "m \<equiv> min (unat (count - read_bytes)) (length (fifo_bytes (rx_fifo w)))"
  obtains w' where
    "read_serial_loop k count deadline (buf, read_bytes, w) =
       read_serial_loop k count deadline
         (take m (fifo_bytes (rx_fifo w)) @ drop m buf, read_bytes + of_nat m, w')"
    "driver_ok live w'" "dev_serdev w' = dev_serdev w" "transit (env w') = drop 1 (transit (env w))"
    "fifo_bytes (rx_fifo w') = foldl (lossy_push 256) (drop m (fifo_bytes (rx_fifo w))) (take 1 (transit (env w)))"
    "elapsed (env w) \<le> elapsed (env w')" "elapsed (env w') \<le> elapsed (env w) + 21000000"
    "reply (env w') = reply (env w)"
proof -
  obtain now e1 where e1: "ktime_get_ns k (env w) = (now, e1)" by fastforce
  have l: "live (env w)" "elapsed (env w) < 2 ^ 62" using ok t by (simp_all add: driver_ok_def)
  note tells = clock_tells [OF l e1]
  have now: "now < deadline" using tells t by (simp add: word_less_nat_alt)
  have f: "fifo_inv (rx_fifo w)" "fifo_cap (rx_fifo w) = 256" "length (fifo_bytes (rx_fifo w)) \<le> 256"
    using ok fifo.bound [of "Some (rx_fifo w)"] by (auto simp: driver_ok_def fifo_view_defs)
  have u: "unat (ucast (count - read_bytes) :: u32) = unat (count - read_bytes)"
    using unsigned_less [of "count - read_bytes", where ?'a = nat] by (simp add: unat_ucast)
  have lt: "unat (ucast (count - read_bytes) :: u32) < 2 ^ 31"
    unfolding u using unsigned_less [of "count - read_bytes", where ?'a = nat] by simp
  have m: "m \<le> 256" "m mod 2 ^ 16 = m"
    using f(3) by (simp_all add: m_def)
  obtain res g where rd: "byte_fifo_read (Some (rx_fifo w)) (Some buf) (ucast (count - read_bytes)) =
      Some (res, Some g, Some (take m (fifo_bytes (rx_fifo w)) @ drop m buf))"
    and g: "fifo_inv g" "fifo_cap g = 256" "fifo_bytes g = drop m (fifo_bytes (rx_fifo w))" "unat res = m"
    using byte_fifo_read_spec [OF f(1), of "ucast (count - read_bytes)" buf] u lt c(2) f(2) m(2)
    by (auto simp: Let_def m_def elim!: returnsE)
  have res: "0 \<le>s res" "res = of_nat m"
    using sint_eq_uint_small [of res] g(4) m(1) by (simp_all add: word_sle_eq) (metis of_nat_unat ucast_id)
  obtain bufs e2 where e2: "msleep k 10 e1 = (bufs, e2)" by fastforce
  have l1: "live e1" "elapsed e1 < 2 ^ 62" using clock_live [OF l(1) e1] tells t by simp_all
  note sleeps = sleep_delivers [OF l1 e2]
  let ?w1 = "w\<lparr>env := e1, rx_fifo := g\<rparr>"
  obtain f' where d: "deliver bufs (?w1\<lparr>env := e2\<rparr>) = Some (?w1\<lparr>env := e2, rx_fifo := f'\<rparr>)"
      "fifo_inv f'" "fifo_cap f' = 256" "fifo_bytes f' = foldl (lossy_push 256) (fifo_bytes g) bufs"
    using deliver_spec [of "?w1\<lparr>env := e2\<rparr>" bufs] sleep_live [OF l1(1) e2] g(1,2)
    by (auto elim!: returnsE)
  let ?w' = "?w1\<lparr>env := e2, rx_fifo := f'\<rparr>"
  have "read_serial_loop k count deadline (buf, read_bytes, w) =
       read_serial_loop k count deadline (take m (fifo_bytes (rx_fifo w)) @ drop m buf, read_bytes + of_nat m, ?w')"
    using c(1) now rd res d(1)
    by (subst read_serial_loop.simps) (simp add: ktime_def e1 msleep_10_def e2 Let_def)
  moreover have "driver_ok live ?w'"
    using d sleep_live [OF l1(1) e2] by (simp add: driver_ok_def)
  ultimately show thesis
    by (rule that) (use d g tells sleeps in auto)
qed

lemma loop_done: "\<not> read_bytes < count \<Longrightarrow>
    read_serial_loop k count deadline (buf, read_bytes, w) = Some (False, buf, read_bytes, w)"
  by (subst read_serial_loop.simps) simp

text \<open>The start of a read with a timeout of \<open>ms\<close> milliseconds.\<close>

lemma read_serial_start:
  assumes "driver_ok live w" "elapsed (env w) < 2 ^ 62" "ms \<noteq> 0" "unat ms \<le> 1000"
  obtains w1 deadline where "driver_ok live w1" "dev_serdev w1 = dev_serdev w" "rx_fifo w1 = rx_fifo w"
    "transit (env w1) = transit (env w)" "elapsed (env w) \<le> elapsed (env w1)"
    "elapsed (env w1) \<le> elapsed (env w) + 1000000" "unat deadline = elapsed (env w1) + unat ms * 1000000"
    "read_serial k (Some buf) count ms a w = do {
       (failed, b, read_bytes, w) \<leftarrow> read_serial_loop k count deadline (buf, 0, w1);
       if failed then Some (- EFAULT, Some b, w)
       else (case ktime k w of (timestamp_stop, w) \<Rightarrow>
         if timestamp_stop > deadline then Some (- ETIMEDOUT, Some b, w) else Some (ucast read_bytes, Some b, w)) }"
proof -
  obtain now e1 where e1: "ktime_get_ns k (env w) = (now, e1)" by fastforce
  have l: "live (env w)" "elapsed (env w) < 2 ^ 62" using assms by (simp_all add: driver_ok_def)
  note tells = clock_tells [OF l e1]
  have ms: "(scast ms :: u64) = of_nat (unat ms)"
  proof -
    have "sint ms = uint ms" using assms(4) by (intro sint_eq_uint_small) simp
    then show ?thesis by (metis of_int_sint of_nat_unat of_int_uint)
  qed
  let ?d = "now + (scast ms :: u64) * 1000000"
  have "?d = of_nat (elapsed e1 + unat ms * 1000000)"
    using tells by (simp add: ms) (metis of_nat_unat ucast_id)
  moreover have "unat (of_nat (elapsed e1 + unat ms * 1000000) :: u64) = elapsed e1 + unat ms * 1000000"
    by (rule unat_of_nat_less) (use tells l(2) assms(4) in simp)
  ultimately have d: "unat ?d = elapsed e1 + unat ms * 1000000"
    by (simp only:)
  show thesis
    by (rule that [of "w\<lparr>env := e1\<rparr>" ?d])
      (use tells assms clock_live [OF l(1) e1] d in
        \<open>auto simp: driver_ok_def read_serial_def ktime_def e1 Let_def\<close>)
qed

lemma clock_read:
  assumes "driver_ok live w" "elapsed (env w) < 2 ^ 62"
  obtains t w' where "ktime k w = (t, w')" "unat t = elapsed (env w')" "elapsed (env w) \<le> elapsed (env w')"
    "elapsed (env w') \<le> elapsed (env w) + 1000000" "driver_ok live w'" "rx_fifo w' = rx_fifo w"
    "transit (env w') = transit (env w)" "dev_serdev w' = dev_serdev w"
proof -
  obtain t e where e: "ktime_get_ns k (env w) = (t, e)" by fastforce
  show thesis
    by (rule that [of t "w\<lparr>env := e\<rparr>"])
      (use assms clock_tells [OF _ _ e] clock_live [OF _ e] in \<open>auto simp: ktime_def e driver_ok_def\<close>)
qed

lemma read_more:
  assumes "line_arrived live elapsed transit w bs" "0 < unat count" "unat count \<le> length bs" "unat count \<le> length buf"
  shows "\<exists>w'. read_serial k (Some buf) count 100 a w =
      Some (ucast count, Some (take (unat count) bs @ drop (unat count) buf), w') \<and> line_arrived live elapsed transit w' (drop (unat count) bs)"
proof -
  have w: "driver_ok live w" "fifo_bytes (rx_fifo w) = bs" "transit (env w) = []"
      "elapsed (env w) + length bs * 1000000000 < 2 ^ 62"
    using assms(1) by (simp_all add: line_arrived_def)
  have bs: "1 \<le> length bs" using assms(2,3) by linarith
  obtain w1 deadline where w1: "driver_ok live w1" "rx_fifo w1 = rx_fifo w" "transit (env w1) = []"
      "elapsed (env w1) \<le> elapsed (env w) + 1000000" "unat deadline = elapsed (env w1) + 100000000"
    and rd: "read_serial k (Some buf) count 100 a w = do {
       (failed, b, read_bytes, w) \<leftarrow> read_serial_loop k count deadline (buf, 0, w1);
       if failed then Some (- EFAULT, Some b, w)
       else (case ktime k w of (timestamp_stop, w) \<Rightarrow>
         if timestamp_stop > deadline then Some (- ETIMEDOUT, Some b, w) else Some (ucast read_bytes, Some b, w)) }"
    by (rule read_serial_start [OF w(1), of 100 buf count a]; (use w(4) in simp)?)
      (rule that; simp add: w(3))
  have dl: "unat deadline \<le> 2 ^ 62" "elapsed (env w1) + 1000000 < unat deadline"
    using w1(4,5) w(4) bs by auto
  have cnt: "0 < count" "unat (count - 0) \<le> length buf" using assms(2,4) by (simp_all add: word_gt_0 unat_gt_0)
  have min: "min (unat (count - 0)) (length (fifo_bytes (rx_fifo w1))) = unat count"
    using assms(3) w(2) w1(2) by simp
  obtain w2 where w2: "read_serial_loop k count deadline (buf, 0, w1) =
       read_serial_loop k count deadline (take (unat count) bs @ drop (unat count) buf, 0 + of_nat (unat count), w2)"
    "driver_ok live w2" "transit (env w2) = []" "fifo_bytes (rx_fifo w2) = drop (unat count) bs"
    "elapsed (env w2) \<le> elapsed (env w1) + 21000000"
    using loop_round [OF w1(1) dl(2,1) cnt] w1(2,3) w(2) unfolding min by auto
  have fin: "read_serial_loop k count deadline (buf, 0, w1) =
      Some (False, take (unat count) bs @ drop (unat count) buf, count, w2)"
    using w2(1) loop_done [of count count] by simp
  have lt: "elapsed (env w2) < 2 ^ 62" using w2(5) w1(4) w(4) bs by simp
  obtain t w3 where w3: "ktime k w2 = (t, w3)" "unat t = elapsed (env w3)" "elapsed (env w3) \<le> elapsed (env w2) + 1000000"
      "driver_ok live w3" "rx_fifo w3 = rx_fifo w2" "transit (env w3) = []"
    using clock_read [OF w2(2) lt] w2(3) by metis
  have "\<not> deadline < t"
    using w3(2,3) w2(5) w1(5) by (simp add: word_less_nat_alt)
  moreover have "line_arrived live elapsed transit w3 (drop (unat count) bs)"
    using w3 w2 w1(4) w(4) assms(2,3) by (simp add: line_arrived_def diff_mult_distrib)
  ultimately show ?thesis
    unfolding rd fin using w3(1) by simp
qed

text \<open>Waiting for the first byte: one round per delivery, then one that takes the byte.\<close>

lemma loop_first:
  assumes "driver_ok live w" "fifo_bytes (rx_fifo w) = []" "transit (env w) = ts" "answer_of ts = x # bs"
    and "elapsed (env w) + (length ts + 1) * 21000000 \<le> unat deadline" "unat deadline \<le> 2 ^ 62" "buf \<noteq> []"
  shows "\<exists>w'. read_serial_loop k 1 deadline (buf, 0, w) = Some (False, x # tl buf, 1, w') \<and> driver_ok live w' \<and>
    fifo_bytes (rx_fifo w') = bs \<and> transit (env w') = [] \<and>
    elapsed (env w') \<le> elapsed (env w) + (length ts + 1) * 21000000"
  using assms
proof (induction ts arbitrary: w)
  case Nil
  then show ?case by (simp add: answer_of_def)
next
  case (Cons t ts)
  have t: "elapsed (env w) + 1000000 < unat deadline" using Cons.prems(5) by simp
  have c: "(0 :: u16) < 1" "unat ((1 :: u16) - 0) \<le> length buf"
    using Cons.prems(7) by (simp_all add: Suc_le_eq)
  have m: "min (unat ((1 :: u16) - 0)) (length (fifo_bytes (rx_fifo w))) = 0"
    using Cons.prems(2) by simp
  obtain w1 where w1: "read_serial_loop k 1 deadline (buf, 0, w) = read_serial_loop k 1 deadline (buf, 0, w1)"
      "driver_ok live w1" "transit (env w1) = ts" "fifo_bytes (rx_fifo w1) = lossy_push 256 [] t"
      "elapsed (env w1) \<le> elapsed (env w) + 21000000"
    using loop_round [OF Cons.prems(1) t Cons.prems(6) c] Cons.prems(2,3) unfolding m by auto
  note split = answer_of_Cons [OF Cons.prems(4)]
  show ?case
  proof (cases "ts = []")
    case False
    then have f: "fifo_bytes (rx_fifo w1) = []" "answer_of ts = x # bs"
      using split w1(4) by (simp_all add: lossy_push_def)
    have "elapsed (env w1) + (length ts + 1) * 21000000 \<le> unat deadline"
      using Cons.prems(5) w1(5) by simp
    from Cons.IH [OF w1(2) f(1) w1(3) f(2) this Cons.prems(6,7)] w1(1,5) show ?thesis
      by auto
  next
    case True
    then have f: "fifo_bytes (rx_fifo w1) = x # bs"
      using split w1(4) answer_of_length [OF Cons.prems(4)] by (simp add: lossy_push_def)
    have t1: "elapsed (env w1) + 1000000 < unat deadline" using Cons.prems(5) w1(5) True by simp
    have m1: "min (unat ((1 :: u16) - 0)) (length (fifo_bytes (rx_fifo w1))) = 1"
      using f by simp
    obtain w2 where w2: "read_serial_loop k 1 deadline (buf, 0, w1) = read_serial_loop k 1 deadline (x # tl buf, 1, w2)"
        "driver_ok live w2" "transit (env w2) = []" "fifo_bytes (rx_fifo w2) = bs"
        "elapsed (env w2) \<le> elapsed (env w1) + 21000000"
      using loop_round [OF w1(2) t1 Cons.prems(6) c] w1(3) True f unfolding m1 by (auto simp: drop_Suc)
    have "read_serial_loop k 1 deadline (x # tl buf, 1, w2) = Some (False, x # tl buf, 1, w2)"
      by (rule loop_done) simp
    then show ?thesis using w1(1,5) w2 True by auto
  qed
qed

lemma read_first:
  assumes "line_coming live elapsed transit w (x # bs)" "buf \<noteq> []"
  shows "\<exists>w'. read_serial k (Some buf) 1 1000 a w = Some (1, Some (x # tl buf), w') \<and> line_arrived live elapsed transit w' bs"
proof -
  have w: "driver_ok live w" "fifo_bytes (rx_fifo w) = []" "answer_of (transit (env w)) = x # bs"
      "elapsed (env w) < 2 ^ 61 + 100000000"
    using assms(1) by (simp_all add: line_coming_def)
  have len: "length (transit (env w)) \<le> 32" "length (x # bs) \<le> 256"
    using answer_of_length [OF w(3)] by simp_all
  obtain w1 deadline where w1: "driver_ok live w1" "rx_fifo w1 = rx_fifo w" "transit (env w1) = transit (env w)"
      "elapsed (env w1) \<le> elapsed (env w) + 1000000" "unat deadline = elapsed (env w1) + 1000000000"
    and rd: "read_serial k (Some buf) 1 1000 a w = do {
       (failed, b, read_bytes, w) \<leftarrow> read_serial_loop k 1 deadline (buf, 0, w1);
       if failed then Some (- EFAULT, Some b, w)
       else (case ktime k w of (timestamp_stop, w) \<Rightarrow>
         if timestamp_stop > deadline then Some (- ETIMEDOUT, Some b, w) else Some (ucast read_bytes, Some b, w)) }"
    by (rule read_serial_start [OF w(1), of 1000 buf 1 a]; use w(4) in simp)
  have dl: "unat deadline \<le> 2 ^ 62" "elapsed (env w1) + (length (transit (env w)) + 1) * 21000000 \<le> unat deadline"
    using w1(4,5) w(4) len(1) by auto
  obtain w2 where w2: "read_serial_loop k 1 deadline (buf, 0, w1) = Some (False, x # tl buf, 1, w2)"
      "driver_ok live w2" "fifo_bytes (rx_fifo w2) = bs" "transit (env w2) = []"
      "elapsed (env w2) \<le> elapsed (env w1) + (length (transit (env w)) + 1) * 21000000"
    using loop_first [OF w1(1) _ w1(3) w(3) dl(2,1) assms(2)] w1(2) w(2) by auto
  have "(length (transit (env w)) + 1) * 21000000 \<le> 33 * 21000000"
    using len(1) by (intro mult_le_mono1) simp
  then have e2: "elapsed (env w2) \<le> elapsed (env w1) + 693000000" using w2(5) by simp
  have lt: "elapsed (env w2) < 2 ^ 62" using e2 w1(4) w(4) by simp
  obtain t w3 where w3: "ktime k w2 = (t, w3)" "unat t = elapsed (env w3)" "elapsed (env w3) \<le> elapsed (env w2) + 1000000"
      "driver_ok live w3" "rx_fifo w3 = rx_fifo w2" "transit (env w3) = []"
    using clock_read [OF w2(2) lt] w2(4) by metis
  have "\<not> deadline < t"
    using w3(2,3) e2 w1(5) by (simp add: word_less_nat_alt)
  moreover have "line_arrived live elapsed transit w3 bs"
    using w3 w2(3) e2 w1(4) w(4) len(2) by (simp add: line_arrived_def)
  ultimately show ?thesis
    unfolding rd w2(1) using w3(1) by simp
qed

lemma line_answer_fifo [simp]: "line_answer reply (w\<lparr>rx_fifo := f\<rparr>) = line_answer reply w"
  by (simp add: fun_eq_iff line_answer_def)

lemma line_flush:
  assumes "line_idle live elapsed transit w" "length buf = 260"
  shows "\<exists>ret b w'. read_serial k (Some buf) 260 0 a w = Some (ret, Some b, w') \<and> length b = 260 \<and>
    line_quiet live elapsed transit w' \<and> line_answer reply w' = line_answer reply w"
  using assms byte_fifo_reset_spec [of "rx_fifo w"]
  by (auto simp: read_serial_def line_idle_def line_quiet_def line_answer_def driver_ok_def)

lemma line_send:
  assumes "line_quiet live elapsed transit w" "0 < unat count" "unat count \<le> length buf" "line_answer reply w (take (unat count) buf) \<noteq> []"
  shows "\<exists>w'. write_serial k (Some buf) count 100 a w = Some (ucast count, w') \<and>
    line_coming live elapsed transit w' (line_answer reply w (take (unat count) buf))"
proof -
  obtain d where d: "dev_serdev w = Some d" and w: "driver_ok live w" "transit (env w) = []" "elapsed (env w) < 2 ^ 61"
      "fifo_bytes (rx_fifo w) = []"
    using assms(1) by (auto simp: line_quiet_def line_idle_def)
  let ?bs = "take (unat count) buf"
  obtain r e where e: "serdev_device_write_buf k d ?bs (env w) = (r, e)" by fastforce
  have l: "live (env w)" "elapsed (env w) < 2 ^ 62" "?bs \<noteq> []"
    using w assms(2,3) by (auto simp: driver_ok_def)
  note sent = write_transmits [OF l(1,2) w(2) l(3) e]
  have "r = ucast count"
    using sent assms(3) by (simp add: min_absorb2)
  then show ?thesis
    using d w assms(3,4) e sent write_live [OF l(1) e]
    by (simp add: write_serial_def buf_slice_def line_coming_def line_answer_def driver_ok_def)
qed

end

text \<open>The line interface, on the driver's platform functions with the timeouts the driver sets.\<close>

sublocale timely_kernel \<subseteq> line: half_duplex_line "read_serial k" "write_serial k"
    "line_idle live elapsed transit" "line_quiet live elapsed transit" "line_coming live elapsed transit"
    "line_arrived live elapsed transit" "line_answer reply" 1000 100
  by unfold_locales (rule line_flush line_send read_first read_more; assumption)+

section \<open>Answers that do not come in one burst, or not at all\<close>

context timely_kernel
begin

text \<open>
  Every pass of the read loop stores at the start of the caller's buffer.  When the bytes come
  in two bursts, the second overwrites the first, and the call still reports them all.
\<close>

lemma read_two_bursts:
  assumes w: "driver_ok live w" "fifo_bytes (rx_fifo w) = xs" "transit (env w) = [ys]" "elapsed (env w) < 2 ^ 61"
    and len: "xs \<noteq> []" "ys \<noteq> []" "length xs + length ys \<le> 256" "length xs + length ys \<le> length buf"
  shows "\<exists>w'. read_serial k (Some buf) (of_nat (length xs + length ys)) 100 a w =
    Some (of_nat (length xs + length ys), Some (ys @ drop (length ys) (xs @ drop (length xs) buf)), w')"
proof -
  let ?n = "length xs + length ys" and ?count = "of_nat (length xs + length ys) :: u16"
  have count: "unat ?count = ?n" "unat (of_nat (length xs) :: u16) = length xs"
    using len(3) by (intro unat_of_nat_less; simp)+
  obtain w1 deadline where w1: "driver_ok live w1" "rx_fifo w1 = rx_fifo w" "transit (env w1) = [ys]"
      "elapsed (env w1) \<le> elapsed (env w) + 1000000" "unat deadline = elapsed (env w1) + 100000000"
    and rd: "read_serial k (Some buf) ?count 100 a w = do {
       (failed, b, read_bytes, w) \<leftarrow> read_serial_loop k ?count deadline (buf, 0, w1);
       if failed then Some (- EFAULT, Some b, w)
       else (case ktime k w of (timestamp_stop, w) \<Rightarrow>
         if timestamp_stop > deadline then Some (- ETIMEDOUT, Some b, w) else Some (ucast read_bytes, Some b, w)) }"
    by (rule read_serial_start [OF w(1), of 100 buf ?count a]; use w(3,4) in simp)
  have dl: "unat deadline \<le> 2 ^ 62" "elapsed (env w1) + 1000000 < unat deadline"
    using w1(4,5) w(4) by auto
  have c1: "(0 :: u16) < ?count" "unat (?count - 0) \<le> length buf"
    using len(1,4) count(1) by (simp_all add: word_less_nat_alt del: of_nat_add)
  have m1: "min (unat (?count - 0)) (length (fifo_bytes (rx_fifo w1))) = length xs"
    using count(1) w(2) w1(2) by (simp del: of_nat_add)
  obtain w2 where w2: "read_serial_loop k ?count deadline (buf, 0, w1) =
       read_serial_loop k ?count deadline (xs @ drop (length xs) buf, of_nat (length xs), w2)"
    "driver_ok live w2" "transit (env w2) = []" "fifo_bytes (rx_fifo w2) = ys"
    "elapsed (env w2) \<le> elapsed (env w1) + 21000000"
    using loop_round [OF w1(1) dl(2,1) c1] w1(2,3) w(2) len(3) unfolding m1 by (auto simp: lossy_push_def)
  have d2: "elapsed (env w2) + 1000000 < unat deadline" using w2(5) w1(5) by simp
  have lt: "(of_nat (length xs) :: u16) < ?count"
    unfolding word_less_nat_alt count using len(2) by simp
  have left: "unat (?count - of_nat (length xs)) = length ys"
    using lt count by (simp add: unat_sub less_imp_le del: of_nat_add)
  have c2: "unat (?count - of_nat (length xs)) \<le> length (xs @ drop (length xs) buf)"
    unfolding left using len(4) by simp
  have m2: "min (unat (?count - of_nat (length xs))) (length (fifo_bytes (rx_fifo w2))) = length ys"
    unfolding left w2(4) by simp
  obtain w3 where w3: "read_serial_loop k ?count deadline (xs @ drop (length xs) buf, of_nat (length xs), w2) =
       read_serial_loop k ?count deadline (ys @ drop (length ys) (xs @ drop (length xs) buf),
         of_nat (length xs) + of_nat (length ys), w3)"
    "driver_ok live w3" "elapsed (env w3) \<le> elapsed (env w2) + 21000000"
    using loop_round [OF w2(2) d2 dl(1) lt c2] w2(4) unfolding m2 by auto
  have fin: "read_serial_loop k ?count deadline (buf, 0, w1) =
      Some (False, ys @ drop (length ys) (xs @ drop (length xs) buf), ?count, w3)"
    unfolding w2(1) w3(1) of_nat_add [symmetric] by (rule loop_done) simp
  have "elapsed (env w3) < 2 ^ 62" using w3(3) w2(5) w1(4) w(4) by simp
  then obtain t w4 where w4: "ktime k w3 = (t, w4)" "unat t = elapsed (env w4)" "elapsed (env w4) \<le> elapsed (env w3) + 1000000"
    using clock_read [OF w3(2)] by metis
  have "\<not> deadline < t"
    using w4(2,3) w3(3) w2(5) w1(5) by (simp add: word_less_nat_alt)
  moreover have "(ucast ?count :: i32) = of_nat ?n"
    using count(1) by (metis of_nat_unat)
  ultimately show ?thesis
    unfolding rd fin using w4(1) by simp
qed

end

text \<open>A clock that advances with every call.\<close>

locale strict_kernel = timely_kernel k live wait elapsed transit reply
  for k :: "'e kernel" and live :: "'e \<Rightarrow> bool" and wait :: "u64 \<Rightarrow> 'e \<Rightarrow> nat"
    and elapsed :: "'e \<Rightarrow> nat" and transit :: "'e \<Rightarrow> u8 list list" and reply :: "'e \<Rightarrow> u8 list \<Rightarrow> u8 list list" +
  assumes clock_strict: "live e \<Longrightarrow> elapsed e < 2 ^ 62 \<Longrightarrow> ktime_get_ns k e = (t, e') \<Longrightarrow> elapsed e < elapsed e'"

context strict_kernel
begin

text \<open>When the loop ends with bytes missing, its deadline has passed.\<close>

definition timed_out :: "bool \<Rightarrow> u16 \<Rightarrow> u64 \<Rightarrow> 'e driver \<Rightarrow> bool \<times> u8 list \<times> u16 \<times> 'e driver \<Rightarrow> bool" where
  "timed_out silent count deadline w = (\<lambda>(failed, buf', read_bytes', w'). \<not> failed \<and> driver_ok live w' \<and>
     (read_bytes' = count \<or> unat deadline \<le> elapsed (env w')) \<and>
     elapsed (env w') \<le> max (elapsed (env w) + 1000000) (unat deadline + 22000000) \<and>
     (silent \<longrightarrow> read_bytes' = 0))"

lemma loop_timed_out:
  assumes "driver_ok live w" "unat count \<le> length buf" "read_bytes \<le> count"
    and "elapsed (env w) < 2 ^ 61" "unat deadline < 2 ^ 61 - 30000000"
    and "silent \<longrightarrow> fifo_bytes (rx_fifo w) = [] \<and> transit (env w) = [] \<and> read_bytes = 0"
  shows "returns (read_serial_loop k count deadline (buf, read_bytes, w)) (timed_out silent count deadline w)"
  using assms
proof (induction "wait deadline (env w)" arbitrary: w buf read_bytes rule: less_induct)
  case less
  have lt: "elapsed (env w) < 2 ^ 62" "live (env w)" using less.prems by (simp_all add: driver_ok_def)
  obtain t w1 where t: "ktime k w = (t, w1)" "unat t = elapsed (env w1)" "elapsed (env w) \<le> elapsed (env w1)"
      "elapsed (env w1) \<le> elapsed (env w) + 1000000" "driver_ok live w1" "rx_fifo w1 = rx_fifo w"
      "transit (env w1) = transit (env w)"
    using clock_read [OF less.prems(1) lt(1)] by metis
  consider "read_bytes = count" | "read_bytes < count" "\<not> t < deadline" | "read_bytes < count" "t < deadline"
    using less.prems(3) by fastforce
  then show ?case
  proof cases
    case 1
    then show ?thesis
      using less.prems by (simp add: loop_done timed_out_def)
  next
    case 2
    then show ?thesis
      using less.prems t by (subst read_serial_loop.simps) (auto simp: timed_out_def word_less_nat_alt)
  next
    case 3
    note True = conjI [OF 3]
    let ?left = "count - read_bytes"
    let ?m = "min (unat ?left) (length (fifo_bytes (rx_fifo w1)))"
    have f: "fifo_inv (rx_fifo w1)" "fifo_cap (rx_fifo w1) = 256" "length (fifo_bytes (rx_fifo w1)) \<le> 256"
      using t(5) fifo.bound [of "Some (rx_fifo w1)"] by (auto simp: driver_ok_def fifo_view_defs)
    have left: "unat ?left = unat count - unat read_bytes"
      using True by (simp add: unat_sub less_imp_le)
    have u: "unat (ucast ?left :: u32) = unat ?left" "unat ?left < 2 ^ 16"
      using unsigned_less [of ?left, where ?'a = nat] by (simp_all add: unat_ucast)
    have fits: "unat (ucast ?left :: u32) \<le> length buf" "unat (ucast ?left :: u32) < 2 ^ 31"
      using left u less.prems(2) by simp_all
    obtain res g where rd: "byte_fifo_read (Some (rx_fifo w1)) (Some buf) (ucast ?left) =
        Some (res, Some g, Some (take ?m (fifo_bytes (rx_fifo w1)) @ drop ?m buf))"
      and g: "fifo_inv g" "fifo_cap g = 256" "fifo_bytes g = drop ?m (fifo_bytes (rx_fifo w1))" "unat res = ?m"
      using byte_fifo_read_spec [OF f(1) fits] u f by (auto simp: Let_def elim!: returnsE)
    have res: "0 \<le>s res"
      using sint_eq_uint_small [of res] g(4) f(3) by (simp add: word_sle_eq)
    obtain bufs e2 where e2: "msleep k 10 (env w1) = (bufs, e2)" by fastforce
    have l1: "live (env w1)" "elapsed (env w1) < 2 ^ 62" using t(4,5) less.prems(4) by (simp_all add: driver_ok_def)
    note sleeps = sleep_delivers [OF l1 e2]
    let ?w2 = "w1\<lparr>rx_fifo := g, env := e2\<rparr>"
    obtain f' where d: "deliver bufs ?w2 = Some (?w2\<lparr>rx_fifo := f'\<rparr>)"
        "fifo_inv f'" "fifo_cap f' = 256" "fifo_bytes f' = foldl (lossy_push 256) (fifo_bytes g) bufs"
      using deliver_spec [of ?w2 bufs] sleep_live [OF l1(1) e2] g(1,2) by (auto elim!: returnsE)
    let ?w3 = "?w2\<lparr>rx_fifo := f'\<rparr>" and ?buf = "take ?m (fifo_bytes (rx_fifo w1)) @ drop ?m buf"
    have round: "read_serial_loop k count deadline (buf, read_bytes, w) =
        read_serial_loop k count deadline (?buf, read_bytes + res, ?w3)"
      using True t(1) rd res d(1) by (subst read_serial_loop.simps) (simp add: msleep_10_def e2 Let_def)
    have "unat res \<le> unat ?left" using g(4) by simp
    then have le: "unat read_bytes + unat res \<le> unat count" using left True
      by (simp add: word_less_nat_alt) linarith
    have sum: "unat (read_bytes + res) = unat read_bytes + unat res"
      using le unsigned_less [of count, where ?'a = nat] by (simp add: unat_word_ariths)
    have "wait deadline (env ?w3) < wait deadline (env w)"
      using time_passes [of "env w" t "env w1" deadline bufs e2] lt(2) t(1) True e2
      by (auto simp: ktime_def split: prod.splits)
    moreover have "driver_ok live ?w3" using d sleep_live [OF l1(1) e2] by (simp add: driver_ok_def)
    moreover have "unat count \<le> length ?buf" "read_bytes + res \<le> count"
      using less.prems(2) le sum left u by (simp_all add: word_le_nat_alt)
    moreover have e3: "elapsed (env ?w3) \<le> unat deadline + 20000000"
      using sleeps t(2) True by (simp add: word_less_nat_alt)
    moreover have "elapsed (env ?w3) < 2 ^ 61" using e3 less.prems(5) by simp
    moreover have "silent \<longrightarrow> fifo_bytes (rx_fifo ?w3) = [] \<and> transit (env ?w3) = [] \<and> read_bytes + res = 0"
    proof
      assume silent
      then have e: "fifo_bytes (rx_fifo w1) = []" "transit (env w1) = []" "read_bytes = 0"
        using less.prems(6) t(6,7) by simp_all
      have "unat res = 0" using g(4) unfolding e by simp
      then have "res = 0" by (simp add: unat_eq_zero)
      then show "fifo_bytes (rx_fifo ?w3) = [] \<and> transit (env ?w3) = [] \<and> read_bytes + res = 0"
        using d(4) g(3) sleeps e by simp
    qed
    ultimately have "returns (read_serial_loop k count deadline (?buf, read_bytes + res, ?w3))
        (timed_out silent count deadline ?w3)"
      using less.hyps [of ?w3 ?buf "read_bytes + res"] less.prems(5) by simp
    then show ?thesis
      unfolding round using e3 by (elim returns_mono) (auto simp: timed_out_def)
  qed
qed

text \<open>
  So \<open>read_serial\<close> with a positive timeout returns all that was asked for or \<open>-ETIMEDOUT\<close>, and
  on a silent line it returns \<open>-ETIMEDOUT\<close>.
\<close>

lemma read_serial_all_or_nothing:
  assumes w: "driver_ok live w" "elapsed (env w) < 2 ^ 60" and ms: "ms \<noteq> 0" "unat ms \<le> 1000"
    and len: "unat count \<le> length buf" "0 < unat count"
  shows "returns (read_serial k (Some buf) count ms a w) (\<lambda>(r, _, w'). driver_ok live w' \<and>
    (r = ucast count \<or> r = - ETIMEDOUT) \<and>
    (fifo_bytes (rx_fifo w) = [] \<and> transit (env w) = [] \<longrightarrow> r = - ETIMEDOUT))"
proof -
  obtain w1 deadline where w1: "driver_ok live w1" "rx_fifo w1 = rx_fifo w" "transit (env w1) = transit (env w)"
      "elapsed (env w1) \<le> elapsed (env w) + 1000000" "unat deadline = elapsed (env w1) + unat ms * 1000000"
    and rd: "read_serial k (Some buf) count ms a w = do {
       (failed, b, read_bytes, w) \<leftarrow> read_serial_loop k count deadline (buf, 0, w1);
       if failed then Some (- EFAULT, Some b, w)
       else (case ktime k w of (timestamp_stop, w) \<Rightarrow>
         if timestamp_stop > deadline then Some (- ETIMEDOUT, Some b, w) else Some (ucast read_bytes, Some b, w)) }"
    by (rule read_serial_start [OF w(1) _ ms, of buf count a]; use w(2) in simp)
  let ?silent = "fifo_bytes (rx_fifo w) = [] \<and> transit (env w) = []"
  have dl: "elapsed (env w1) < 2 ^ 61" "unat deadline < 2 ^ 61 - 30000000"
    using w1(4,5) w(2) ms(2) by auto
  have "returns (read_serial_loop k count deadline (buf, 0, w1)) (timed_out ?silent count deadline w1)"
    by (rule loop_timed_out) (use w1 len dl in auto)
  then obtain res where res: "read_serial_loop k count deadline (buf, 0, w1) = Some res"
      "timed_out ?silent count deadline w1 res"
    by (rule returnsE)
  obtain failed buf' rb w2 where [simp]: "res = (failed, buf', rb, w2)" by (cases res)
  have l: "read_serial_loop k count deadline (buf, 0, w1) = Some (False, buf', rb, w2)"
      "driver_ok live w2" "rb = count \<or> unat deadline \<le> elapsed (env w2)"
      "elapsed (env w2) \<le> max (elapsed (env w1) + 1000000) (unat deadline + 22000000)" "?silent \<longrightarrow> rb = 0"
    using res by (simp_all add: timed_out_def)
  have lt: "elapsed (env w2) < 2 ^ 62" using l(4) dl by simp
  obtain t w3 where t: "ktime k w2 = (t, w3)" "unat t = elapsed (env w3)" "driver_ok live w3"
    using clock_read [OF l(2) lt] by metis
  have strict: "elapsed (env w2) < elapsed (env w3)"
    using clock_strict [of "env w2" t "env w3"] l(2) lt t(1)
    by (auto simp: driver_ok_def ktime_def split: prod.splits)
  have "deadline < t" if "rb \<noteq> count"
    using l(3) that strict t(2) by (simp add: word_less_nat_alt)
  moreover have "count \<noteq> 0" using len(2) by auto
  ultimately show ?thesis
    unfolding rd l(1) using t(1,3) l(5) by auto
qed

end

end
