(* ===== verification/Modbus_Ioctl.thy ===== *)
theory Modbus_Ioctl
  imports Prelude
begin

text \<open>
  \<^verbatim>\<open>serial_driver/serial_modbus_ioctl.h\<close>: the ioctl command that the driver and the user programs share.
  \<^verbatim>\<open>_IOWR(0x16, 1, unsigned long)\<close> has direction 3, size 8, type \<^verbatim>\<open>0x16\<close> and number 1.
\<close>

definition SERIAL_MODBUS_IOC_MAGIC :: u32 where "SERIAL_MODBUS_IOC_MAGIC = 0x16"

definition SERIAL_MODBUSCHAR_IOCSETADDR :: u32 where
  "SERIAL_MODBUSCHAR_IOCSETADDR =
     push_bit 30 3 OR push_bit 16 8 OR push_bit 8 SERIAL_MODBUS_IOC_MAGIC OR 1"

end
