(* ===== verification/Driver_Device.thy ===== *)
theory Driver_Device
  imports Driver_Line Modbus_Ioctl
begin

text \<open>
  The rest of \<^verbatim>\<open>serial_driver/serial_modbus_main.c\<close>: the file operations of the character
  device, the ioctl, probe and remove of the serial device, and loading and unloading of the
  module.  The kernel services are the parameter \<open>k\<close>.  The mutex \<^verbatim>\<open>modbus_lock\<close> is not a field of
  the model: the library call that it protects is one step.
\<close>

section \<open>State\<close>

text \<open>Settings of a serial port, in the order the code makes them.\<close>

datatype port_call =
    Set_client_ops | Set_baudrate u32 | Set_flow_control bool | Set_parity_none | Close

text \<open>
  \<open>kmalloc\<close> returns a fresh block, that is, its identity for \<open>kfree\<close> and its arbitrary contents, or
  NULL.  The user-space copies
  return the number of bytes that were \<^emph>\<open>not\<close> copied.  \<open>serdev_device_driver_register\<close> returns
  its status and the devices the bus probes with the new driver before it returns.
\<close>

type_synonym kblock = nat

record 'e module_kernel = "'e kernel" +
  kmalloc :: "u64 \<Rightarrow> 'e \<Rightarrow> (kblock \<times> u8 list) option \<times> 'e"
  kfree :: "kblock \<Rightarrow> 'e \<Rightarrow> 'e"
  copy_to_user :: "void_ptr \<Rightarrow> u8 list \<Rightarrow> 'e \<Rightarrow> u64 \<times> 'e"
  copy_from_user :: "u8 list \<Rightarrow> void_ptr \<Rightarrow> u64 \<Rightarrow> 'e \<Rightarrow> u64 \<times> u8 list"
  serdev_device_open :: "void_ptr \<Rightarrow> 'e \<Rightarrow> i32 \<times> 'e"
  serdev_port_call :: "void_ptr \<Rightarrow> port_call \<Rightarrow> 'e \<Rightarrow> 'e"
  serdev_device_driver_register :: "'e \<Rightarrow> i32 \<times> void_ptr list \<times> 'e"
  serdev_device_driver_unregister :: "'e \<Rightarrow> void_ptr list \<times> 'e"
  alloc_chrdev_region :: "'e \<Rightarrow> i32 \<times> u32 \<times> 'e"
  unregister_chrdev_region :: "u32 \<Rightarrow> 'e \<Rightarrow> 'e"
  cdev_add :: "u32 \<Rightarrow> 'e \<Rightarrow> i32 \<times> 'e"
  cdev_del :: "'e \<Rightarrow> 'e"

text \<open>The globals of the module: \<^verbatim>\<open>nmbs\<close>, the major number, and the state of \<open>Driver_Serial\<close>.\<close>

record 'e module_state =
  nmbs :: "'e driver nmbs_t"
  modbus_dev_major :: u32
  drv :: "'e driver"

definition modbus_dev_minor :: u32 where "modbus_dev_minor = 0"

text \<open>
  The private data of an open file: \<open>handle_block\<close> is the block it lies in, and \<open>handle_dev\<close> says
  whether its device pointer is set.
\<close>

record modbus_handle_t =
  handle_block :: kblock
  start_address :: u16
  handle_dev :: bool

definition with_env :: "'e module_state \<Rightarrow> 'e \<Rightarrow> 'e module_state" where
  "with_env s e = s\<lparr>drv := (drv s)\<lparr>env := e\<rparr>\<rparr>"

section \<open>File operations\<close>

type_synonym ssize = "64 word"

definition modbus_dev_open ::
  "'e module_kernel \<Rightarrow> 'e module_state \<Rightarrow> i32 \<times> modbus_handle_t option \<times> 'e module_state" where
  "modbus_dev_open k s = (case kmalloc k 16 (env (drv s)) of
     (None, e) \<Rightarrow> (- ENOMEM, None, with_env s e)
   | (Some (block, _), e) \<Rightarrow>
       (0, Some \<lparr>handle_block = block, start_address = 0, handle_dev = True\<rparr>, with_env s e))"

text \<open>\<^verbatim>\<open>kfree(filp->private_data)\<close>: the handle is gone; a NULL pointer is left alone.\<close>

definition modbus_dev_release ::
  "'e module_kernel \<Rightarrow> modbus_handle_t option \<Rightarrow> 'e module_state \<Rightarrow> i32 \<times> modbus_handle_t option \<times> 'e module_state" where
  "modbus_dev_release k private_data s = (case private_data of
     None \<Rightarrow> (0, None, s)
   | Some handle \<Rightarrow> (0, None, with_env s (kfree k (handle_block handle) (env (drv s)))))"

definition modbus_dev_read ::
  "'e module_kernel \<Rightarrow> modbus_handle_t option \<Rightarrow> void_ptr \<Rightarrow> u64 \<Rightarrow> 'e module_state \<Rightarrow>
     (ssize \<times> 'e module_state) option" where
  "modbus_dev_read k private_data buf count s = do {
     handle \<leftarrow> private_data;
     if \<not> handle_dev handle \<or> buf = 0 then Some (- EFAULT, s)
     else do {
       let start_addr = start_address handle;
       let n_regs = count div 2;
       if ucast start_addr + n_regs > UINT16_MAX \<or> n_regs > 125 then Some (- EINVAL, s)
       else do {
         let buffer_size = n_regs * 2;
         (case kmalloc k buffer_size (env (drv s)) of
            (None, e) \<Rightarrow> Some (- ENOMEM, with_env s e)
          | (Some (block, kbuffer), e) \<Rightarrow> do {
              (err, out, n, w) \<leftarrow> nmbs_read_holding_registers (nmbs s) start_addr (ucast n_regs)
                 (Some (host_words kbuffer)) ((drv s)\<lparr>env := e\<rparr>);
              let s = s\<lparr>nmbs := n, drv := w\<rparr>;
              if err \<noteq> NMBS_ERROR_NONE then Some (- EIO, with_env s (kfree k block (env w)))
              else do {
                registers \<leftarrow> out;
                bytes \<leftarrow> buf_slice (host_bytes registers) 0 (unat buffer_size);
                let (left, e) = copy_to_user k buf bytes (env w);
                if left > 0 then Some (- EFAULT, with_env s (kfree k block e))
                else Some (count, with_env s (kfree k block e))
              }
            })
       }
     }
   }"

definition modbus_dev_write ::
  "'e module_kernel \<Rightarrow> modbus_handle_t option \<Rightarrow> void_ptr \<Rightarrow> u64 \<Rightarrow> 'e module_state \<Rightarrow>
     (ssize \<times> 'e module_state) option" where
  "modbus_dev_write k private_data buf count s = do {
     handle \<leftarrow> private_data;
     if \<not> handle_dev handle \<or> buf = 0 then Some (- EFAULT, s)
     else do {
       let start_addr = start_address handle;
       let n_regs = count div 2;
       if ucast start_addr + n_regs > UINT16_MAX \<or> n_regs > 125 then Some (- EINVAL, s)
       else do {
         let buffer_size = n_regs * 2;
         (case kmalloc k buffer_size (env (drv s)) of
            (None, e) \<Rightarrow> Some (- ENOMEM, with_env s e)
          | (Some (block, kbuffer), e) \<Rightarrow>
              (case copy_from_user k kbuffer buf buffer_size e of (left, kbuffer) \<Rightarrow>
                 if left \<noteq> 0 then Some (- EFAULT, with_env s (kfree k block e))
                 else do {
                   (err, n, w) \<leftarrow> nmbs_write_multiple_registers (nmbs s) start_addr (ucast n_regs)
                      (host_words kbuffer) ((drv s)\<lparr>env := e\<rparr>);
                   let s = with_env (s\<lparr>nmbs := n, drv := w\<rparr>) (kfree k block (env w));
                   if err \<noteq> NMBS_ERROR_NONE then Some (- ENODEV, s)
                   else Some (count, s)
                 }))
       }
     }
   }"

text \<open>An \<^verbatim>\<open>unsigned long\<close> in little-endian memory.\<close>

fun host_ulong :: "u8 list \<Rightarrow> u64" where
  "host_ulong [] = 0"
| "host_ulong (b # bs) = ucast b OR push_bit 8 (host_ulong bs)"

definition modbus_dev_ioctl ::
  "'e module_kernel \<Rightarrow> modbus_handle_t option \<Rightarrow> u32 \<Rightarrow> u64 \<Rightarrow> 'e module_state \<Rightarrow>
     (ssize \<times> modbus_handle_t option) option" where
  "modbus_dev_ioctl k private_data cmd arg s = do {
     if cmd \<noteq> SERIAL_MODBUSCHAR_IOCSETADDR then Some (- ENOTTY, private_data)
     else (case copy_from_user k (replicate 8 0) arg 8 (env (drv s)) of (left, mem) \<Rightarrow>
        if left \<noteq> 0 then Some (- EFAULT, private_data)
        else (let new_address = host_ulong mem in
          if UINT16_MAX \<le> new_address then Some (- EINVAL, private_data)
          else do {
            handle \<leftarrow> private_data;
            Some (0, Some (handle\<lparr>start_address := ucast new_address\<rparr>))
          }))
   }"

section \<open>Probe and remove\<close>

definition serdev_serial_probe ::
  "'e module_kernel \<Rightarrow> void_ptr \<Rightarrow> 'e driver \<Rightarrow> i32 \<times> 'e driver" where
  "serdev_serial_probe k serdev w = (
     let e = serdev_port_call k serdev Set_client_ops (env w);
         (status, e) = serdev_device_open k serdev e in
     if status \<noteq> 0 then (- status, w\<lparr>env := e\<rparr>)
     else
       let e = serdev_port_call k serdev (Set_baudrate 115200) e;
           e = serdev_port_call k serdev (Set_flow_control False) e;
           e = serdev_port_call k serdev Set_parity_none e in
       (0, w\<lparr>env := e, dev_serdev := Some serdev\<rparr>))"

definition serdev_serial_remove :: "'e module_kernel \<Rightarrow> void_ptr \<Rightarrow> 'e driver \<Rightarrow> 'e driver" where
  "serdev_serial_remove k serdev w = w\<lparr>env := serdev_port_call k serdev Close (env w)\<rparr>"

section \<open>Loading and unloading\<close>

definition modbus_dev_setup_cdev :: "'e module_kernel \<Rightarrow> 'e module_state \<Rightarrow> i32 \<times> 'e module_state" where
  "modbus_dev_setup_cdev k s = (
     let devno = push_bit 20 (modbus_dev_major s) OR modbus_dev_minor;
         (err, e) = cdev_add k devno (env (drv s)) in
     (err, with_env s e))"

text \<open>
  \<^verbatim>\<open>MAJOR(dev)\<close> drops the 20 bits of the minor number.  The probe function is called for every
  device that the bus matches while the driver is being registered.
\<close>

definition my_init :: "'e module_kernel \<Rightarrow> 'e module_state \<Rightarrow> (i32 \<times> 'e module_state) option" where
  "my_init k s = (
     case serdev_device_driver_register k (env (drv s)) of (status, probed, e) \<Rightarrow>
     let s = with_env s e;
         s = s\<lparr>drv := foldl (\<lambda>w serdev. snd (serdev_serial_probe k serdev w)) (drv s) probed\<rparr> in
     if status \<noteq> 0 then Some (-1, s)
     else (case alloc_chrdev_region k (env (drv s)) of (result, dev, e) \<Rightarrow>
       let s = (with_env s e)\<lparr>modbus_dev_major := drop_bit 20 dev\<rparr> in
       if result <s 0 then Some (result, s)
       else do {
         let w = (drv s)\<lparr>dev_fifo := False, dev_serdev := None\<rparr>;
         (_, fifo) \<leftarrow> byte_fifo_init (Some (rx_fifo w));
         f \<leftarrow> fifo;
         let w = w\<lparr>rx_fifo := f, dev_fifo := True\<rparr>;
         let (status, n) = init_modbus_client (kernel.truncate k) (Some (nmbs s));
         n \<leftarrow> n;
         let s = s\<lparr>drv := w, nmbs := n\<rparr>;
         if status \<noteq> NMBS_ERROR_NONE then Some (- ENODEV, s)
         else do {
           let s = s\<lparr>nmbs := nmbs_set_destination_rtu_address (nmbs s) 1\<rparr>;
           let (result, s) = modbus_dev_setup_cdev k s;
           Some (result, if result \<noteq> 0 then with_env s (unregister_chrdev_region k dev (env (drv s))) else s)
         }
       }))"

definition my_exit :: "'e module_kernel \<Rightarrow> 'e module_state \<Rightarrow> 'e module_state" where
  "my_exit k s = (
     case serdev_device_driver_unregister k (env (drv s)) of (removed, e) \<Rightarrow>
     let s = with_env s e;
         s = s\<lparr>drv := foldl (\<lambda>w serdev. serdev_serial_remove k serdev w) (drv s) removed\<rparr>;
         devno = push_bit 20 (modbus_dev_major s) OR modbus_dev_minor;
         s = with_env s (cdev_del k (env (drv s))) in
     with_env s (unregister_chrdev_region k devno (env (drv s))))"

section \<open>The argument of the ioctl\<close>

definition ulong_bytes :: "u64 \<Rightarrow> u8 list" where
  "ulong_bytes v = map (\<lambda>i. ucast (drop_bit (8 * i) v)) [0..<8]"

lemma length_ulong_bytes [simp]: "length (ulong_bytes v) = 8"
  by (simp add: ulong_bytes_def)

lemma bit_host_ulong:
  "n < 64 \<Longrightarrow> bit (host_ulong bs) n \<longleftrightarrow> n div 8 < length bs \<and> bit (bs ! (n div 8)) (n mod 8)"
proof (induction bs arbitrary: n)
  case (Cons b bs)
  show ?case
  proof (cases "n < 8")
    case True
    then show ?thesis by (simp add: bit_or_iff bit_push_bit_iff bit_unsigned_iff)
  next
    case False
    then have "n div 8 = Suc ((n - 8) div 8)" "(n - 8) mod 8 = n mod 8"
      by (simp_all add: le_div_geq le_mod_geq)
    then show ?thesis
      using False Cons by (auto simp: bit_or_iff bit_push_bit_iff bit_unsigned_iff dest: bit_imp_le_length)
  qed
qed simp

lemma host_ulong_bytes [simp]: "host_ulong (ulong_bytes v) = v"
proof (rule bit_word_eqI)
  fix n :: nat assume n: "n < LENGTH(64)"
  then have "n div 8 < 8" by auto
  then show "bit (host_ulong (ulong_bytes v)) n = bit v n"
    using n by (simp add: bit_host_ulong ulong_bytes_def bit_unsigned_iff bit_drop_bit_eq)
qed

text \<open>A count that passes the checks of \<open>modbus_dev_read\<close> and \<open>modbus_dev_write\<close>.\<close>

definition accepted_count :: "u16 \<Rightarrow> u64 \<Rightarrow> bool" where
  "accepted_count start count \<longleftrightarrow> unat start + unat count div 2 \<le> 65535 \<and> unat count div 2 \<le> 125"

lemma accepted_count_iff:
  "\<not> (ucast (start :: u16) + count div 2 > UINT16_MAX \<or> count div 2 > 125) \<longleftrightarrow> accepted_count start count"
proof -
  have d: "unat (count div 2) = unat count div 2" by (simp add: unat_div)
  have "unat (ucast start + count div 2 :: u64) = unat start + unat count div 2" if "unat count div 2 \<le> 125"
    using that d unsigned_less [of start, where ?'a = nat]
    by (simp add: unat_word_ariths unat_ucast)
  then show ?thesis
    using d by (auto simp: accepted_count_def UINT16_MAX_def word_less_nat_alt not_less)
qed

lemma accepted_count_sizes:
  assumes "accepted_count start count"
  shows "unat (count div 2 * 2) = 2 * (unat count div 2)" "unat (ucast (count div 2) :: u16) = unat count div 2"
  using assms
  by (simp_all add: accepted_count_def unat_word_ariths unat_div unat_ucast)

section \<open>A running module\<close>

text \<open>
  What is assumed of the services that only the file operations use.  \<open>kblocks\<close> are the blocks of
  kernel memory in use: an allocation gives a new one of the size that was asked for, \<open>kfree\<close> takes
  one that is in use and returns it, and the other services leave them alone.
\<close>

locale live_module = live_kernel "kernel.truncate k" live wait
  for k :: "'e module_kernel" and live :: "'e \<Rightarrow> bool" and wait :: "u64 \<Rightarrow> 'e \<Rightarrow> nat" +
  fixes kblocks :: "'e \<Rightarrow> kblock set"
  assumes kmalloc_live: "live e \<Longrightarrow> kmalloc k n e = (m, e') \<Longrightarrow> live e' \<and>
      (case m of None \<Rightarrow> kblocks e' = kblocks e
       | Some (p, b) \<Rightarrow> length b = unat n \<and> p \<notin> kblocks e \<and> kblocks e' = insert p (kblocks e))"
    and kfree_live: "live e \<Longrightarrow> p \<in> kblocks e \<Longrightarrow> live (kfree k p e) \<and> kblocks (kfree k p e) = kblocks e - {p}"
    and copy_to_user_live: "live e \<Longrightarrow> copy_to_user k q bs e = (left, e') \<Longrightarrow> live e' \<and> kblocks e' = kblocks e"
    and copy_from_user_length: "copy_from_user k dst q n e = (left, mem) \<Longrightarrow> length mem = length dst"
    and clock_blocks: "ktime_get_ns (kernel.truncate k) e = (t, e') \<Longrightarrow> kblocks e' = kblocks e"
    and sleep_blocks: "msleep (kernel.truncate k) ms e = (bufs, e') \<Longrightarrow> kblocks e' = kblocks e"
    and write_blocks: "serdev_device_write_buf (kernel.truncate k) d bs e = (r, e') \<Longrightarrow> kblocks e' = kblocks e"

text \<open>So the serial services meet their contract also while exactly the blocks \<open>B\<close> are in use.\<close>

abbreviation holding :: "('e \<Rightarrow> bool) \<Rightarrow> ('e \<Rightarrow> kblock set) \<Rightarrow> kblock set \<Rightarrow> 'e \<Rightarrow> bool" where
  "holding live kblocks B \<equiv> (\<lambda>e. live e \<and> kblocks e = B)"

sublocale live_module \<subseteq> held: live_kernel "kernel.truncate k" "holding live kblocks B" wait for B
  by unfold_locales (metis clock_live clock_blocks, metis sleep_live sleep_blocks, metis write_live write_blocks,
    metis time_passes)

text \<open>The state that loading the module establishes and that every file operation keeps.\<close>

definition module_ok :: "'e module_kernel \<Rightarrow> ('e \<Rightarrow> bool) \<Rightarrow> 'e module_state \<Rightarrow> bool" where
  "module_ok k live s \<longleftrightarrow> driver_ok live (drv s) \<and> wf_nmbs (nmbs s) \<and>
     rtu_conf (read_serial (kernel.truncate k)) (write_serial (kernel.truncate k)) (platform (nmbs s)) \<and>
     byte_timeout_ms (nmbs s) = 100 \<and> read_timeout_ms (nmbs s) = 1000 \<and> dest_address_rtu (nmbs s) = 1"

lemma module_ok_after:
  assumes "module_ok k live s" "config n = config (nmbs s)" "wf_nmbs n" "driver_ok live w"
  shows "module_ok k live (s\<lparr>nmbs := n, drv := w\<rparr>)"
  using assms by (auto simp: module_ok_def config_def)

lemma module_ok_env: "module_ok k live s \<Longrightarrow> live e \<Longrightarrow> module_ok k live (with_env s e)"
  by (simp add: module_ok_def with_env_def driver_ok_def)

lemma with_env_simps [simp]: "nmbs (with_env s e) = nmbs s" "env (drv (with_env s e)) = e"
  "with_env (with_env s e) e' = with_env s e'"
  by (simp_all add: with_env_def)

lemma module_ok_holding:
  "module_ok k (holding live kblocks B) s \<longleftrightarrow> module_ok k live s \<and> kblocks (env (drv s)) = B"
  by (auto simp: module_ok_def driver_ok_def)

text \<open>The frame that acknowledges a write of \<open>quantity\<close> registers by unit 1.\<close>

definition write_ack :: "u16 \<Rightarrow> u16 \<Rightarrow> u8 list" where
  "write_ack address quantity = rtu_frame 1 16 (be16 address @ be16 quantity)"

context live_module
begin

text \<open>A block that was just allocated, and the state after its release.\<close>

lemma fresh_block:
  assumes "module_ok k live s" "kmalloc k n (env (drv s)) = (Some (p, b), e)"
  shows "module_ok k (holding live kblocks (insert p (kblocks (env (drv s))))) (with_env s e)"
    "length b = unat n" "p \<notin> kblocks (env (drv s))"
  using assms(1) kmalloc_live [OF _ assms(2)] by (simp_all add: module_ok_def driver_ok_def with_env_def)

lemma free_block:
  assumes "module_ok k (holding live kblocks (insert p B)) s" "p \<notin> B"
  shows "module_ok k live (with_env s (kfree k p (env (drv s)))) \<and> kblocks (kfree k p (env (drv s))) = B"
proof -
  have e: "live (env (drv s))" "kblocks (env (drv s)) = insert p B" "module_ok k live s"
    using assms(1) by (simp_all add: module_ok_holding, simp add: module_ok_def driver_ok_def)
  then show ?thesis using kfree_live [OF e(1), of p] assms(2) module_ok_env [OF e(3)] by simp
qed

lemma modbus_dev_write_returns:
  assumes ok: "module_ok k live s"
  shows "returns (modbus_dev_write k (Some h) buf count s) (\<lambda>(r, s'). module_ok k live s' \<and>
    kblocks (env (drv s')) = kblocks (env (drv s)) \<and>
    (r \<in> {- EFAULT, - EINVAL, - ENOMEM, - ENODEV} \<or>
     r = count \<and> accepted_count (start_address h) count \<and>
     seen (nmbs s') = write_ack (start_address h) (ucast (count div 2))))"
proof (cases "\<not> handle_dev h \<or> buf = 0 \<or> \<not> accepted_count (start_address h) count")
  case True
  then show ?thesis
    using ok accepted_count_iff [of "start_address h" count]
    by (auto simp: modbus_dev_write_def Let_def)
next
  case False
  let ?q = "ucast (count div 2) :: u16"
  note sizes = accepted_count_sizes [of "start_address h" count]
  obtain m e where e: "kmalloc k (count div 2 * 2) (env (drv s)) = (m, e)" by fastforce
  have live: "live (env (drv s))" using ok by (simp add: module_ok_def driver_ok_def)
  note alloc = kmalloc_live [OF live e]
  show ?thesis
  proof (cases m)
    case None
    then show ?thesis
      using False ok e alloc accepted_count_iff [of "start_address h" count]
      by (simp add: modbus_dev_write_def Let_def module_ok_env)
  next
    case (Some x)
    obtain p b where x: "x = (p, b)" by (cases x)
    note fresh = fresh_block [OF ok e [unfolded Some x]]
    let ?B = "kblocks (env (drv s))" and ?w = "(drv s)\<lparr>env := e\<rparr>"
    let ?held = "holding live kblocks (insert p ?B)"
    obtain left mem where c: "copy_from_user k b buf (count div 2 * 2) e = (left, mem)" by fastforce
    have len: "unat ?q \<le> length (host_words mem)"
      using copy_from_user_length [OF c] fresh(2) sizes False by simp
    have w: "driver_ok ?held ?w" using fresh(1) by (simp add: module_ok_def with_env_def)
    have early: "module_ok k live (with_env s (kfree k p e)) \<and> kblocks (kfree k p e) = ?B"
      using free_block [OF fresh(1,3)] by (simp add: with_env_def)
    have "returns (nmbs_write_multiple_registers (nmbs s) (start_address h) ?q (host_words mem) ?w)
      (\<lambda>(err, n, w). module_ok k ?held (s\<lparr>nmbs := n, drv := w\<rparr>) \<and>
        (err = NMBS_ERROR_NONE \<longrightarrow> seen n = write_ack (start_address h) ?q))"
      by (rule returns_mono [OF held.plat.write_multiple_registers_returns [where B = "insert p ?B"]])
        (use ok w len in \<open>auto simp: answered_def module_ok_def written_def write_ack_def
           NMBS_BROADCAST_ADDRESS_def config_def\<close>)
    then obtain err n w' where r: "nmbs_write_multiple_registers (nmbs s) (start_address h) ?q (host_words mem) ?w =
          Some (err, n, w')" "module_ok k ?held (s\<lparr>nmbs := n, drv := w'\<rparr>)"
        "err = NMBS_ERROR_NONE \<Longrightarrow> seen n = write_ack (start_address h) ?q"
      by (auto elim!: returnsE)
    note after = free_block [OF r(2) fresh(3)]
    show ?thesis
      using False e c early r(1,3) after accepted_count_iff [of "start_address h" count]
      by (auto simp: Some x modbus_dev_write_def Let_def)
  qed
qed

text \<open>
  A full-size read (125 registers) is memory safe whatever the unit answers, and what the user
  gets is the data of a frame with the right unit, function, length and CRC.
\<close>

lemma modbus_dev_read_full_returns:
  assumes ok: "module_ok k live s" and full: "unat count div 2 = 125"
  shows "returns (modbus_dev_read k (Some h) buf count s) (\<lambda>(r, s'). module_ok k live s' \<and>
    kblocks (env (drv s')) = kblocks (env (drv s)) \<and>
    (r \<in> {- EFAULT, - EINVAL, - ENOMEM, - EIO} \<or>
     r = count \<and> (\<exists>data e p e'. length data = 250 \<and> seen (nmbs s') = rtu_frame 1 3 (250 # data) \<and>
       copy_to_user k buf (host_bytes (words_of data)) e = (0, e') \<and> env (drv s') = kfree k p e')))"
proof (cases "\<not> handle_dev h \<or> buf = 0 \<or> \<not> accepted_count (start_address h) count")
  case True
  then show ?thesis
    using ok accepted_count_iff [of "start_address h" count]
    by (auto simp: modbus_dev_read_def Let_def)
next
  case False
  let ?q = "ucast (count div 2) :: u16"
  have sizes: "unat (count div 2 * 2) = 250" "unat ?q = 125"
    using accepted_count_sizes [of "start_address h" count] False full by simp_all
  obtain m e where e: "kmalloc k (count div 2 * 2) (env (drv s)) = (m, e)" by fastforce
  have live: "live (env (drv s))" using ok by (simp add: module_ok_def driver_ok_def)
  note alloc = kmalloc_live [OF live e]
  show ?thesis
  proof (cases m)
    case None
    then show ?thesis
      using False ok e alloc accepted_count_iff [of "start_address h" count]
      by (simp add: modbus_dev_read_def Let_def module_ok_env)
  next
    case (Some x)
    obtain p b where x: "x = (p, b)" by (cases x)
    note fresh = fresh_block [OF ok e [unfolded Some x]]
    let ?B = "kblocks (env (drv s))" and ?w = "(drv s)\<lparr>env := e\<rparr>"
    let ?held = "holding live kblocks (insert p ?B)"
    have len: "length (host_words b) = 125" using fresh(2) sizes by simp
    have w: "driver_ok ?held ?w" using fresh(1) by (simp add: module_ok_def with_env_def)
    have "returns (nmbs_read_holding_registers (nmbs s) (start_address h) ?q (Some (host_words b)) ?w)
      (\<lambda>(err, out, n, w). module_ok k ?held (s\<lparr>nmbs := n, drv := w\<rparr>) \<and>
        (err = NMBS_ERROR_NONE \<longrightarrow> (\<exists>data. length data = 250 \<and> seen n = rtu_frame 1 3 (250 # data) \<and>
           out = Some (words_of data))))"
      unfolding nmbs_read_holding_registers_def
      by (rule returns_mono [OF held.plat.read_registers_returns [where B = "insert p ?B"]])
        (use ok w len sizes in \<open>auto simp: answered_def module_ok_def config_def\<close>)
    then obtain res where res: "nmbs_read_holding_registers (nmbs s) (start_address h) ?q (Some (host_words b)) ?w =
          Some res"
        "case res of (err, out, n, w) \<Rightarrow> module_ok k ?held (s\<lparr>nmbs := n, drv := w\<rparr>) \<and>
          (err = NMBS_ERROR_NONE \<longrightarrow> (\<exists>data. length data = 250 \<and> seen n = rtu_frame 1 3 (250 # data) \<and>
             out = Some (words_of data)))"
      by (rule returnsE)
    obtain err out n w' where rd: "res = (err, out, n, w')" by (cases res)
    have r: "nmbs_read_holding_registers (nmbs s) (start_address h) ?q (Some (host_words b)) ?w = Some (err, out, n, w')"
        "module_ok k ?held (s\<lparr>nmbs := n, drv := w'\<rparr>)"
        "err = NMBS_ERROR_NONE \<Longrightarrow> \<exists>data. length data = 250 \<and> seen n = rtu_frame 1 3 (250 # data) \<and>
           out = Some (words_of data)"
      using res by (simp_all add: rd)
    let ?s = "s\<lparr>nmbs := n, drv := w'\<rparr>"
    have start: "modbus_dev_read k (Some h) buf count s =
       (if err \<noteq> NMBS_ERROR_NONE then Some (- EIO, with_env ?s (kfree k p (env w')))
        else do {
          registers \<leftarrow> out;
          bytes \<leftarrow> buf_slice (host_bytes registers) 0 250;
          let (left, e) = copy_to_user k buf bytes (env w');
          if left > 0 then Some (- EFAULT, with_env ?s (kfree k p e))
          else Some (count, with_env ?s (kfree k p e)) })"
      using False e r(1) sizes accepted_count_iff [of "start_address h" count]
      by (simp add: Some x modbus_dev_read_def Let_def)
    show ?thesis
    proof (cases "err = NMBS_ERROR_NONE")
      case True
      then obtain data where data: "length data = 250" "seen n = rtu_frame 1 3 (250 # data)" "out = Some (words_of data)"
        using r(3) by auto
      obtain left e2 where e2: "copy_to_user k buf (host_bytes (words_of data)) (env w') = (left, e2)" by fastforce
      have "?held e2"
        using copy_to_user_live [OF _ e2] r(2) by (simp add: module_ok_def driver_ok_def)
      then have "module_ok k ?held (with_env ?s e2)" using module_ok_env [OF r(2)] by simp
      from free_block [OF this fresh(3)] show ?thesis
        using True data e2 by (auto simp: start buf_slice_def Let_def word_gt_0) blast
    qed (use free_block [OF r(2) fresh(3)] in \<open>simp add: start\<close>)
  qed
qed

end

text \<open>A timely kernel under the module, with memory and a user whose buffers are accessible.\<close>

locale timely_module = live_module k live wait kblocks +
    timely_kernel "kernel.truncate k" live wait elapsed transit reply
  for k :: "'e module_kernel" and live :: "'e \<Rightarrow> bool" and wait :: "u64 \<Rightarrow> 'e \<Rightarrow> nat" and kblocks :: "'e \<Rightarrow> kblock set"
    and elapsed :: "'e \<Rightarrow> nat" and transit :: "'e \<Rightarrow> u8 list list" and reply :: "'e \<Rightarrow> u8 list \<Rightarrow> u8 list list" +
  fixes user :: "'e \<Rightarrow> void_ptr \<Rightarrow> nat \<Rightarrow> u8 list"
  assumes kmalloc_works: "kmalloc k n e = (m, e') \<Longrightarrow>
      m \<noteq> None \<and> elapsed e' = elapsed e \<and> transit e' = transit e \<and> reply e' = reply e \<and> user e' = user e"
    and kfree_keeps: "elapsed (kfree k p e) = elapsed e \<and> transit (kfree k p e) = transit e \<and>
      reply (kfree k p e) = reply e \<and> user (kfree k p e) = user e"
    and copy_to_user_works: "copy_to_user k q bs e = (left, e') \<Longrightarrow> left = 0 \<and> user e' q (length bs) = bs"
    and copy_from_user_works: "unat n = length dst \<Longrightarrow> copy_from_user k dst q n e = (left, mem) \<Longrightarrow>
      left = 0 \<and> mem = user e q (unat n)"

sublocale timely_module \<subseteq> busy: timely_kernel "kernel.truncate k" "holding live kblocks B" wait elapsed transit reply for B
  by unfold_locales (metis clock_tells, metis sleep_delivers, metis write_transmits)

lemma line_idle_holding: "line_idle (holding live kblocks B) elapsed transit w \<longleftrightarrow>
    line_idle live elapsed transit w \<and> kblocks (env w) = B"
  by (auto simp: line_idle_def driver_ok_def)

lemma line_arrived_holding: "line_arrived (holding live kblocks B) elapsed transit w bs \<longleftrightarrow>
    line_arrived live elapsed transit w bs \<and> kblocks (env w) = B"
  by (auto simp: line_arrived_def driver_ok_def)

context timely_module
begin

text \<open>The kernel buffer of a read or write, while the line is idle.\<close>

lemma fresh_memory:
  assumes "module_ok k live s" "line_idle live elapsed transit (drv s)"
  obtains p b e where "kmalloc k n (env (drv s)) = (Some (p, b), e)" "length b = unat n" "p \<notin> kblocks (env (drv s))"
    "line_idle (holding live kblocks (insert p (kblocks (env (drv s))))) elapsed transit ((drv s)\<lparr>env := e\<rparr>)"
    "line_answer reply ((drv s)\<lparr>env := e\<rparr>) = line_answer reply (drv s)" "user e = user (env (drv s))"
    "line.listening (nmbs s)"
proof -
  obtain m e where e: "kmalloc k n (env (drv s)) = (m, e)" by fastforce
  have live: "live (env (drv s))" using assms(1) by (simp add: module_ok_def driver_ok_def)
  obtain p b where m: "m = Some (p, b)" using kmalloc_works [OF e] by (cases m) auto
  note alloc = kmalloc_live [OF live e [unfolded m]] kmalloc_works [OF e]
  show thesis
    by (rule that [of p b e])
      (use assms alloc e m in \<open>auto simp: line_idle_def line_answer_def module_ok_def driver_ok_def fun_eq_iff
         line.listening_def\<close>)
qed

text \<open>The library call has ended with the line empty: the buffer is released.\<close>

lemma done_with_block:
  assumes "module_ok k live s" "config n = config (nmbs s)" "wf_nmbs n" "p \<notin> B"
    and "line_arrived (holding live kblocks (insert p B)) elapsed transit w []"
    and "live e" "kblocks e = insert p B"
  shows "module_ok k live (with_env (s\<lparr>nmbs := n, drv := w\<rparr>) (kfree k p e))"
    and "kblocks (kfree k p e) = B" and "user (kfree k p e) = user e"
proof -
  have "driver_ok (holding live kblocks (insert p B)) (w\<lparr>env := e\<rparr>)"
    using assms(5-7) by (simp add: line_arrived_def driver_ok_def)
  moreover have "module_ok k (holding live kblocks (kblocks (env (drv s)))) s"
    using assms(1) by (simp add: module_ok_holding)
  ultimately have "module_ok k (holding live kblocks (insert p B)) (with_env (s\<lparr>nmbs := n, drv := w\<rparr>) e)"
    using assms(2,3) by (auto simp: module_ok_def with_env_def config_def)
  from free_block [OF this assms(4)] kfree_keeps [of p e]
  show "module_ok k live (with_env (s\<lparr>nmbs := n, drv := w\<rparr>) (kfree k p e))"
    "kblocks (kfree k p e) = B" "user (kfree k p e) = user e"
    by simp_all
qed

end

lemma modbus_dev_read_after_alloc:
  assumes "handle_dev h" "buf \<noteq> 0" "accepted_count (start_address h) count"
    and "kmalloc k (count div 2 * 2) (env (drv s)) = (Some (p, b), e)"
  shows "modbus_dev_read k (Some h) buf count s = do {
    (err, out, n, w) \<leftarrow> read_registers (nmbs s) 3 (start_address h) (ucast (count div 2)) (Some (host_words b))
       ((drv s)\<lparr>env := e\<rparr>);
    if err \<noteq> NMBS_ERROR_NONE then Some (- EIO, with_env (s\<lparr>nmbs := n, drv := w\<rparr>) (kfree k p (env w)))
    else do {
      registers \<leftarrow> out;
      bytes \<leftarrow> buf_slice (host_bytes registers) 0 (2 * (unat count div 2));
      let (left, e) = copy_to_user k buf bytes (env w);
      let s = with_env (s\<lparr>nmbs := n, drv := w\<rparr>) (kfree k p e);
      if left > 0 then Some (- EFAULT, s) else Some (count, s) } }"
  using assms accepted_count_iff [of "start_address h" count] accepted_count_sizes [OF assms(3)]
  by (simp add: modbus_dev_read_def nmbs_read_holding_registers_def Let_def cong: if_cong)

lemma request_window:
  assumes "accepted_count start count" "2 \<le> unat count"
  shows "1 \<le> unat (ucast (count div 2) :: u16)" "unat (ucast (count div 2) :: u16) \<le> 125"
    "unat start + unat (ucast (count div 2) :: u16) \<le> 65536"
    "unat (ucast (count div 2) :: u16) = unat count div 2"
proof -
  have "1 \<le> unat count div 2" using assms(2) by linarith
  then show "1 \<le> unat (ucast (count div 2) :: u16)" "unat (ucast (count div 2) :: u16) \<le> 125"
    "unat start + unat (ucast (count div 2) :: u16) \<le> 65536"
    "unat (ucast (count div 2) :: u16) = unat count div 2"
    using assms(1) accepted_count_sizes(2) [OF assms(1)] by (simp_all add: accepted_count_def)
qed

lemma byte_count:
  assumes "length regs = m" "1 \<le> m" "m \<le> 125"
  shows "unat (of_nat (2 * m) :: u8) = 2 * m" "0 < (of_nat (2 * m) :: u8)" "\<not> 250 < (of_nat (2 * m) :: u8)"
proof -
  show u: "unat (of_nat (2 * m) :: u8) = 2 * m"
    using assms(3) by (intro unat_of_nat_less) simp
  show "0 < (of_nat (2 * m) :: u8)" unfolding word_less_nat_alt u using assms(2) by simp
  show "\<not> 250 < (of_nat (2 * m) :: u8)" unfolding word_less_nat_alt u using assms(3) by simp
qed

text \<open>The response of unit 1 that carries the registers \<open>regs\<close>.\<close>

definition registers_response :: "u16 list \<Rightarrow> u8 list" where
  "registers_response regs = rtu_frame 1 3 (of_nat (2 * length regs) # concat (map be16 regs))"

definition read_request :: "u16 \<Rightarrow> u16 \<Rightarrow> u8 list" where
  "read_request address quantity = rtu_frame 1 3 (be16 address @ be16 quantity)"

definition write_request :: "u16 \<Rightarrow> u16 list \<Rightarrow> u8 list" where
  "write_request address regs = rtu_frame 1 16 (be16 address @ be16 (of_nat (length regs)) @
     of_nat (2 * length regs) # concat (map be16 regs))"

context timely_module
begin

lemma modbus_dev_read_exact:
  assumes ok: "module_ok k live s" and idle: "line_idle live elapsed transit (drv s)"
    and h: "handle_dev h" "buf \<noteq> 0" and c: "accepted_count (start_address h) count" "2 \<le> unat count"
    and ans: "line_answer reply (drv s) (read_request (start_address h) (ucast (count div 2))) = registers_response regs"
    and len: "length regs = unat count div 2"
  shows "returns (modbus_dev_read k (Some h) buf count s) (\<lambda>(r, s'). r = count \<and>
    user (env (drv s')) buf (2 * length regs) = host_bytes regs \<and> module_ok k live s' \<and>
    kblocks (env (drv s')) = kblocks (env (drv s)))"
proof -
  obtain p b e where e: "kmalloc k (count div 2 * 2) (env (drv s)) = (Some (p, b), e)" "length b = unat (count div 2 * 2)"
      "p \<notin> kblocks (env (drv s))"
      "line_idle (holding live kblocks (insert p (kblocks (env (drv s))))) elapsed transit ((drv s)\<lparr>env := e\<rparr>)"
      "line_answer reply ((drv s)\<lparr>env := e\<rparr>) = line_answer reply (drv s)" "user e = user (env (drv s))"
      "line.listening (nmbs s)"
    by (rule fresh_memory [OF ok idle])
  let ?held = "holding live kblocks (insert p (kblocks (env (drv s))))"
  note q = request_window [OF c]
  let ?nb = "of_nat (2 * length regs) :: u8"
  have nb: "unat ?nb = 2 * length regs" "0 < ?nb" "\<not> 250 < ?nb"
    using byte_count [of regs "length regs"] q len by simp_all
  have dest: "dest_address_rtu (nmbs s) = 1" using ok by (simp add: module_ok_def)
  let ?body = "1 # 3 # ?nb # concat (map be16 regs)"
  have frame: "registers_response regs = ?body @ crc_bytes ?body"
    by (simp add: registers_response_def rtu_frame_def)
  have hw: "length (host_words b) = length regs"
    using e(2) accepted_count_sizes(1) [OF c(1)] len by simp
  have "returns (read_registers (nmbs s) 3 (start_address h) (ucast (count div 2)) (Some (host_words b)) ((drv s)\<lparr>env := e\<rparr>))
    (\<lambda>(err, out, n, w). err = NMBS_ERROR_NONE \<and> out = Some regs \<and> config n = config (nmbs s) \<and> wf_nmbs n \<and>
       line_arrived ?held elapsed transit w [])"
    by (rule returns_mono [OF busy.line.read_registers_exact [OF e(7,4) q(1-3), where ?data = "concat (map be16 regs)"
        and nb = ?nb and crc = "crc_bytes ?body"]])
      (use nb q len hw dest ans e(5) frame in
        \<open>auto simp: read_request_def registers_verdict_def simp del: of_nat_mult\<close>)
  then obtain n w where r: "read_registers (nmbs s) 3 (start_address h) (ucast (count div 2)) (Some (host_words b))
        ((drv s)\<lparr>env := e\<rparr>) = Some (NMBS_ERROR_NONE, Some regs, n, w)"
      "config n = config (nmbs s)" "wf_nmbs n" "line_arrived ?held elapsed transit w []"
    by (auto elim!: returnsE)
  obtain left e2 where e2: "copy_to_user k buf (host_bytes regs) (env w) = (left, e2)" by fastforce
  have "?held (env w)" using r(4) by (simp add: line_arrived_def driver_ok_def)
  then have "live e2" "kblocks e2 = insert p (kblocks (env (drv s)))"
    using copy_to_user_live [OF _ e2] by simp_all
  from done_with_block [OF ok r(2,3) e(3) r(4) this] show ?thesis
    using r(1) e2 copy_to_user_works [OF e2] len
    by (simp add: modbus_dev_read_after_alloc [OF h c(1) e(1)] buf_slice_def)
qed

text \<open>An answer with more registers than were asked for overruns the kernel buffer.\<close>

lemma modbus_dev_read_overflow:
  assumes ok: "module_ok k live s" and idle: "line_idle live elapsed transit (drv s)"
    and h: "handle_dev h" "buf \<noteq> 0" and c: "accepted_count (start_address h) count" "2 \<le> unat count"
    and ans: "line_answer reply (drv s) (read_request (start_address h) (ucast (count div 2))) = registers_response regs"
    and len: "unat count div 2 < length regs" "length regs \<le> 125"
  shows "modbus_dev_read k (Some h) buf count s = None"
proof -
  obtain p b e where e: "kmalloc k (count div 2 * 2) (env (drv s)) = (Some (p, b), e)" "length b = unat (count div 2 * 2)"
      "p \<notin> kblocks (env (drv s))"
      "line_idle (holding live kblocks (insert p (kblocks (env (drv s))))) elapsed transit ((drv s)\<lparr>env := e\<rparr>)"
      "line_answer reply ((drv s)\<lparr>env := e\<rparr>) = line_answer reply (drv s)" "user e = user (env (drv s))"
      "line.listening (nmbs s)"
    by (rule fresh_memory [OF ok idle])
  let ?held = "holding live kblocks (insert p (kblocks (env (drv s))))"
  note q = request_window [OF c]
  let ?nb = "of_nat (2 * length regs) :: u8"
  have nb: "unat ?nb = 2 * length regs" "0 < ?nb" "\<not> 250 < ?nb"
    using byte_count [of regs "length regs"] q len by simp_all
  have dest: "dest_address_rtu (nmbs s) = 1" using ok by (simp add: module_ok_def)
  let ?body = "1 # 3 # ?nb # concat (map be16 regs)"
  have "read_registers (nmbs s) 3 (start_address h) (ucast (count div 2)) (Some (host_words b)) ((drv s)\<lparr>env := e\<rparr>) = None"
    by (rule busy.line.read_registers_overflow [OF e(7,4) q(1-3), where ?data = "concat (map be16 regs)"
        and nb = ?nb and crc = "crc_bytes ?body"])
      (use nb dest ans e(2,5) len accepted_count_sizes(1) [OF c(1)] in
        \<open>simp_all add: read_request_def registers_response_def rtu_frame_def del: of_nat_mult\<close>)
  then show ?thesis
    by (simp add: modbus_dev_read_after_alloc [OF h c(1) e(1)])
qed

text \<open>
  An exception of the unit, in particular for a bad address, is the error of the library call, and
  ends the read with \<open>-EIO\<close> and the buffer as it was.
\<close>

lemma modbus_dev_read_exception:
  assumes ok: "module_ok k live s" and idle: "line_idle live elapsed transit (drv s)"
    and h: "handle_dev h" "buf \<noteq> 0" and c: "accepted_count (start_address h) count" "2 \<le> unat count"
    and ans: "line_answer reply (drv s) (read_request (start_address h) (ucast (count div 2))) = rtu_frame 1 0x83 [code]"
    and code: "1 \<le> code" "code \<le> 4"
  shows "\<exists>p b e n w. kmalloc k (count div 2 * 2) (env (drv s)) = (Some (p, b), e) \<and>
    nmbs_read_holding_registers (nmbs s) (start_address h) (ucast (count div 2)) (Some (host_words b)) ((drv s)\<lparr>env := e\<rparr>) =
      Some (nmbs_error_of_exception code, Some (host_words b), n, w) \<and>
    modbus_dev_read k (Some h) buf count s = Some (- EIO, with_env (s\<lparr>nmbs := n, drv := w\<rparr>) (kfree k p (env w))) \<and>
    module_ok k live (with_env (s\<lparr>nmbs := n, drv := w\<rparr>) (kfree k p (env w))) \<and>
    kblocks (kfree k p (env w)) = kblocks (env (drv s)) \<and> line_arrived live elapsed transit w []"
proof -
  obtain p b e where e: "kmalloc k (count div 2 * 2) (env (drv s)) = (Some (p, b), e)" "length b = unat (count div 2 * 2)"
      "p \<notin> kblocks (env (drv s))"
      "line_idle (holding live kblocks (insert p (kblocks (env (drv s))))) elapsed transit ((drv s)\<lparr>env := e\<rparr>)"
      "line_answer reply ((drv s)\<lparr>env := e\<rparr>) = line_answer reply (drv s)" "user e = user (env (drv s))"
      "line.listening (nmbs s)"
    by (rule fresh_memory [OF ok idle])
  let ?held = "holding live kblocks (insert p (kblocks (env (drv s))))"
  note q = request_window [OF c]
  have dest: "dest_address_rtu (nmbs s) = 1" using ok by (simp add: module_ok_def)
  have ans': "line_answer reply ((drv s)\<lparr>env := e\<rparr>) (rtu_frame (dest_address_rtu (nmbs s)) 3
      (be16 (start_address h) @ be16 (ucast (count div 2)))) = rtu_frame (dest_address_rtu (nmbs s)) (3 + 0x80) [code]"
    using ans by (simp add: e(5) dest read_request_def)
  obtain err n w where r: "read_registers (nmbs s) 3 (start_address h) (ucast (count div 2)) (Some (host_words b))
        ((drv s)\<lparr>env := e\<rparr>) = Some (err, Some (host_words b), n, w)"
      "err = nmbs_error_of_exception code" "config n = config (nmbs s)" "wf_nmbs n" "line_arrived ?held elapsed transit w []"
    using busy.line.read_registers_exception [OF e(7,4) q(1-3) ans' _ code, of "Some (host_words b)"]
    by (auto elim!: returnsE)
  have arrived: "line_arrived live elapsed transit w []" "live (env w)" "kblocks (env w) = insert p (kblocks (env (drv s)))"
    using r(5) by (simp_all add: line_arrived_holding, simp add: line_arrived_def driver_ok_def)
  have "modbus_dev_read k (Some h) buf count s = Some (- EIO, with_env (s\<lparr>nmbs := n, drv := w\<rparr>) (kfree k p (env w)))"
    using r(1,2) by (simp add: modbus_dev_read_after_alloc [OF h c(1) e(1)])
  then show ?thesis
    using e(1) r(1,2) arrived(1) done_with_block(1,2) [OF ok r(3,4) e(3) r(5) arrived(2,3)]
    unfolding nmbs_read_holding_registers_def by blast
qed

text \<open>A write sends the words of the user's buffer and succeeds when the unit acknowledges it.\<close>

lemma modbus_dev_write_exact:
  assumes ok: "module_ok k live s" and idle: "line_idle live elapsed transit (drv s)"
    and h: "handle_dev h" "buf \<noteq> 0" and c: "accepted_count (start_address h) count" "2 \<le> unat count"
    and n: "unat count div 2 \<le> 123"
    and ans: "line_answer reply (drv s) (write_request (start_address h)
        (host_words (user (env (drv s)) buf (2 * (unat count div 2))))) =
      write_ack (start_address h) (ucast (count div 2))"
  shows "returns (modbus_dev_write k (Some h) buf count s) (\<lambda>(r, s'). r = count \<and> module_ok k live s' \<and>
    kblocks (env (drv s')) = kblocks (env (drv s)))"
proof -
  obtain p b e where e: "kmalloc k (count div 2 * 2) (env (drv s)) = (Some (p, b), e)" "length b = unat (count div 2 * 2)"
      "p \<notin> kblocks (env (drv s))"
      "line_idle (holding live kblocks (insert p (kblocks (env (drv s))))) elapsed transit ((drv s)\<lparr>env := e\<rparr>)"
      "line_answer reply ((drv s)\<lparr>env := e\<rparr>) = line_answer reply (drv s)" "user e = user (env (drv s))"
      "line.listening (nmbs s)"
    by (rule fresh_memory [OF ok idle])
  let ?held = "holding live kblocks (insert p (kblocks (env (drv s))))"
  note q = request_window [OF c]
  let ?q = "ucast (count div 2) :: u16" and ?w = "(drv s)\<lparr>env := e\<rparr>"
  let ?mem = "user (env (drv s)) buf (2 * (unat count div 2))"
  obtain left mem where m: "copy_from_user k b buf (count div 2 * 2) e = (left, mem)" by fastforce
  have mem: "left = 0" "mem = ?mem" "length ?mem = 2 * (unat count div 2)"
    using copy_from_user_works [OF e(2) [symmetric] m] copy_from_user_length [OF m] e(2,6)
      accepted_count_sizes(1) [OF c(1)] by simp_all
  let ?regs = "host_words ?mem"
  have regs: "length ?regs = unat count div 2" using mem(3) by simp
  have dest: "dest_address_rtu (nmbs s) = 1" using ok by (simp add: module_ok_def)
  have w8: "(ucast (?q * 2) :: u8) = of_nat (2 * length ?regs)"
  proof -
    have "unat (?q * 2) = 2 * length ?regs" using q regs by (simp add: unat_word_ariths)
    then show ?thesis by (metis of_nat_unat)
  qed
  have q16: "of_nat (length ?regs) = ?q" using q(4) regs by (metis of_nat_unat ucast_id)
  have ans': "line_answer reply ?w (rtu_frame (dest_address_rtu (nmbs s)) 16 (be16 (start_address h) @ be16 ?q @
      ucast (?q * 2) # concat (map be16 (take (unat ?q) ?regs)))) =
      rtu_frame (dest_address_rtu (nmbs s)) 16 (be16 (start_address h) @ be16 ?q)"
    using ans regs q(4) unfolding e(5) dest w8 write_request_def write_ack_def q16 by simp
  have "returns (nmbs_write_multiple_registers (nmbs s) (start_address h) ?q ?regs ?w) (\<lambda>(err, n, w).
      err = NMBS_ERROR_NONE \<and> config n = config (nmbs s) \<and> wf_nmbs n \<and> line_arrived ?held elapsed transit w [])"
    by (rule returns_mono [OF busy.line.write_multiple_registers_exact [OF e(7,4) q(1) _ q(3) _ _ ans']])
      (use q n regs dest in auto)
  then obtain m w where r: "nmbs_write_multiple_registers (nmbs s) (start_address h) ?q ?regs ?w =
        Some (NMBS_ERROR_NONE, m, w)" "config m = config (nmbs s)" "wf_nmbs m" "line_arrived ?held elapsed transit w []"
    by (auto elim!: returnsE)
  have "live (env w)" "kblocks (env w) = insert p (kblocks (env (drv s)))"
    using r(4) by (simp_all add: line_arrived_def driver_ok_def)
  note released = done_with_block(1,2) [OF ok r(2,3) e(3) r(4) this]
  have "\<not> (UINT16_MAX < ucast (start_address h) + count div 2 \<or> 125 < count div 2)"
    using accepted_count_iff [of "start_address h" count] c(1) by simp
  then show ?thesis
    using h e(1) \<open>copy_from_user k b buf (count div 2 * 2) e = (left, mem)\<close> mem(1,2) r(1) released
    by (simp add: modbus_dev_write_def Let_def)
qed

end

section \<open>Loading the module\<close>

lemma probes_fold:
  "rx_fifo (foldl (\<lambda>w d. snd (serdev_serial_probe k d w)) w ds) = rx_fifo w \<and>
   dev_fifo (foldl (\<lambda>w d. snd (serdev_serial_probe k d w)) w ds) = dev_fifo w"
proof (induction ds arbitrary: w)
  case (Cons d ds)
  have "rx_fifo (snd (serdev_serial_probe k d w)) = rx_fifo w" "dev_fifo (snd (serdev_serial_probe k d w)) = dev_fifo w"
    by (simp_all add: serdev_serial_probe_def Let_def case_prod_unfold)
  with Cons show ?case by simp
qed simp

text \<open>
  After a successful load the instance is configured, the ring is empty, and the pointer to
  the serial device is NULL, also when the device was probed during the registration of the
  driver.
\<close>

lemma my_init_state:
  assumes "fifo_inv (rx_fifo (drv s))"
  shows "returns (my_init k s) (\<lambda>(r, s'). r = 0 \<longrightarrow> dev_serdev (drv s') = None \<and> dev_fifo (drv s') \<and>
    fifo_inv (rx_fifo (drv s')) \<and> fifo_bytes (rx_fifo (drv s')) = [] \<and>
    fifo_cap (rx_fifo (drv s')) = fifo_cap (rx_fifo (drv s)) \<and> wf_nmbs (nmbs s') \<and>
    rtu_conf (read_serial (kernel.truncate k)) (write_serial (kernel.truncate k)) (platform (nmbs s')) \<and>
    byte_timeout_ms (nmbs s') = 100 \<and> read_timeout_ms (nmbs s') = 1000 \<and> dest_address_rtu (nmbs s') = 1)"
proof -
  obtain g where g: "byte_fifo_reset (Some (rx_fifo (drv s))) = Some (0, Some g)" "fifo_inv g"
      "fifo_cap g = fifo_cap (rx_fifo (drv s))" "fifo_bytes g = []"
    using byte_fifo_reset_spec [OF assms] by blast
  have neg: "r <s 0 \<Longrightarrow> r \<noteq> 0" for r :: i32
    by (metis signed.less_irrefl)
  show ?thesis
    using g
    by (simp add: neg probes_fold my_init_def Let_def case_prod_unfold with_env_def byte_fifo_init_def init_modbus_client_def
        nmbs_client_create_def nmbs_create_def nmbs_platform_conf_create_def zero_conf_def zero_nmbs_def
        nmbs_set_byte_timeout_def nmbs_set_read_timeout_def nmbs_set_destination_rtu_address_def
        modbus_dev_setup_cdev_def rtu_conf_def wf_nmbs_def zero_msg_def)
qed

end
