(* ===== verification/Bus_Simulation.thy ===== *)
theory Bus_Simulation
  imports Driver_Device
begin

text \<open>
  A kernel that meets the assumptions of the driver theories, with an arbitrary unit on its
  bus: a clock that counts calls and sleeps, a line that delivers one entry of a list per
  sleep, memory that is always available and a list of the blocks in use.  It shows that the assumptions can be met together,
  and it is where the properties of the driver are evaluated on concrete requests.
\<close>

record bus =
  bus_now :: nat
  bus_slots :: "u8 list list"
  bus_unit :: "u8 list \<Rightarrow> u8 list list"
  bus_user :: "u8 list"
  bus_blocks :: "kblock list"

definition bus_fresh :: "kblock list \<Rightarrow> kblock" where
  "bus_fresh ps = Suc (foldr max ps 0)"

lemma bus_fresh_new: "bus_fresh ps \<notin> set ps"
proof -
  have "p \<in> set ps \<Longrightarrow> p \<le> foldr max ps 0" for p by (induction ps) auto
  then show ?thesis by (force simp: bus_fresh_def)
qed

definition bus_kernel :: "bus module_kernel" where
  "bus_kernel = \<lparr>
     ktime_get_ns = (\<lambda>e. (of_nat (min (bus_now e + 1) (2 ^ 64 - 1)), e\<lparr>bus_now := bus_now e + 1\<rparr>)),
     msleep = (\<lambda>ms e. (take 1 (bus_slots e), e\<lparr>bus_now := bus_now e + 10000000, bus_slots := drop 1 (bus_slots e)\<rparr>)),
     serdev_device_write_buf = (\<lambda>d bs e. (of_nat (length bs), e\<lparr>bus_slots := bus_unit e bs\<rparr>)),
     kmalloc = (\<lambda>n e. let p = bus_fresh (bus_blocks e) in
       (Some (p, replicate (unat n) 0xA5), e\<lparr>bus_blocks := p # bus_blocks e\<rparr>)),
     kfree = (\<lambda>p e. e\<lparr>bus_blocks := removeAll p (bus_blocks e)\<rparr>),
     copy_to_user = (\<lambda>p bs e. (0, e\<lparr>bus_user := bs\<rparr>)),
     copy_from_user = (\<lambda>dst p n e. (0, take (length dst) (bus_user e @ replicate (length dst) 0))),
     serdev_device_open = (\<lambda>d e. (0, e)),
     serdev_port_call = (\<lambda>d c e. e),
     serdev_device_driver_register = (\<lambda>e. (0, [1], e)),
     serdev_device_driver_unregister = (\<lambda>e. ([1], e)),
     alloc_chrdev_region = (\<lambda>e. (0, push_bit 20 240, e)),
     unregister_chrdev_region = (\<lambda>d e. e),
     cdev_add = (\<lambda>d e. (0, e)),
     cdev_del = (\<lambda>e. e)\<rparr>"

definition bus_live :: "bus \<Rightarrow> bool" where
  "bus_live e \<longleftrightarrow> (\<forall>b\<in>set (bus_slots e). length b < 2 ^ 31) \<and> (\<forall>f. \<forall>b\<in>set (bus_unit e f). length b < 2 ^ 31)"

definition bus_wait :: "u64 \<Rightarrow> bus \<Rightarrow> nat" where
  "bus_wait deadline e = 2 ^ 64 - bus_now e"

definition bus_kblocks :: "bus \<Rightarrow> kblock set" where
  "bus_kblocks e = set (bus_blocks e)"

definition bus_user_at :: "bus \<Rightarrow> void_ptr \<Rightarrow> nat \<Rightarrow> u8 list" where
  "bus_user_at e p n = take n (bus_user e @ replicate n 0)"

lemma bus_kernel_sel [simp]:
  "ktime_get_ns (kernel.truncate bus_kernel) e = (of_nat (min (bus_now e + 1) (2 ^ 64 - 1)), e\<lparr>bus_now := bus_now e + 1\<rparr>)"
  "msleep (kernel.truncate bus_kernel) ms e =
     (take 1 (bus_slots e), e\<lparr>bus_now := bus_now e + 10000000, bus_slots := drop 1 (bus_slots e)\<rparr>)"
  "serdev_device_write_buf (kernel.truncate bus_kernel) d bs e = (of_nat (length bs), e\<lparr>bus_slots := bus_unit e bs\<rparr>)"
  by (simp_all add: bus_kernel_def kernel.truncate_def)

interpretation bus: strict_kernel "kernel.truncate bus_kernel" bus_live bus_wait bus_now bus_slots bus_unit
proof unfold_locales
  fix e e1 e2 :: bus and t deadline :: u64 and bufs
  assume a: "bus_live e" "ktime_get_ns (kernel.truncate bus_kernel) e = (t, e1)" "t < deadline"
    "msleep (kernel.truncate bus_kernel) 10 e1 = (bufs, e2)"
  have "unat deadline < 2 ^ 64" using unsigned_less [of deadline, where ?'a = nat] by simp
  moreover have "unat t = min (bus_now e + 1) (2 ^ 64 - 1)"
    using a(2) unat_of_nat_less [of "min (bus_now e + 1) (2 ^ 64 - 1)", where ?'a = 64] by auto
  ultimately have "bus_now e + 1 < 2 ^ 64 - 1"
    using a(3) by (simp add: word_less_nat_alt)
  then show "bus_wait deadline e2 < bus_wait deadline e"
    using a(2,4) by (auto simp: bus_wait_def)
next
  fix e e' :: bus and t :: u64
  assume a: "bus_live e" "bus_now e < 2 ^ 62" "ktime_get_ns (kernel.truncate bus_kernel) e = (t, e')"
  have "unat t = bus_now e + 1"
    using a(2,3) unat_of_nat_less [of "bus_now e + 1", where ?'a = 64] by auto
  then show "unat t = bus_now e' \<and> bus_now e \<le> bus_now e' \<and> bus_now e' \<le> bus_now e + 1000000 \<and>
      bus_slots e' = bus_slots e \<and> bus_unit e' = bus_unit e"
    using a(3) by auto
qed (auto simp: bus_live_def dest: in_set_takeD in_set_dropD)

interpretation bus_module: timely_module bus_kernel bus_live bus_wait bus_kblocks bus_now bus_slots bus_unit bus_user_at
  by unfold_locales
    (auto simp: bus_kernel_def kernel.truncate_def bus_user_at_def bus_live_def bus_kblocks_def bus_fresh_new Let_def fun_eq_iff)

text \<open>A loaded module on this kernel, with a unit that answers as \<open>unit\<close> says.\<close>

definition bus_ring :: byte_fifo_t where
  "bus_ring = \<lparr>fifo_data = Some (replicate 256 0), fifo_size = 256, write_index = 0, read_index = 0, n_elements = 0\<rparr>"

definition bus_state :: "(u8 list \<Rightarrow> u8 list list) \<Rightarrow> u8 list \<Rightarrow> bus module_state" where
  "bus_state u mem = \<lparr>
     nmbs = zero_nmbs\<lparr>platform := nmbs_platform_conf_create\<lparr>transport := NMBS_TRANSPORT_RTU,
         conf_read := Some (read_serial (kernel.truncate bus_kernel)),
         conf_write := Some (write_serial (kernel.truncate bus_kernel))\<rparr>,
       byte_timeout_ms := 100, read_timeout_ms := 1000, dest_address_rtu := 1\<rparr>,
     modbus_dev_major = 240,
     drv = \<lparr>rx_fifo = bus_ring, dev_fifo = True, dev_serdev = Some 1,
       env = \<lparr>bus_now = 0, bus_slots = [], bus_unit = u, bus_user = mem, bus_blocks = [1]\<rparr>\<rparr>\<rparr>"

lemma bus_ring_inv: "fifo_inv bus_ring" "fifo_cap bus_ring = 256" "fifo_bytes bus_ring = []"
  by (simp_all add: bus_ring_def fifo_inv_def fifo_cap_def fifo_bytes_def)

lemma bus_state_ok:
  assumes "\<forall>f. \<forall>b\<in>set (u f). length b < 2 ^ 31"
  shows "module_ok bus_kernel bus_live (bus_state u mem)"
    and "line_idle bus_live bus_now bus_slots (drv (bus_state u mem))"
  using assms bus_ring_inv
  by (simp_all add: module_ok_def line_idle_def bus_state_def driver_ok_def bus_live_def wf_nmbs_def
      zero_nmbs_def zero_msg_def rtu_conf_def nmbs_platform_conf_create_def)

lemma bus_state_answer: "line_answer bus_unit (drv (bus_state u mem)) frame = answer_of (u frame)"
  by (simp add: line_answer_def bus_state_def)

end
