(* ===== verification/Driver_Properties.thy ===== *)
theory Driver_Properties
  imports Bus_Simulation
begin

text \<open>
  The properties of the driver with its Modbus client, stated over the kernel interface, each
  with an evaluation on the kernel and unit of \<open>Bus_Simulation\<close>.
\<close>

section \<open>Reading and writing the device\<close>

text \<open>
  C1: on a timely kernel, reading the character device delivers the registers of the unit: if
  unit 1 answers the read request for the file's start address and \<open>count / 2\<close> registers with
  these registers, the read returns \<open>count\<close>, the user's buffer holds the registers in
  little-endian order, the module is ready for the next operation, and the kernel buffer was
  released.
\<close>

theorem driver_read_delivers:
  assumes "timely_module k live wait kblocks elapsed transit reply user"
    and "module_ok k live s" and "line_idle live elapsed transit (drv s)"
    and "handle_dev h" and "buf \<noteq> 0" and "accepted_count (start_address h) count" and "2 \<le> unat count"
    and "line_answer reply (drv s) (read_request (start_address h) (ucast (count div 2))) = registers_response regs"
    and "length regs = unat count div 2"
  shows "returns (modbus_dev_read k (Some h) buf count s) (\<lambda>(r, s'). r = count \<and>
    user (env (drv s')) buf (2 * length regs) = host_bytes regs \<and> module_ok k live s' \<and>
    kblocks (env (drv s')) = kblocks (env (drv s)))"
  using assms by (rule timely_module.modbus_dev_read_exact)

text \<open>A unit that answers every request with the registers \<open>regs\<close>, after one silent sleep.\<close>

abbreviation unit_with :: "u16 list \<Rightarrow> u8 list \<Rightarrow> u8 list list" where
  "unit_with regs \<equiv> (\<lambda>frame. [[], registers_response regs])"

lemma unit_with_ok:
  assumes "length regs \<le> 125"
  shows "module_ok bus_kernel bus_live (bus_state (unit_with regs) mem)"
    "line_idle bus_live bus_now bus_slots (drv (bus_state (unit_with regs) mem))"
    "line_answer bus_unit (drv (bus_state (unit_with regs) mem)) frame = registers_response regs"
  using assms bus_state_ok [of "unit_with regs" mem]
  by (simp_all add: registers_response_def rtu_frame_def bus_state_answer answer_of_def)

theorem driver_read_delivers_witness:
  "returns (modbus_dev_read bus_kernel (Some \<lparr>handle_block = 1, start_address = 107, handle_dev = True\<rparr>) 0x1000 5
      (bus_state (unit_with [0x022B, 0x64]) []))
    (\<lambda>(r, s'). r = 5 \<and> bus_user_at (env (drv s')) 0x1000 4 = [0x2B, 0x02, 0x64, 0x00])"
proof -
  have "returns (modbus_dev_read bus_kernel (Some \<lparr>handle_block = 1, start_address = 107, handle_dev = True\<rparr>) 0x1000 5
      (bus_state (unit_with [0x022B, 0x64]) []))
    (\<lambda>(r, s'). r = 5 \<and> bus_user_at (env (drv s')) 0x1000 (2 * length [0x022B, 0x64 :: u16]) = host_bytes [0x022B, 0x64] \<and>
       module_ok bus_kernel bus_live s' \<and> bus_kblocks (env (drv s')) =
       bus_kblocks (env (drv (bus_state (unit_with [0x022B, 0x64]) []))))"
    by (rule driver_read_delivers [OF bus_module.timely_module_axioms unit_with_ok(1,2)])
      (simp_all add: accepted_count_def unit_with_ok(3))
  moreover have "host_bytes [0x022B, 0x64] = [0x2B, 0x02, 0x64, 0x00]"
    by (simp add: lo_byte_def hi_byte_def)
  ultimately show ?thesis
    by (elim returns_mono) auto
qed

text \<open>
  C20: the length of the response is checked against the request only after its registers were
  stored.  A unit that answers a valid read with a well-formed response of more registers than
  were asked for makes the driver write beyond its kernel buffer: the call has no defined
  result.
\<close>

theorem driver_read_overflows_kernel_buffer:
  assumes "timely_module k live wait kblocks elapsed transit reply user"
    and "module_ok k live s" and "line_idle live elapsed transit (drv s)"
    and "handle_dev h" and "buf \<noteq> 0" and "accepted_count (start_address h) count" and "2 \<le> unat count"
    and "line_answer reply (drv s) (read_request (start_address h) (ucast (count div 2))) = registers_response regs"
    and "unat count div 2 < length regs" and "length regs \<le> 125"
  shows "modbus_dev_read k (Some h) buf count s = None"
  using assms by (rule timely_module.modbus_dev_read_overflow)

theorem driver_read_overflows_kernel_buffer_witness:
  "modbus_dev_read bus_kernel (Some \<lparr>handle_block = 1, start_address = 0, handle_dev = True\<rparr>) 0x1000 2
     (bus_state (unit_with [1, 2, 3]) []) = None"
  by (rule driver_read_overflows_kernel_buffer [OF bus_module.timely_module_axioms
        unit_with_ok(1,2) [of "[1, 2, 3]"], where regs = "[1, 2, 3]"])
    (simp_all add: accepted_count_def unit_with_ok(3))

text \<open>
  C18: a read of 125 registers is the one size without that defect.  Whatever arrives, it ends,
  stays in its memory, releases its kernel buffer and leaves the module ready; it returns one of four errors, or \<open>count\<close>,
  and then the bytes copied to the user are the data of a response frame with unit 1, function
  3, length 250 and a correct CRC.
\<close>

theorem driver_read_full_is_safe:
  assumes "live_module k live wait kblocks" and "module_ok k live s" and "unat count div 2 = 125"
  shows "returns (modbus_dev_read k (Some h) buf count s) (\<lambda>(r, s'). module_ok k live s' \<and>
    kblocks (env (drv s')) = kblocks (env (drv s)) \<and>
    (r \<in> {- EFAULT, - EINVAL, - ENOMEM, - EIO} \<or>
     r = count \<and> (\<exists>data e p e'. length data = 250 \<and> seen (nmbs s') = rtu_frame 1 3 (250 # data) \<and>
       copy_to_user k buf (host_bytes (words_of data)) e = (0, e') \<and> env (drv s') = kfree k p e')))"
  using assms by (rule live_module.modbus_dev_read_full_returns)

theorem driver_read_full_is_safe_witness:
  "\<exists>r s'. modbus_dev_read bus_kernel (Some \<lparr>handle_block = 1, start_address = 0, handle_dev = True\<rparr>) 0x1000 250
     (bus_state (\<lambda>frame. [[1, 2, 3], [4]]) []) = Some (r, s') \<and> module_ok bus_kernel bus_live s' \<and>
     bus_kblocks (env (drv s')) = {1}"
proof -
  have "returns (modbus_dev_read bus_kernel (Some \<lparr>handle_block = 1, start_address = 0, handle_dev = True\<rparr>) 0x1000 250
      (bus_state (\<lambda>frame. [[1, 2, 3], [4]]) [])) (\<lambda>(r, s'). module_ok bus_kernel bus_live s' \<and>
    bus_kblocks (env (drv s')) = bus_kblocks (env (drv (bus_state (\<lambda>frame. [[1, 2, 3], [4]]) []))) \<and>
    (r \<in> {- EFAULT, - EINVAL, - ENOMEM, - EIO} \<or>
     r = 250 \<and> (\<exists>data e p e'. length data = 250 \<and> seen (nmbs s') = rtu_frame 1 3 (250 # data) \<and>
       copy_to_user bus_kernel 0x1000 (host_bytes (words_of data)) e = (0, e') \<and> env (drv s') = kfree bus_kernel p e')))"
    by (rule driver_read_full_is_safe [OF bus_module.live_module_axioms bus_state_ok(1)]) simp_all
  then show ?thesis by (auto elim!: returnsE simp: bus_state_def bus_kblocks_def)
qed

text \<open>
  C8: writing the device is memory safe, ends, and releases its kernel buffer exactly once,
  whatever the unit answers.  The result is one
  of four errors, or \<open>count\<close>, and then unit 1 has acknowledged a write of \<open>count / 2\<close> registers
  at the file's start address in a frame with a correct CRC.
\<close>

theorem driver_write_acknowledged:
  assumes "live_module k live wait kblocks" and "module_ok k live s"
  shows "returns (modbus_dev_write k (Some h) buf count s) (\<lambda>(r, s'). module_ok k live s' \<and>
    kblocks (env (drv s')) = kblocks (env (drv s)) \<and>
    (r \<in> {- EFAULT, - EINVAL, - ENOMEM, - ENODEV} \<or>
     r = count \<and> accepted_count (start_address h) count \<and>
     seen (nmbs s') = write_ack (start_address h) (ucast (count div 2))))"
  using assms by (rule live_module.modbus_dev_write_returns)

theorem driver_write_acknowledged_witness:
  "\<exists>r s'. modbus_dev_write bus_kernel (Some \<lparr>handle_block = 1, start_address = 0, handle_dev = True\<rparr>) 0x1000 4
     (bus_state (\<lambda>frame. []) [1, 2, 3, 4]) = Some (r, s') \<and> module_ok bus_kernel bus_live s' \<and>
     bus_kblocks (env (drv s')) = {1}"
proof -
  have "returns (modbus_dev_write bus_kernel (Some \<lparr>handle_block = 1, start_address = 0, handle_dev = True\<rparr>) 0x1000 4
      (bus_state (\<lambda>frame. []) [1, 2, 3, 4])) (\<lambda>(r, s'). module_ok bus_kernel bus_live s' \<and>
    bus_kblocks (env (drv s')) = bus_kblocks (env (drv (bus_state (\<lambda>frame. []) [1, 2, 3, 4]))) \<and>
    (r \<in> {- EFAULT, - EINVAL, - ENOMEM, - ENODEV} \<or>
     r = 4 \<and> accepted_count (start_address \<lparr>handle_block = 1, start_address = 0, handle_dev = True\<rparr>) 4 \<and>
     seen (nmbs s') = write_ack (start_address \<lparr>handle_block = 1, start_address = 0, handle_dev = True\<rparr>) (ucast ((4 :: u64) div 2))))"
    by (rule driver_write_acknowledged [OF bus_module.live_module_axioms bus_state_ok(1)]) simp
  then show ?thesis by (auto elim!: returnsE simp: bus_state_def bus_kblocks_def)
qed

text \<open>
  C2: on a timely kernel, writing the device puts the words of the user's buffer on the wire:
  if the unit acknowledges the write request for the file's start address with just these
  words, whatever it does with other frames, the write returns \<open>count\<close>, and the kernel buffer was
  released.
\<close>

theorem driver_write_sends_user_registers:
  assumes "timely_module k live wait kblocks elapsed transit reply user"
    and "module_ok k live s" and "line_idle live elapsed transit (drv s)"
    and "handle_dev h" and "buf \<noteq> 0" and "accepted_count (start_address h) count" and "2 \<le> unat count"
    and "unat count div 2 \<le> 123"
    and "line_answer reply (drv s) (write_request (start_address h)
        (host_words (user (env (drv s)) buf (2 * (unat count div 2))))) =
      write_ack (start_address h) (ucast (count div 2))"
  shows "returns (modbus_dev_write k (Some h) buf count s) (\<lambda>(r, s'). r = count \<and> module_ok k live s' \<and>
    kblocks (env (drv s')) = kblocks (env (drv s)))"
  using assms by (rule timely_module.modbus_dev_write_exact)

text \<open>The unit acknowledges only this one request.\<close>

theorem driver_write_sends_user_registers_witness:
  "returns (modbus_dev_write bus_kernel (Some \<lparr>handle_block = 1, start_address = 1, handle_dev = True\<rparr>) 0x1000 4
     (bus_state (\<lambda>frame. if frame = write_request 1 [0x000A, 0x0102] then [write_ack 1 2] else []) [0x0A, 0, 2, 1]))
   (\<lambda>(r, s'). r = 4 \<and> module_ok bus_kernel bus_live s' \<and> bus_kblocks (env (drv s')) =
     bus_kblocks (env (drv (bus_state (\<lambda>frame. if frame = write_request 1 [0x000A, 0x0102] then [write_ack 1 2] else [])
       [0x0A, 0, 2, 1]))))"
proof -
  have ok: "\<forall>f. \<forall>b\<in>set ((\<lambda>frame. if frame = write_request 1 [0x000A, 0x0102] then [write_ack 1 2] else []) f).
      length b < 2 ^ 31"
    by (simp add: write_ack_def)
  have mem: "word_of_bytes 0 10 = 10" "word_of_bytes 1 2 = 258"
    by (simp_all add: word_of_bytes_def)
  show ?thesis
    by (rule driver_write_sends_user_registers [OF bus_module.timely_module_axioms bus_state_ok [OF ok]])
      (simp_all add: accepted_count_def bus_state_answer, simp_all add: bus_state_def bus_user_at_def
         mem answer_of_def write_ack_def)
qed

text \<open>
  C22: when the unit refuses a read with the exception 1, 2, 3 or 4, the library call of the driver
  returns just this exception, has taken the whole frame from the line and leaves the kernel
  buffer as it was; the read releases the buffer and ends with \<open>-EIO\<close> in the state that the call
  left, and the module is ready for the next operation.
\<close>

theorem driver_exception_is_eio:
  assumes "timely_module k live wait kblocks elapsed transit reply user"
    and "module_ok k live s" and "line_idle live elapsed transit (drv s)"
    and "handle_dev h" and "buf \<noteq> 0" and "accepted_count (start_address h) count" and "2 \<le> unat count"
    and "line_answer reply (drv s) (read_request (start_address h) (ucast (count div 2))) = rtu_frame 1 0x83 [code]"
    and "(code, err) \<in> {(1, NMBS_EXCEPTION_ILLEGAL_FUNCTION), (2, NMBS_EXCEPTION_ILLEGAL_DATA_ADDRESS),
      (3, NMBS_EXCEPTION_ILLEGAL_DATA_VALUE), (4, NMBS_EXCEPTION_SERVER_DEVICE_FAILURE)}"
  shows "\<exists>p b e n w. kmalloc k (count div 2 * 2) (env (drv s)) = (Some (p, b), e) \<and>
    nmbs_read_holding_registers (nmbs s) (start_address h) (ucast (count div 2)) (Some (host_words b)) ((drv s)\<lparr>env := e\<rparr>) =
      Some (err, Some (host_words b), n, w) \<and>
    modbus_dev_read k (Some h) buf count s = Some (- EIO, with_env (s\<lparr>nmbs := n, drv := w\<rparr>) (kfree k p (env w))) \<and>
    module_ok k live (with_env (s\<lparr>nmbs := n, drv := w\<rparr>) (kfree k p (env w))) \<and>
    kblocks (kfree k p (env w)) = kblocks (env (drv s)) \<and> line_arrived live elapsed transit w []"
proof -
  have "1 \<le> code" "code \<le> 4" "err = nmbs_error_of_exception code"
    using assms(9) by (auto simp: nmbs_error_of_exception_def)
  with timely_module.modbus_dev_read_exception [OF assms(1-8)] show ?thesis by simp
qed

theorem driver_exception_is_eio_witness:
  "\<exists>p b s e n w. kmalloc bus_kernel 2 (env (drv s)) = (Some (p, b), e) \<and>
    nmbs_read_holding_registers (nmbs s) 9 1 (Some (host_words b)) ((drv s)\<lparr>env := e\<rparr>) =
      Some (NMBS_EXCEPTION_ILLEGAL_DATA_ADDRESS, Some (host_words b), n, w) \<and>
    modbus_dev_read bus_kernel (Some \<lparr>handle_block = 1, start_address = 9, handle_dev = True\<rparr>) 0x1000 2 s =
      Some (- EIO, with_env (s\<lparr>nmbs := n, drv := w\<rparr>) (kfree bus_kernel p (env w)))"
  using driver_exception_is_eio [OF bus_module.timely_module_axioms bus_state_ok [of "\<lambda>frame. [rtu_frame 1 0x83 [2]]" "[]"],
      of "\<lparr>handle_block = 1, start_address = 9, handle_dev = True\<rparr>" "0x1000" 2 2 NMBS_EXCEPTION_ILLEGAL_DATA_ADDRESS]
  by (simp add: accepted_count_def bus_state_answer answer_of_def rtu_frame_def) blast

text \<open>
  C30: the last register of the address space cannot be reached: a window that ends with it is
  rejected with \<open>-EINVAL\<close>, although the library's own check allows it.
\<close>

theorem driver_last_register_unreachable:
  assumes "handle_dev h" and "buf \<noteq> 0"
    and "unat (start_address h) + unat count div 2 = 65536" and "unat count div 2 \<le> 125"
  shows "modbus_dev_read k (Some h) buf count s = Some (- EINVAL, s) \<and>
    modbus_dev_write k (Some h) buf count s = Some (- EINVAL, s) \<and>
    \<not> beyond_address_space (start_address h) (ucast (count div 2))"
proof -
  have "unat (ucast (count div 2) :: u16) = unat count div 2"
    using assms(4) by (simp add: unat_ucast unat_div)
  moreover have "\<not> accepted_count (start_address h) count"
    using assms(3) by (simp add: accepted_count_def)
  ultimately show ?thesis
    using assms(1-3) accepted_count_iff [of "start_address h" count]
    by (auto simp: modbus_dev_read_def modbus_dev_write_def beyond_address_space_iff Let_def)
qed

theorem driver_last_register_unreachable_witness:
  "modbus_dev_read bus_kernel (Some \<lparr>handle_block = 1, start_address = 65535, handle_dev = True\<rparr>) 0x1000 2 (bus_state (\<lambda>f. []) []) =
     Some (- EINVAL, bus_state (\<lambda>f. []) [])"
proof -
  let ?h = "\<lparr>handle_block = 1, start_address = 65535, handle_dev = True\<rparr>"
  have "unat (start_address ?h) + unat (2 :: u64) div 2 = 65536" by simp
  from driver_last_register_unreachable [OF _ _ this, of "0x1000" bus_kernel "bus_state (\<lambda>f. []) []"] show ?thesis
    by simp
qed

text \<open>
  C31: a write of 124 or 125 registers passes the driver's limit but not the library's: nothing
  is sent, the kernel buffer is released and the write returns \<open>-ENODEV\<close>.
\<close>

theorem driver_write_limit_mismatch:
  assumes "handle_dev h" and "buf \<noteq> 0" and "accepted_count (start_address h) count" and "123 < unat count div 2"
    and "kmalloc k (count div 2 * 2) (env (drv s)) = (Some (p, b), e)"
    and "copy_from_user k b buf (count div 2 * 2) e = (0, mem)"
  shows "modbus_dev_write k (Some h) buf count s = Some (- ENODEV, with_env s (kfree k p e))"
proof -
  have "unat (ucast (count div 2) :: u16) = unat count div 2"
    using accepted_count_sizes(2) [OF assms(3)] .
  then have "0x007B < (ucast (count div 2) :: u16)"
    using assms(4) by (simp add: word_less_nat_alt)
  then show ?thesis
    using assms accepted_count_iff [of "start_address h" count]
    by (simp add: modbus_dev_write_def nmbs_write_multiple_registers_def with_env_def Let_def)
qed

theorem driver_write_limit_mismatch_witness:
  "\<exists>s. modbus_dev_write bus_kernel (Some \<lparr>handle_block = 1, start_address = 0, handle_dev = True\<rparr>) 0x1000 248 (bus_state (\<lambda>f. []) []) =
     Some (- ENODEV, s)"
proof -
  have "modbus_dev_write bus_kernel (Some \<lparr>handle_block = 1, start_address = 0, handle_dev = True\<rparr>) 0x1000 248 (bus_state (\<lambda>f. []) []) =
     Some (- ENODEV, with_env (bus_state (\<lambda>f. []) [])
       (kfree bus_kernel 2 ((env (drv (bus_state (\<lambda>f. []) [])))\<lparr>bus_blocks := [2, 1]\<rparr>)))"
    by (rule driver_write_limit_mismatch)
      (simp_all add: accepted_count_def bus_kernel_def bus_state_def bus_fresh_def Let_def)
  then show ?thesis by blast
qed

section \<open>The ioctl\<close>

text \<open>
  C32: the ioctl sets the start address to the \<^verbatim>\<open>unsigned long\<close> \<open>v\<close> that the user's pointer
  designates (little-endian in memory) if \<open>v < 65535\<close>, and otherwise changes nothing and
  returns \<open>-EINVAL\<close>; so an address that was set always admits a read of one register.
\<close>

theorem ioctl_sets_address:
  assumes "copy_from_user k (replicate 8 0) arg 8 (env (drv s)) = (0, ulong_bytes v)"
  shows "if unat v < 65535
    then \<exists>h'. modbus_dev_ioctl k (Some h) SERIAL_MODBUSCHAR_IOCSETADDR arg s = Some (0, Some h') \<and>
      unat (start_address h') = unat v \<and> handle_dev h' = handle_dev h \<and> accepted_count (start_address h') 2
    else modbus_dev_ioctl k (Some h) SERIAL_MODBUSCHAR_IOCSETADDR arg s = Some (- EINVAL, Some h)"
  using assms
  by (auto simp: modbus_dev_ioctl_def UINT16_MAX_def word_le_nat_alt unat_ucast
      accepted_count_def Let_def)

theorem ioctl_sets_address_witness:
  "\<exists>h'. modbus_dev_ioctl bus_kernel (Some \<lparr>handle_block = 1, start_address = 0, handle_dev = True\<rparr>)
     SERIAL_MODBUSCHAR_IOCSETADDR 0x1000 (bus_state (\<lambda>f. []) (ulong_bytes 513)) = Some (0, Some h') \<and>
     unat (start_address h') = 513"
proof -
  have "copy_from_user bus_kernel (replicate 8 0) 0x1000 8 (env (drv (bus_state (\<lambda>f. []) (ulong_bytes 513)))) =
      (0, ulong_bytes 513)"
    by (simp add: bus_kernel_def bus_state_def)
  from ioctl_sets_address [OF this, of "\<lparr>handle_block = 1, start_address = 0, handle_dev = True\<rparr>"] show ?thesis
    by auto
qed

section \<open>The serial functions\<close>

text \<open>
  C21: \<open>read_serial\<close> hands every burst to \<open>byte_fifo_read\<close> with the start of the caller's buffer:
  if the ring holds \<open>xs\<close> and the remaining bytes \<open>ys\<close> arrive during the next sleep, it reports
  that all bytes were read, but \<open>ys\<close> has overwritten the beginning of \<open>xs\<close>.
\<close>

theorem read_serial_overwrites_earlier_burst:
  assumes "timely_kernel k live wait elapsed transit reply"
    and "driver_ok live w" and "fifo_bytes (rx_fifo w) = xs" and "transit (env w) = [ys]"
    and "elapsed (env w) < 2 ^ 61" and "xs \<noteq> []" and "ys \<noteq> []" and "length xs + length ys \<le> 256"
    and "length xs + length ys \<le> length buf"
  shows "\<exists>w'. read_serial k (Some buf) (of_nat (length xs + length ys)) 100 a w =
    Some (of_nat (length xs + length ys), Some (ys @ drop (length ys) (xs @ drop (length xs) buf)), w')"
  using assms by (rule timely_kernel.read_two_bursts)

text \<open>Four bytes in two halves: the caller gets the second half and two stale bytes.\<close>

theorem read_serial_overwrites_earlier_burst_witness:
  "\<exists>w w'. read_serial (kernel.truncate bus_kernel) (Some [0, 0, 0, 0]) 4 100 0 w = Some (4, Some [3, 4, 0, 0], w')"
proof -
  let ?w0 = "(drv (bus_state (\<lambda>f. []) []))\<lparr>env := \<lparr>bus_now = 0, bus_slots = [[3, 4]], bus_unit = \<lambda>f. [], bus_user = [], bus_blocks = []\<rparr>\<rparr>"
  obtain f where f: "fifo_inv f" "fifo_cap f = 256" "fifo_bytes f = [1, 2]"
    using byte_fifo_write_spec [OF bus_ring_inv(1), of 2 "[1, 2]"] bus_ring_inv(2,3)
    by (auto elim!: returnsE simp: lossy_push_def)
  have "\<exists>w'. read_serial (kernel.truncate bus_kernel) (Some [0, 0, 0, 0]) (of_nat (length [1, 2 :: u8] + length [3, 4 :: u8]))
      100 0 (?w0\<lparr>rx_fifo := f\<rparr>) = Some (of_nat (length [1, 2 :: u8] + length [3, 4 :: u8]),
      Some ([3, 4] @ drop (length [3, 4 :: u8]) ([1, 2] @ drop (length [1, 2 :: u8]) [0, 0, 0, 0])), w')"
    by (rule read_serial_overwrites_earlier_burst [OF bus.timely_kernel_axioms])
      (use f in \<open>simp_all add: driver_ok_def bus_live_def\<close>)
  then show ?thesis by auto
qed

text \<open>
  C23: on a kernel whose clock advances with every call, \<open>read_serial\<close> with a timeout of 1 to 1000
  milliseconds returns the number of bytes that it was asked for, or \<open>-ETIMEDOUT\<close>, and on a silent
  line always \<open>-ETIMEDOUT\<close>.  The library takes this result for a broken transport: it reports
  \<open>NMBS_ERROR_TRANSPORT\<close>, and never \<open>NMBS_ERROR_TIMEOUT\<close>.
\<close>

theorem timeout_is_transport_error:
  assumes "strict_kernel k live wait elapsed transit reply"
    and "driver_ok live w" and "elapsed (env w) < 2 ^ 60" and "ms \<noteq> 0" and "unat ms \<le> 1000"
    and "unat count \<le> length buf" and "0 < unat count"
  shows "returns (read_serial k (Some buf) count ms a w) (\<lambda>(r, _, w'). driver_ok live w' \<and>
    (r = ucast count \<and> transport_result r count = NMBS_ERROR_NONE \<or>
     r = - ETIMEDOUT \<and> transport_result r count = NMBS_ERROR_TRANSPORT) \<and>
    (fifo_bytes (rx_fifo w) = [] \<and> transit (env w) = [] \<longrightarrow> r = - ETIMEDOUT))"
proof -
  have "unat (ucast count :: i32) < 2 ^ 16"
    using unsigned_less [of count, where ?'a = nat] by (simp add: unat_ucast)
  then have "- ETIMEDOUT \<noteq> (ucast count :: i32)" by (auto simp: ETIMEDOUT_def)
  moreover have "(- ETIMEDOUT :: i32) <s 0" by (simp add: ETIMEDOUT_def word_sless_alt)
  ultimately have late: "transport_result (- ETIMEDOUT) count = NMBS_ERROR_TRANSPORT"
    by (simp add: transport_result_def)
  have full: "transport_result (ucast count) count = NMBS_ERROR_NONE"
    by (simp add: transport_result_def)
  show ?thesis
    by (rule returns_mono [OF strict_kernel.read_serial_all_or_nothing [OF assms]])
      (use late full in auto)
qed

theorem timeout_is_transport_error_witness:
  "\<exists>r b w'. read_serial (kernel.truncate bus_kernel) (Some [0]) 1 1000 0 (drv (bus_state (\<lambda>f. []) [])) = Some (r, b, w') \<and>
     r = - ETIMEDOUT \<and> transport_result r 1 = NMBS_ERROR_TRANSPORT"
proof -
  let ?w = "drv (bus_state (\<lambda>f. []) [])"
  have "returns (read_serial (kernel.truncate bus_kernel) (Some [0]) 1 1000 0 ?w) (\<lambda>(r, _, w'). driver_ok bus_live w' \<and>
    (r = ucast (1 :: u16) \<and> transport_result r 1 = NMBS_ERROR_NONE \<or>
     r = - ETIMEDOUT \<and> transport_result r 1 = NMBS_ERROR_TRANSPORT) \<and>
    (fifo_bytes (rx_fifo ?w) = [] \<and> bus_slots (env ?w) = [] \<longrightarrow> r = - ETIMEDOUT))"
    by (rule timeout_is_transport_error [OF bus.strict_kernel_axioms])
      (use bus_ring_inv in \<open>simp_all add: bus_state_def driver_ok_def bus_live_def\<close>)
  then show ?thesis
    using bus_ring_inv(3) by (auto elim!: returnsE simp: bus_state_def ETIMEDOUT_def)
qed

section \<open>Loading\<close>

text \<open>
  C29: \<open>my_init\<close> ends, and after a successful load the client is configured for RTU, unit 1 and
  the driver's platform functions, and the ring is empty.  But the pointer to the serial device
  is NULL, because the device structure is cleared after the bus has probed the device: every
  later transmission fails with \<open>-EFAULT\<close>.
\<close>

theorem init_forgets_probed_device:
  assumes "fifo_inv (rx_fifo (drv s))"
  shows "returns (my_init k s) (\<lambda>(r, s'). r = 0 \<longrightarrow>
    rtu_conf (read_serial (kernel.truncate k)) (write_serial (kernel.truncate k)) (platform (nmbs s')) \<and>
    dest_address_rtu (nmbs s') = 1 \<and> byte_timeout_ms (nmbs s') = 100 \<and> read_timeout_ms (nmbs s') = 1000 \<and>
    fifo_inv (rx_fifo (drv s')) \<and> fifo_bytes (rx_fifo (drv s')) = [] \<and>
    (\<forall>buf count t a. write_serial (kernel.truncate k) buf count t a (drv s') = Some (- EFAULT, drv s')))"
  by (rule returns_mono [OF my_init_state [OF assms]]) (auto simp: write_serial_def)

theorem init_forgets_probed_device_witness:
  "returns (my_init bus_kernel (bus_state (\<lambda>f. []) [])) (\<lambda>(r, s'). r = 0 \<and>
     write_serial (kernel.truncate bus_kernel) (Some [1]) 1 100 0 (drv s') = Some (- EFAULT, drv s'))"
proof -
  have inv: "fifo_inv (rx_fifo (drv (bus_state (\<lambda>f. []) [])))" using bus_ring_inv by (simp add: bus_state_def)
  have "returns (my_init bus_kernel (bus_state (\<lambda>f. []) [])) (\<lambda>(r, s'). r = 0)"
    using byte_fifo_reset_spec [OF inv]
    by (auto simp: my_init_def bus_kernel_def Let_def with_env_def probes_fold byte_fifo_init_def
        init_modbus_client_def nmbs_client_create_def nmbs_create_def nmbs_platform_conf_create_def
        modbus_dev_setup_cdev_def serdev_serial_probe_def)
  from returns_conj [OF this init_forgets_probed_device [OF inv, of bus_kernel]] show ?thesis
    by (elim returns_mono) auto
qed

text \<open>
  C7: the states that the other properties start from can be reached: when the load succeeds and
  the bus probes the device afterwards, on a quiet line, the module is ready, and an open of the
  device gives a file that starts at address 0 and leaves the module ready.  Releasing the file
  gives its memory back.
\<close>

theorem driver_ready_after_late_probe:
  assumes "timely_module k live wait kblocks elapsed transit reply user"
    and "fifo_inv (rx_fifo (drv s))" and "fifo_cap (rx_fifo (drv s)) = 256"
  shows "returns (my_init k s) (\<lambda>(r, s1). r = 0 \<longrightarrow> (\<forall>serdev w.
    serdev_serial_probe k serdev (drv s1) = (0, w) \<and> live (env w) \<and> transit (env w) = [] \<and> elapsed (env w) < 2 ^ 61 \<longrightarrow>
    (case modbus_dev_open k (s1\<lparr>drv := w\<rparr>) of (r', h, s2) \<Rightarrow> r' = 0 \<and>
      (\<exists>p. h = Some \<lparr>handle_block = p, start_address = 0, handle_dev = True\<rparr>) \<and> module_ok k live s2 \<and>
      line_idle live elapsed transit (drv s2) \<and>
      (case modbus_dev_release k h s2 of (r'', h', s3) \<Rightarrow> r'' = 0 \<and> h' = None \<and> module_ok k live s3 \<and>
         kblocks (env (drv s3)) = kblocks (env w)))))"
proof (rule returns_mono [OF my_init_state [OF assms(2)]], clarify)
  fix s1 serdev w r' h s2
  assume init: "0 = (0 :: i32) \<longrightarrow> dev_serdev (drv s1) = None \<and> dev_fifo (drv s1) \<and>
      fifo_inv (rx_fifo (drv s1)) \<and> fifo_bytes (rx_fifo (drv s1)) = [] \<and>
      fifo_cap (rx_fifo (drv s1)) = fifo_cap (rx_fifo (drv s)) \<and> wf_nmbs (nmbs s1) \<and>
      rtu_conf (read_serial (kernel.truncate k)) (write_serial (kernel.truncate k)) (platform (nmbs s1)) \<and>
      byte_timeout_ms (nmbs s1) = 100 \<and> read_timeout_ms (nmbs s1) = 1000 \<and> dest_address_rtu (nmbs s1) = 1"
    and probe: "serdev_serial_probe k serdev (drv s1) = (0, w)"
    and line: "live (env w)" "transit (env w) = []" "elapsed (env w) < 2 ^ 61"
    and open_file: "modbus_dev_open k (s1\<lparr>drv := w\<rparr>) = (r', h, s2)"
  have w: "rx_fifo w = rx_fifo (drv s1)" "dev_serdev w = Some serdev"
    using probe by (auto simp: serdev_serial_probe_def Let_def split: prod.splits if_splits)
  note live = timely_module.axioms(1) [OF assms(1)]
  obtain m e where m: "kmalloc k 16 (env w) = (m, e)" by fastforce
  note works = timely_module.kmalloc_works [OF assms(1) m]
  obtain p b where p: "m = Some (p, b)" using works by (cases m) auto
  note fresh = live_module.kmalloc_live [OF live line(1) m [unfolded p]]
  have s2: "r' = 0" "h = Some \<lparr>handle_block = p, start_address = 0, handle_dev = True\<rparr>" "s2 = with_env (s1\<lparr>drv := w\<rparr>) e"
    using open_file m p by (auto simp: modbus_dev_open_def)
  have ready: "module_ok k live s2" "line_idle live elapsed transit (drv s2)"
    using init w line fresh works assms(3)
    by (simp_all add: s2 module_ok_def driver_ok_def line_idle_def with_env_def)
  moreover have "live (kfree k p e)" "kblocks (kfree k p e) = kblocks (env w)"
    using live_module.kfree_live [OF live, of e p] fresh by simp_all
  ultimately show "r' = 0 \<and> (\<exists>p. h = Some \<lparr>handle_block = p, start_address = 0, handle_dev = True\<rparr>) \<and> module_ok k live s2 \<and>
      line_idle live elapsed transit (drv s2) \<and>
      (case modbus_dev_release k h s2 of (r'', h', s3) \<Rightarrow> r'' = 0 \<and> h' = None \<and> module_ok k live s3 \<and>
         kblocks (env (drv s3)) = kblocks (env w))"
    using module_ok_env [OF ready(1), of "kfree k p e"] by (simp add: s2 modbus_dev_release_def)
qed

theorem driver_ready_after_late_probe_witness:
  "\<exists>s1 w p s2. my_init bus_kernel (bus_state (\<lambda>f. []) []) = Some (0, s1) \<and> serdev_serial_probe bus_kernel 1 (drv s1) = (0, w) \<and>
     modbus_dev_open bus_kernel (s1\<lparr>drv := w\<rparr>) = (0, Some \<lparr>handle_block = p, start_address = 0, handle_dev = True\<rparr>, s2) \<and>
     module_ok bus_kernel bus_live s2 \<and> line_idle bus_live bus_now bus_slots (drv s2)"
proof -
  let ?s = "bus_state (\<lambda>f. []) []"
  have inv: "fifo_inv (rx_fifo (drv ?s))" "fifo_cap (rx_fifo (drv ?s)) = 256" using bus_ring_inv by (simp_all add: bus_state_def)
  have "returns (my_init bus_kernel ?s) (\<lambda>(r, s'). r = 0 \<and> env (drv s') = env (drv ?s))"
    using byte_fifo_reset_spec [OF inv(1)]
    by (auto simp: my_init_def bus_kernel_def Let_def with_env_def probes_fold byte_fifo_init_def
        init_modbus_client_def nmbs_client_create_def nmbs_create_def nmbs_platform_conf_create_def
        modbus_dev_setup_cdev_def serdev_serial_probe_def)
  with driver_ready_after_late_probe [OF bus_module.timely_module_axioms inv]
  obtain s1 where s1: "my_init bus_kernel ?s = Some (0, s1)" "env (drv s1) = env (drv ?s)"
    and ready: "\<forall>serdev w. serdev_serial_probe bus_kernel serdev (drv s1) = (0, w) \<and> bus_live (env w) \<and>
      bus_slots (env w) = [] \<and> bus_now (env w) < 2 ^ 61 \<longrightarrow>
      (case modbus_dev_open bus_kernel (s1\<lparr>drv := w\<rparr>) of (r', h, s2) \<Rightarrow> r' = 0 \<and>
        (\<exists>p. h = Some \<lparr>handle_block = p, start_address = 0, handle_dev = True\<rparr>) \<and> module_ok bus_kernel bus_live s2 \<and>
        line_idle bus_live bus_now bus_slots (drv s2) \<and>
        (case modbus_dev_release bus_kernel h s2 of (r'', h', s3) \<Rightarrow> r'' = 0 \<and> h' = None \<and>
          module_ok bus_kernel bus_live s3 \<and> bus_kblocks (env (drv s3)) = bus_kblocks (env w)))"
    by (auto elim!: returnsE)
  let ?w = "(drv s1)\<lparr>dev_serdev := Some 1\<rparr>"
  have probe: "serdev_serial_probe bus_kernel 1 (drv s1) = (0, ?w)"
    by (simp add: serdev_serial_probe_def bus_kernel_def Let_def)
  obtain r' h s2 where f: "modbus_dev_open bus_kernel (s1\<lparr>drv := ?w\<rparr>) = (r', h, s2)" by (metis prod_cases3)
  from ready [rule_format, of 1 ?w] show ?thesis
    using probe s1 f by (auto simp: bus_state_def bus_live_def)
qed

end
