(* ===== verification/Hash_Table.thy ===== *)
theory Hash_Table
  imports Prelude "HOL-Library.Multiset"
begin

text \<open>
  The hash table of \<^verbatim>\<open>serial_control/ht.c\<close>: open addressing with linear probing, keys copied by
  \<^verbatim>\<open>strdup\<close>, and an array that doubles when it is half full.  A key is the list of the
  characters before its terminating NUL; a pointer to a key is its address with the string
  found there.  The allocator is the parameter \<open>m\<close>: the functions of \<^verbatim>\<open>stdlib.h\<close> over a heap of
  any type \<open>'e\<close>.
\<close>

section \<open>State\<close>

type_synonym cstring = "u8 list"
type_synonym address = u64

record 'e libc =
  malloc :: "u64 \<Rightarrow> 'e \<Rightarrow> address option \<times> 'e"
  calloc :: "u64 \<Rightarrow> u64 \<Rightarrow> 'e \<Rightarrow> address option \<times> 'e"
  strdup :: "cstring \<Rightarrow> 'e \<Rightarrow> address option \<times> 'e"
  free :: "address \<Rightarrow> 'e \<Rightarrow> 'e"

text \<open>\<open>entry_key\<close> is \<open>None\<close> for NULL, an empty slot; \<open>entry_value\<close> is the \<^verbatim>\<open>void*\<close>, NULL is 0.\<close>

record ht_entry =
  entry_key :: "(address \<times> cstring) option"
  entry_value :: address

definition empty_entry :: ht_entry where
  "empty_entry = \<lparr>entry_key = None, entry_value = 0\<rparr>"

text \<open>The table with the addresses of its two blocks.\<close>

record ht =
  ht_block :: address
  entries_block :: address
  entries :: "ht_entry list"
  capacity :: u64
  ht_count :: u64

definition INITIAL_CAPACITY :: u64 where "INITIAL_CAPACITY = 16"

definition ht_create :: "'e libc \<Rightarrow> 'e \<Rightarrow> ht option \<times> 'e" where
  "ht_create m e = (case malloc m 24 e of
     (None, e) \<Rightarrow> (None, e)
   | (Some p, e) \<Rightarrow>
       (case calloc m INITIAL_CAPACITY 16 e of
          (None, e) \<Rightarrow> (None, free m p e)
        | (Some q, e) \<Rightarrow>
            (Some \<lparr>ht_block = p, entries_block = q,
                entries = replicate (unat INITIAL_CAPACITY) empty_entry,
                capacity = INITIAL_CAPACITY, ht_count = 0\<rparr>, e)))"

text \<open>The loop over \<open>i\<close> that frees the keys, on the number of passes left; \<^verbatim>\<open>free(NULL)\<close> does nothing.\<close>

fun ht_destroy_loop :: "'e libc \<Rightarrow> ht_entry list \<Rightarrow> nat \<Rightarrow> nat \<Rightarrow> 'e \<Rightarrow> 'e option" where
  "ht_destroy_loop m es 0 i e = Some e"
| "ht_destroy_loop m es (Suc n) i e = do {
     entry \<leftarrow> buf_get es i;
     ht_destroy_loop m es n (Suc i) (case entry_key entry of None \<Rightarrow> e | Some (p, _) \<Rightarrow> free m p e)
   }"

definition ht_destroy :: "'e libc \<Rightarrow> ht \<Rightarrow> 'e \<Rightarrow> 'e option" where
  "ht_destroy m table e = do {
     e \<leftarrow> ht_destroy_loop m (entries table) (unat (capacity table)) 0 e;
     let e = free m (entries_block table) e;
     Some (free m (ht_block table) e)
   }"

section \<open>Hashing and probing\<close>

definition FNV_OFFSET :: u64 where "FNV_OFFSET = 14695981039346656037"
definition FNV_PRIME :: u64 where "FNV_PRIME = 1099511628211"

fun hash_loop :: "cstring \<Rightarrow> u64 \<Rightarrow> u64" where
  "hash_loop [] hash = hash"
| "hash_loop (c # p) hash = hash_loop p ((hash XOR ucast c) * FNV_PRIME)"

definition hash_key :: "cstring \<Rightarrow> u64" where
  "hash_key key = hash_loop key FNV_OFFSET"

definition next_slot :: "u64 \<Rightarrow> u64 \<Rightarrow> u64" where
  "next_slot cap index = (if index + 1 \<ge> cap then 0 else index + 1)"

text \<open>
  The probing loop, which \<open>ht_get\<close> and \<open>ht_set_entry\<close> both contain.  It does not end when every
  slot holds another key.  The result is the slot where it stops.
\<close>

definition probe_pass :: "ht_entry list \<Rightarrow> u64 \<Rightarrow> cstring \<Rightarrow> u64 \<Rightarrow> (u64 + u64) option" where
  "probe_pass es cap key index = do {
     entry \<leftarrow> buf_get es (unat index);
     Some (case entry_key entry of
        None \<Rightarrow> Inr index
      | Some (_, k) \<Rightarrow> if k = key then Inr index else Inl (next_slot cap index))
   }"

definition ht_probe :: "ht_entry list \<Rightarrow> u64 \<Rightarrow> cstring \<Rightarrow> u64 \<Rightarrow> u64 option" where
  "ht_probe es cap key = loop (probe_pass es cap key)"

lemma ht_probe_unfold:
  "ht_probe es cap key index = do {
     entry \<leftarrow> buf_get es (unat index);
     (case entry_key entry of
        None \<Rightarrow> Some index
      | Some (_, k) \<Rightarrow> if k = key then Some index else ht_probe es cap key (next_slot cap index))
   }"
  unfolding ht_probe_def
  by (subst loop.simps) (auto simp: probe_pass_def split: bind_splits option.splits)

definition ht_get :: "ht \<Rightarrow> cstring \<Rightarrow> address option" where
  "ht_get table key = do {
     let index = hash_key key AND (capacity table - 1);
     index \<leftarrow> ht_probe (entries table) (capacity table) key index;
     entry \<leftarrow> buf_get (entries table) (unat index);
     Some (if entry_key entry = None then 0 else entry_value entry)
   }"

section \<open>Insertion\<close>

text \<open>
  The result is the address and contents of the key in the table, \<open>None\<close> for NULL; \<open>plength\<close> is
  the variable that \<^verbatim>\<open>plength\<close> points to, \<open>None\<close> for NULL.
\<close>

definition ht_set_entry ::
  "'e libc \<Rightarrow> ht_entry list \<Rightarrow> u64 \<Rightarrow> address \<times> cstring \<Rightarrow> address \<Rightarrow> u64 option \<Rightarrow> 'e \<Rightarrow>
     ((address \<times> cstring) option \<times> ht_entry list \<times> u64 option \<times> 'e) option" where
  "ht_set_entry m es cap key v plength e = do {
     let index = hash_key (snd key) AND (cap - 1);
     index \<leftarrow> ht_probe es cap (snd key) index;
     entry \<leftarrow> buf_get es (unat index);
     (case entry_key entry of
        Some k \<Rightarrow> do {
          es \<leftarrow> buf_set es (unat index) (entry\<lparr>entry_value := v\<rparr>);
          Some (Some k, es, plength, e)
        }
      | None \<Rightarrow>
          (case (case plength of None \<Rightarrow> (Some key, e)
                 | Some _ \<Rightarrow> (case strdup m (snd key) e of (p, e) \<Rightarrow> (map_option (\<lambda>p. (p, snd key)) p, e))) of
             (None, e) \<Rightarrow> Some (None, es, plength, e)
           | (Some k, e) \<Rightarrow> do {
               es \<leftarrow> buf_set es (unat index) (entry\<lparr>entry_key := Some k, entry_value := v\<rparr>);
               Some (Some k, es, map_option (\<lambda>l. l + 1) plength, e)
             }))
   }"

fun ht_expand_loop ::
  "'e libc \<Rightarrow> ht_entry list \<Rightarrow> u64 \<Rightarrow> nat \<Rightarrow> nat \<Rightarrow> ht_entry list \<Rightarrow> 'e \<Rightarrow> (ht_entry list \<times> 'e) option" where
  "ht_expand_loop m es new_capacity 0 i new_entries e = Some (new_entries, e)"
| "ht_expand_loop m es new_capacity (Suc n) i new_entries e = do {
     entry \<leftarrow> buf_get es i;
     (new_entries, e) \<leftarrow> (case entry_key entry of
        None \<Rightarrow> Some (new_entries, e)
      | Some k \<Rightarrow> do {
          (_, new_entries, _, e) \<leftarrow> ht_set_entry m new_entries new_capacity k (entry_value entry) None e;
          Some (new_entries, e)
        });
     ht_expand_loop m es new_capacity n (Suc i) new_entries e
   }"

definition ht_expand :: "'e libc \<Rightarrow> ht \<Rightarrow> 'e \<Rightarrow> (bool \<times> ht \<times> 'e) option" where
  "ht_expand m table e = (
     let new_capacity = capacity table * 2 in
     if new_capacity < capacity table then Some (False, table, e)
     else (case calloc m new_capacity 16 e of
        (None, e) \<Rightarrow> Some (False, table, e)
      | (Some q, e) \<Rightarrow> do {
          (new_entries, e) \<leftarrow> ht_expand_loop m (entries table) new_capacity (unat (capacity table)) 0
             (replicate (unat new_capacity) empty_entry) e;
          let e = free m (entries_block table) e;
          Some (True, table\<lparr>entries_block := q, entries := new_entries, capacity := new_capacity\<rparr>, e)
        }))"

text \<open>
  The assertion aborts the program for a NULL value.  The address of the caller's key (0 here) is
  not used: the key is copied.
\<close>

definition ht_set :: "'e libc \<Rightarrow> ht \<Rightarrow> cstring \<Rightarrow> address \<Rightarrow> 'e \<Rightarrow> ((address \<times> cstring) option \<times> ht \<times> 'e) option" where
  "ht_set m table key v e = (
     if v = 0 then None
     else do {
       (success, table, e) \<leftarrow>
         (if ht_count table \<ge> capacity table div 2 then ht_expand m table e else Some (True, table, e));
       if \<not> success then Some (None, table, e)
       else do {
         (k, es, l, e) \<leftarrow> ht_set_entry m (entries table) (capacity table) (0, key) v (Some (ht_count table)) e;
         l \<leftarrow> l;
         Some (k, table\<lparr>entries := es, ht_count := l\<rparr>, e)
       }
     })"

text \<open>Test vectors of FNV-1a: the empty string, \<open>a\<close> and \<open>foobar\<close>.\<close>

lemma fnv_vectors:
  "hash_key [] = 0xcbf29ce484222325" "hash_key [97] = 0xaf63dc4c8601ec8c"
  "hash_key [102, 111, 111, 98, 97, 114] = 0x85944171f73967e8"
  by (simp_all add: hash_key_def FNV_OFFSET_def FNV_PRIME_def)

definition ht_length :: "ht \<Rightarrow> u64" where
  "ht_length table = ht_count table"

section \<open>Iteration\<close>

text \<open>
  The iterator's reference to its table is an argument here.  \<open>ht_iterator\<close> sets one field of the
  uninitialised variable \<open>it\<close>.
\<close>

record hti =
  hti_key :: "(address \<times> cstring) option"
  hti_value :: address
  hti_index :: u64

definition ht_iterator :: "hti \<Rightarrow> hti" where
  "ht_iterator it = it\<lparr>hti_index := 0\<rparr>"

partial_function (option) ht_next :: "ht \<Rightarrow> hti \<Rightarrow> (bool \<times> hti) option" where
  "ht_next table it =
     (if hti_index it < capacity table then do {
        let i = hti_index it;
        let it = it\<lparr>hti_index := hti_index it + 1\<rparr>;
        entry \<leftarrow> buf_get (entries table) (unat i);
        if entry_key entry \<noteq> None
        then Some (True, it\<lparr>hti_key := entry_key entry, hti_value := entry_value entry\<rparr>)
        else ht_next table it
      }
      else Some (False, it))"

text \<open>A client's loop \<^verbatim>\<open>while (ht_next(&it))\<close>, which collects what it is shown.\<close>

partial_function (option) ht_collect ::
  "ht \<Rightarrow> hti \<Rightarrow> (cstring \<times> address) list \<Rightarrow> (cstring \<times> address) list option" where
  "ht_collect table it acc = do {
     (more, it) \<leftarrow> ht_next table it;
     if more then do {
       k \<leftarrow> hti_key it;
       ht_collect table it (acc @ [(snd k, hti_value it)])
     }
     else Some acc
   }"

section \<open>Slots\<close>

text \<open>The key in a slot, and the filled slots as triples of key address, key and value.\<close>

definition slot_key :: "ht_entry list \<Rightarrow> nat \<Rightarrow> cstring option" where
  "slot_key es i = map_option snd (entry_key (es ! i))"

fun cells :: "ht_entry list \<Rightarrow> (address \<times> cstring \<times> address) list" where
  "cells [] = []"
| "cells (e # es) = (case entry_key e of None \<Rightarrow> cells es | Some (p, k) \<Rightarrow> (p, k, entry_value e) # cells es)"

text \<open>The abstract map of a slot array.\<close>

definition ht_map :: "ht_entry list \<Rightarrow> cstring \<Rightarrow> address option" where
  "ht_map es = map_of (map snd (cells es))"

definition home :: "nat \<Rightarrow> cstring \<Rightarrow> nat" where
  "home n key = unat (hash_key key AND (of_nat n - 1))"

text \<open>The slots from the home of \<open>key\<close> on, \<open>d\<close> of them, are filled.\<close>

definition run_filled :: "ht_entry list \<Rightarrow> cstring \<Rightarrow> nat \<Rightarrow> bool" where
  "run_filled es key d \<longleftrightarrow> (\<forall>d'<d. slot_key es ((home (length es) key + d') mod length es) \<noteq> None)"

text \<open>
  The invariant of open addressing: the number of slots is a power of two, keys are distinct,
  and every key is found by walking over filled slots from its home.
\<close>

definition slots_ok :: "ht_entry list \<Rightarrow> bool" where
  "slots_ok es \<longleftrightarrow> (\<exists>k\<in>{1..<64}. length es = 2 ^ k) \<and> distinct (map (fst \<circ> snd) (cells es)) \<and>
     (\<forall>i<length es. \<forall>key. slot_key es i = Some key \<longrightarrow>
        (\<exists>d<length es. i = (home (length es) key + d) mod length es \<and> run_filled es key d))"

lemma cells_append: "cells (xs @ ys) = cells xs @ cells ys"
  by (induction xs) (auto split: option.splits)

lemma cells_split:
  assumes "i < length es"
  shows "cells es = cells (take i es) @ cells [es ! i] @ cells (drop (Suc i) es)"
    "cells (es[i := e]) = cells (take i es) @ cells [e] @ cells (drop (Suc i) es)"
  using cells_append [of "take i es" "es ! i # drop (Suc i) es"] cells_append [of "take i es" "e # drop (Suc i) es"]
    cells_append [of "[es ! i]" "drop (Suc i) es"] cells_append [of "[e]" "drop (Suc i) es"] assms
  by (simp_all add: id_take_nth_drop [OF assms, symmetric] upd_conv_take_nth_drop)

lemma length_cells: "length (cells es) \<le> length es"
  by (induction es) (auto split: option.splits)

lemma cells_empty [simp]: "cells (replicate n empty_entry) = []"
  by (induction n) (simp_all add: empty_entry_def)

lemma cell_iff:
  "(p, k, v) \<in> set (cells es) \<longleftrightarrow> (\<exists>i<length es. entry_key (es ! i) = Some (p, k) \<and> entry_value (es ! i) = v)"
proof (induction es)
  case (Cons e es)
  then show ?case by (auto simp: Ex_less_Suc2 split: option.splits)
qed simp

lemma key_iff: "key \<in> fst ` snd ` set (cells es) \<longleftrightarrow> (\<exists>i<length es. slot_key es i = Some key)"
  by (auto simp: slot_key_def cell_iff image_iff Bex_def)

lemma empty_slot: "length (cells es) < length es \<Longrightarrow> \<exists>i<length es. slot_key es i = None"
proof (induction es)
  case (Cons e es)
  show ?case
  proof (cases "entry_key e")
    case None
    then show ?thesis by (intro exI [of _ 0]) (simp add: slot_key_def)
  next
    case (Some k)
    with Cons obtain i where "i < length es" "slot_key es i = None" by (cases k) auto
    then show ?thesis by (intro exI [of _ "Suc i"]) (simp add: slot_key_def)
  qed
qed simp

lemma ht_map_iff:
  assumes "distinct (map (fst \<circ> snd) (cells es))"
  shows "ht_map es key = Some v \<longleftrightarrow> (\<exists>p. (p, key, v) \<in> set (cells es))"
  using assms unfolding ht_map_def
  by (subst map_of_eq_Some_iff) (auto simp: image_iff Bex_def)

lemma ht_map_None: "ht_map es key = None \<longleftrightarrow> key \<notin> fst ` snd ` set (cells es)"
  by (auto simp: ht_map_def map_of_eq_None_iff image_image)

lemma mset_keys: "mset (cells es) = mset (cells es') \<Longrightarrow>
  distinct (map (fst \<circ> snd) (cells es)) = distinct (map (fst \<circ> snd) (cells es'))"
  using mset_eq_imp_distinct_iff [of "map (fst \<circ> snd) (cells es)" "map (fst \<circ> snd) (cells es')"] by simp

section \<open>Probing\<close>

lemma unat_next_slot:
  assumes "unat index < unat cap"
  shows "unat (next_slot cap index) = Suc (unat index) mod unat cap"
proof -
  have "Suc (unat index) < 2 ^ 64"
    using assms unsigned_less [of cap, where ?'a = nat] by simp
  then have "unat (index + 1) = Suc (unat index)" by (simp add: unat_plus_one)
  then show ?thesis
    using assms by (cases "Suc (unat index) = unat cap") (auto simp: next_slot_def word_le_nat_alt)
qed

lemma home_less:
  assumes "length es = 2 ^ k" "k < 64" "unat cap = length es"
  shows "home (length es) key < length es" "unat (hash_key key AND (cap - 1)) = home (length es) key"
proof -
  have cap: "cap = 2 ^ k" "of_nat (length es) = cap"
    using assms by (simp_all add: unat_eq_of_nat)
  show "unat (hash_key key AND (cap - 1)) = home (length es) key"
    by (simp add: home_def cap)
  have "hash_key key AND (2 ^ k - 1) = take_bit k (hash_key key)"
    by (simp only: take_bit_eq_mask mask_eq_exp_minus_1)
  moreover have "unat (take_bit k (hash_key key)) = take_bit k (unat (hash_key key))"
    by (rule unsigned_take_bit_eq)
  then have "unat (take_bit k (hash_key key)) = unat (hash_key key) mod 2 ^ k"
    by (simp only: take_bit_nat_def)
  ultimately have "unat (hash_key key AND (2 ^ k - 1)) = unat (hash_key key) mod 2 ^ k"
    by (simp only:)
  then show "home (length es) key < length es"
    using assms cap by (simp add: home_def)
qed

lemma ht_probe_walk:
  assumes "unat cap = length es" "unat index < length es"
    and "\<forall>d'<d. slot_key es ((unat index + d') mod length es) \<notin> {None, Some key}"
    and "slot_key es ((unat index + d) mod length es) \<in> {None, Some key}"
  shows "ht_probe es cap key index = Some (of_nat ((unat index + d) mod length es))"
  using assms
proof (induction d arbitrary: index)
  case 0
  then have "of_nat (unat index) = index" "slot_key es (unat index) \<in> {None, Some key}" by simp_all
  then show ?case
    using 0 by (subst ht_probe_unfold) (auto simp: buf_get_in slot_key_def split: option.splits)
next
  case (Suc d)
  have pos: "0 < length es" using Suc.prems(2) by linarith
  have step: "unat (next_slot cap index) = Suc (unat index) mod length es"
    using unat_next_slot [of index cap] Suc.prems by simp
  have shift: "(unat (next_slot cap index) + d') mod length es = (unat index + Suc d') mod length es" for d'
    by (simp add: step mod_add_left_eq)
  have "slot_key es (unat index) \<notin> {None, Some key}"
    using Suc.prems(2,3) by (auto dest: spec [of _ 0])
  then have "ht_probe es cap key index = ht_probe es cap key (next_slot cap index)"
    using Suc.prems by (subst ht_probe_unfold) (auto simp: buf_get_in slot_key_def split: option.splits)
  also have "\<dots> = Some (of_nat ((unat (next_slot cap index) + d) mod length es))"
  proof (rule Suc.IH)
    show "\<forall>d'<d. slot_key es ((unat (next_slot cap index) + d') mod length es) \<notin> {None, Some key}"
      unfolding shift using Suc.prems(3) by (intro allI impI) (drule spec, erule mp, simp)
    show "slot_key es ((unat (next_slot cap index) + d) mod length es) \<in> {None, Some key}"
      unfolding shift by (rule Suc.prems(4))
  qed (use Suc.prems pos in \<open>simp_all add: step\<close>)
  finally show ?case by (simp add: shift)
qed

text \<open>Where the probing loop stops in a well-formed array with an empty slot.\<close>

definition probe_stop :: "ht_entry list \<Rightarrow> cstring \<Rightarrow> nat \<Rightarrow> bool" where
  "probe_stop es key j \<longleftrightarrow> j < length es \<and>
     (slot_key es j = Some key \<or>
      slot_key es j = None \<and> key \<notin> fst ` snd ` set (cells es) \<and>
      (\<exists>d<length es. j = (home (length es) key + d) mod length es \<and> run_filled es key d))"

lemma slots_okD:
  assumes "slots_ok es"
  shows "\<exists>k. 1 \<le> k \<and> k < 64 \<and> length es = 2 ^ k" "distinct (map (fst \<circ> snd) (cells es))" "2 \<le> length es"
    "i < length es \<Longrightarrow> slot_key es i = Some key \<Longrightarrow>
      \<exists>d<length es. i = (home (length es) key + d) mod length es \<and> run_filled es key d"
proof -
  show pow: "\<exists>k. 1 \<le> k \<and> k < 64 \<and> length es = 2 ^ k" and "distinct (map (fst \<circ> snd) (cells es))"
    using assms by (auto simp: slots_ok_def)
  then show "2 \<le> length es" using power_increasing [of 1 _ "2 :: nat"] by auto
  show "i < length es \<Longrightarrow> slot_key es i = Some key \<Longrightarrow>
      \<exists>d<length es. i = (home (length es) key + d) mod length es \<and> run_filled es key d"
    using assms by (simp add: slots_ok_def)
qed

lemma ht_probe_spec:
  assumes ok: "slots_ok es" and cap: "unat cap = length es" and room: "length (cells es) < length es"
  shows "returns (ht_probe es cap key (hash_key key AND (cap - 1))) (\<lambda>index. probe_stop es key (unat index))"
proof -
  let ?n = "length es" and ?s = "home (length es) key"
  let ?stop = "\<lambda>d. slot_key es ((?s + d) mod ?n) \<in> {None, Some key}"
  from slots_okD(1) [OF ok] obtain k where k: "?n = 2 ^ k" "k < 64" by auto
  note home = home_less [OF k cap, of key]
  obtain i where i: "i < ?n" "slot_key es i = None" using empty_slot [OF room] by blast
  have "(?s + (i + ?n - ?s)) mod ?n = i" using i home by simp
  then have some: "?stop (i + ?n - ?s)" using i by simp
  define d where "d = (LEAST d. ?stop d)"
  have stop: "?stop d" unfolding d_def by (rule LeastI [of ?stop, OF some])
  have least: "\<not> ?stop d'" if "d' < d" for d' using that unfolding d_def by (rule not_less_Least)
  have "?stop (d mod ?n)" using stop by (simp only: mod_add_right_eq)
  then have "\<not> d mod ?n < d" using least by blast
  then have dn: "d < ?n" using i(1) mod_less_divisor [of ?n d] by linarith
  have run: "run_filled es key d" using least by (auto simp: run_filled_def)
  let ?j = "(?s + d) mod ?n"
  have j: "?j < ?n" using i(1) mod_less_divisor [of ?n "?s + d"] by linarith
  have "ht_probe es cap key (hash_key key AND (cap - 1)) = Some (of_nat ?j)"
    using ht_probe_walk [of cap es "hash_key key AND (cap - 1)" d key] cap home stop least by simp
  moreover have "unat (of_nat ?j :: u64) = ?j"
    using j unsigned_less [of cap, where ?'a = nat] cap by (intro unat_of_nat_less) simp
  moreover have "key \<notin> fst ` snd ` set (cells es)" if none: "slot_key es ?j = None"
  proof
    assume "key \<in> fst ` snd ` set (cells es)"
    then obtain i' where i': "i' < ?n" "slot_key es i' = Some key" by (auto simp: key_iff)
    from slots_okD(4) [OF ok i'] obtain d' where
      d': "i' = (?s + d') mod ?n" "run_filled es key d'" by auto
    have "?stop d'" using i' d' by simp
    then have "d \<le> d'" using least by (meson not_le)
    then have "d = d' \<or> slot_key es ?j \<noteq> None"
      using d'(2) by (auto simp: run_filled_def le_less)
    then show False using d' i' none by auto
  qed
  ultimately show ?thesis
    using stop j dn run by (auto simp: probe_stop_def)
qed

section \<open>Insertion into a slot\<close>

lemma slot_key_update: "i < length es \<Longrightarrow>
  slot_key (es[i := e]) j = (if j = i then map_option snd (entry_key e) else slot_key es j)"
  by (simp add: slot_key_def)

lemma home_update [simp]: "home (length (es[i := e])) key = home (length es) key"
  by simp

text \<open>The key of a new cell is in no cell before.\<close>

lemma fill_slot:
  assumes ok: "slots_ok es" and stop: "probe_stop es key j" and none: "slot_key es j = None"
    and e: "entry_key e = Some (p, key)"
  shows "slots_ok (es[j := e])" "mset (cells (es[j := e])) = add_mset (p, key, entry_value e) (mset (cells es))"
proof -
  have j: "j < length es" and new: "key \<notin> fst ` snd ` set (cells es)"
    using stop none by (auto simp: probe_stop_def)
  obtain d where d: "d < length es" "j = (home (length es) key + d) mod length es" "run_filled es key d"
    using stop none by (auto simp: probe_stop_def)
  have "cells [es ! j] = []" using none by (simp add: slot_key_def split: option.splits)
  then show cs: "mset (cells (es[j := e])) = add_mset (p, key, entry_value e) (mset (cells es))"
    using cells_split(1) [OF j] cells_split(2) [OF j, of e] e by simp
  have run: "run_filled (es[j := e]) key' d'" if "run_filled es key' d'" for key' d'
    using that j e by (auto simp: run_filled_def slot_key_update)
  have "mset (map (fst \<circ> snd) (cells (es[j := e]))) = add_mset key (mset (map (fst \<circ> snd) (cells es)))"
    by (simp add: cs)
  then have "distinct (map (fst \<circ> snd) (cells (es[j := e])))"
    using mset_eq_imp_distinct_iff [of _ "key # map (fst \<circ> snd) (cells es)"] slots_okD(2) [OF ok] new
    by (force simp: image_comp)
  moreover have "\<exists>d<length es. i = (home (length es) key' + d) mod length es \<and> run_filled (es[j := e]) key' d"
    if "i < length es" "slot_key (es[j := e]) i = Some key'" for i key'
  proof (cases "i = j")
    case True
    then show ?thesis using that d e run by (auto simp: slot_key_update)
  next
    case False
    then show ?thesis
      using that slots_okD(4) [OF ok, of i key'] run j by (auto simp: slot_key_update)
  qed
  ultimately show "slots_ok (es[j := e])"
    using ok by (simp add: slots_ok_def)
qed

lemma update_slot:
  assumes ok: "slots_ok es" and j: "j < length es" and k: "entry_key (es ! j) = Some (p, key)"
  shows "slots_ok (es[j := (es ! j)\<lparr>entry_value := v\<rparr>])"
    "\<exists>M. mset (cells es) = add_mset (p, key, entry_value (es ! j)) M \<and>
       mset (cells (es[j := (es ! j)\<lparr>entry_value := v\<rparr>])) = add_mset (p, key, v) M"
proof -
  let ?es = "es[j := (es ! j)\<lparr>entry_value := v\<rparr>]"
  let ?M = "mset (cells (take j es)) + mset (cells (drop (Suc j) es))"
  have "mset (cells es) = add_mset (p, key, entry_value (es ! j)) ?M" "mset (cells ?es) = add_mset (p, key, v) ?M"
    using cells_split(1) [OF j] cells_split(2) [OF j, of "(es ! j)\<lparr>entry_value := v\<rparr>"] k by simp_all
  then show "\<exists>M. mset (cells es) = add_mset (p, key, entry_value (es ! j)) M \<and> mset (cells ?es) = add_mset (p, key, v) M"
    by blast
  have same: "slot_key ?es i = slot_key es i" for i
    using j by (simp add: slot_key_update) (simp add: slot_key_def)
  have "map (fst \<circ> snd) (cells ?es) = map (fst \<circ> snd) (cells es)"
    using cells_split(1) [OF j] cells_split(2) [OF j, of "(es ! j)\<lparr>entry_value := v\<rparr>"] k by simp
  then show "slots_ok ?es"
    using ok by (simp add: slots_ok_def same run_filled_def)
qed

lemma ht_map_add:
  assumes "distinct (map (fst \<circ> snd) (cells es))" "distinct (map (fst \<circ> snd) (cells es'))"
    and "mset (cells es') = add_mset (p, key, v) M"
    and "mset (cells es) = M \<or> (\<exists>v'. mset (cells es) = add_mset (p, key, v') M)"
  shows "ht_map es' = (ht_map es)(key \<mapsto> v)"
proof
  fix k
  have set: "set (cells es') = insert (p, key, v) (set_mset M)"
    "set (cells es) = set_mset M \<or> (\<exists>v'. set (cells es) = insert (p, key, v') (set_mset M))"
    using assms(3,4) by (metis set_mset_add_mset_insert set_mset_mset)+
  have fresh: "(q, key, w) \<notin># M" for q w
  proof
    assume "(q, key, w) \<in># M"
    then obtain N where "mset (cells es') = add_mset (p, key, v) (add_mset (q, key, w) N)"
      using assms(3) by (metis insert_DiffM)
    then have "count (mset (map (fst \<circ> snd) (cells es'))) key \<ge> 2" by simp
    then show False
      using assms(2) distinct_count_atmost_1 [of "map (fst \<circ> snd) (cells es')"] by (auto split: if_splits)
  qed
  have "ht_map es' k = Some w \<longleftrightarrow> ((ht_map es)(key \<mapsto> v)) k = Some w" for w
    using set fresh by (auto simp: ht_map_iff [OF assms(1)] ht_map_iff [OF assms(2)])
  then show "ht_map es' k = ((ht_map es)(key \<mapsto> v)) k"
    by (metis not_None_eq)
qed

section \<open>The operations\<close>

text \<open>What \<open>ht_set_entry\<close> does to the cells, by the address \<open>p\<close> of the key in the table.\<close>

definition cell_set :: "address \<Rightarrow> cstring \<Rightarrow> address \<Rightarrow> ht_entry list \<Rightarrow> ht_entry list \<Rightarrow> bool" where
  "cell_set p key v es es' \<longleftrightarrow> slots_ok es' \<and> length es' = length es \<and>
     (key \<notin> fst ` snd ` set (cells es) \<and> mset (cells es') = add_mset (p, key, v) (mset (cells es)) \<or>
      (\<exists>M v'. mset (cells es) = add_mset (p, key, v') M \<and> mset (cells es') = add_mset (p, key, v) M))"

lemma cell_set_map: "slots_ok es \<Longrightarrow> cell_set p key v es es' \<Longrightarrow> ht_map es' = (ht_map es)(key \<mapsto> v)"
  by (rule ht_map_add [of es es' p key v "mset (cells es') - {#(p, key, v)#}"])
    (auto simp: cell_set_def slots_ok_def)

lemma ht_set_entry_moves:
  assumes "slots_ok es" "unat cap = length es" "length (cells es) < length es"
    and "k \<notin> fst ` snd ` set (cells es)"
  shows "returns (ht_set_entry m es cap (p, k) v None e) (\<lambda>(r, es', l, e').
    r = Some (p, k) \<and> l = None \<and> e' = e \<and> slots_ok es' \<and> length es' = length es \<and>
    mset (cells es') = add_mset (p, k, v) (mset (cells es)))"
proof -
  obtain index where index: "ht_probe es cap k (hash_key k AND (cap - 1)) = Some index"
    "probe_stop es k (unat index)"
    using ht_probe_spec [OF assms(1-3), of k] by (elim returnsE)
  then have j: "unat index < length es" and none: "slot_key es (unat index) = None"
    using assms(4) by (auto simp: probe_stop_def key_iff)
  then have "entry_key (es ! unat index) = None" by (simp add: slot_key_def)
  moreover note fill_slot [OF assms(1) index(2) none, of "(es ! unat index)\<lparr>entry_key := Some (p, k), entry_value := v\<rparr>" p]
  ultimately show ?thesis
    using index(1) j by (simp add: ht_set_entry_def Let_def buf_get_in buf_set_in)
qed

lemma ht_set_entry_spec:
  assumes "slots_ok es" "unat cap = length es" "length (cells es) < length es"
  shows "returns (ht_set_entry m es cap (q, key) v (Some l) e) (\<lambda>(r, es', l', e'). case r of
      None \<Rightarrow> key \<notin> fst ` snd ` set (cells es) \<and> es' = es \<and> l' = Some l \<and> strdup m key e = (None, e')
    | Some (p, k) \<Rightarrow> k = key \<and> cell_set p key v es es' \<and>
        (if key \<in> fst ` snd ` set (cells es) then l' = Some l \<and> e' = e
         else l' = Some (l + 1) \<and> strdup m key e = (Some p, e')))"
proof -
  obtain index where index: "ht_probe es cap key (hash_key key AND (cap - 1)) = Some index"
    "probe_stop es key (unat index)"
    using ht_probe_spec [OF assms, of key] by (elim returnsE)
  then have j: "unat index < length es" by (simp add: probe_stop_def)
  show ?thesis
  proof (cases "slot_key es (unat index)")
    case None
    then have free: "entry_key (es ! unat index) = None" "key \<notin> fst ` snd ` set (cells es)"
      using index(2) by (auto simp: slot_key_def probe_stop_def)
    obtain p e' where p: "strdup m key e = (p, e')" by fastforce
    have "cell_set a key v es (es[unat index := (es ! unat index)\<lparr>entry_key := Some (a, key), entry_value := v\<rparr>])" for a
      using fill_slot [OF assms(1) index(2) None, of "(es ! unat index)\<lparr>entry_key := Some (a, key), entry_value := v\<rparr>" a]
        free by (simp add: cell_set_def)
    then show ?thesis
      using index(1) j free p by (cases p) (simp_all add: ht_set_entry_def Let_def buf_get_in buf_set_in)
  next
    case (Some k)
    then have slot: "slot_key es (unat index) = Some key" using index(2) by (simp add: probe_stop_def)
    then obtain p where p: "entry_key (es ! unat index) = Some (p, key)" by (auto simp: slot_key_def)
    have "cell_set p key v es (es[unat index := (es ! unat index)\<lparr>entry_value := v\<rparr>])"
      using update_slot [OF assms(1) j p, of v] by (auto simp: cell_set_def)
    moreover have "key \<in> fst ` snd ` set (cells es)" using slot j key_iff by blast
    ultimately show ?thesis
      using index(1) j p by (simp add: ht_set_entry_def Let_def buf_get_in buf_set_in)
  qed
qed

text \<open>A table between two operations: at most half of its slots are filled, no value is NULL.\<close>

definition ht_ok :: "ht \<Rightarrow> bool" where
  "ht_ok t \<longleftrightarrow> slots_ok (entries t) \<and> unat (capacity t) = length (entries t) \<and>
     unat (ht_count t) = length (cells (entries t)) \<and> 2 * length (cells (entries t)) \<le> length (entries t) \<and>
     (\<forall>(p, k, v)\<in>set (cells (entries t)). v \<noteq> 0)"

lemma slots_ok_empty: "1 \<le> k \<Longrightarrow> k < 64 \<Longrightarrow> slots_ok (replicate (2 ^ k) empty_entry)"
  by (auto simp: slots_ok_def slot_key_def empty_entry_def [symmetric]) (simp add: empty_entry_def)

lemma ht_expand_loop_spec:
  assumes "i + n = length es" "distinct (map (fst \<circ> snd) (cells es))"
    and "slots_ok new" "unat cap = length new" "mset (cells new) = mset (cells (take i es))"
    and "length (cells es) < length new"
  shows "returns (ht_expand_loop m es cap n i new e) (\<lambda>(new', e'). e' = e \<and> slots_ok new' \<and>
    length new' = length new \<and> mset (cells new') = mset (cells es))"
  using assms
proof (induction n arbitrary: i new)
  case (Suc n)
  have i: "i < length es" using Suc.prems by simp
  have split: "cells (take (Suc i) es) = cells (take i es) @ cells [es ! i]"
    using i cells_append [of "take i es" "[es ! i]"] by (simp add: take_Suc_conv_app_nth)
  show ?case
  proof (cases "entry_key (es ! i)")
    case None
    then show ?thesis
      using Suc.IH [of "Suc i" new] Suc.prems i split by (simp add: buf_get_in)
  next
    case (Some pk)
    obtain p k where pk: "pk = (p, k)" by fastforce
    have "k \<notin> fst ` snd ` set (cells (take i es))"
      using Suc.prems(2) Some pk cells_split(1) [OF i] by (simp add: image_comp)
    moreover have len: "length (cells new) < length new"
    proof -
      have "length (cells new) = length (cells (take i es))" by (metis Suc.prems(5) size_mset)
      then show ?thesis using Suc.prems(6) cells_split(1) [OF i] by simp
    qed
    ultimately have "returns (ht_set_entry m new cap (p, k) (entry_value (es ! i)) None e) (\<lambda>(r, es', l, e').
      r = Some (p, k) \<and> l = None \<and> e' = e \<and> slots_ok es' \<and> length es' = length new \<and>
      mset (cells es') = add_mset (p, k, entry_value (es ! i)) (mset (cells new)))"
      using Suc.prems by (intro ht_set_entry_moves) (metis set_mset_mset)+
    then obtain new' where new': "ht_set_entry m new cap (p, k) (entry_value (es ! i)) None e = Some (Some (p, k), new', None, e)"
      "slots_ok new'" "length new' = length new"
      "mset (cells new') = add_mset (p, k, entry_value (es ! i)) (mset (cells new))"
      by (auto elim: returnsE)
    then show ?thesis
      using Suc.IH [of "Suc i" new'] Suc.prems i split Some pk by (simp add: buf_get_in)
  qed
qed simp

lemma ht_expand_spec:
  assumes ok: "ht_ok t"
  shows "returns (ht_expand m t e) (\<lambda>(success, t', e'). if success
    then \<exists>q e1. calloc m (capacity t * 2) 16 e = (Some q, e1) \<and> e' = free m (entries_block t) e1 \<and>
      entries_block t' = q \<and> ht_block t' = ht_block t \<and> ht_count t' = ht_count t \<and> ht_ok t' \<and>
      length (entries t') = 2 * length (entries t) \<and> mset (cells (entries t')) = mset (cells (entries t))
    else t' = t \<and> (e' = e \<or> calloc m (capacity t * 2) 16 e = (None, e')))"
proof (cases "capacity t * 2 < capacity t")
  case True
  then show ?thesis by (simp add: ht_expand_def)
next
  case False
  let ?es = "entries t"
  have es: "slots_ok ?es" "unat (capacity t) = length ?es" using ok by (simp_all add: ht_ok_def)
  from slots_okD(1) [OF es(1)] obtain k where k: "1 \<le> k" "k < 64" "length ?es = 2 ^ k" by blast
  have "k \<noteq> 63"
  proof
    assume "k = 63"
    then have "unat (capacity t) = 2 ^ 63" using es k by simp
    then have "capacity t = 2 ^ 63" by (simp add: unat_eq_of_nat)
    then show False using False by simp
  qed
  then have k': "Suc k < 64" using k by simp
  then have "(2 :: nat) ^ Suc k < 2 ^ 64" by (intro power_strict_increasing) simp_all
  then have cap: "unat (capacity t * 2) = 2 ^ Suc k"
    using es k by (simp add: unat_word_ariths)
  obtain r e1 where r: "calloc m (capacity t * 2) 16 e = (r, e1)" by fastforce
  show ?thesis
  proof (cases r)
    case None
    then show ?thesis using False r by (simp add: ht_expand_def)
  next
    case (Some q)
    have "length (cells ?es) < 2 ^ Suc k" using length_cells [of ?es] k by (simp add: less_le_trans [of _ "2 * 2 ^ k"] le_less_trans)
    then have "returns (ht_expand_loop m ?es (capacity t * 2) (2 ^ k) 0 (replicate (2 ^ Suc k) empty_entry) e1)
      (\<lambda>(new', e'). e' = e1 \<and> slots_ok new' \<and> length new' = length (replicate (2 ^ Suc k) empty_entry) \<and>
         mset (cells new') = mset (cells ?es))"
      using k k' cap slots_okD(2) [OF es(1)] slots_ok_empty [of "Suc k"] by (intro ht_expand_loop_spec) simp_all
    then obtain new where new: "ht_expand_loop m ?es (capacity t * 2) (2 ^ k) 0 (replicate (2 ^ Suc k) empty_entry) e1 = Some (new, e1)"
      "slots_ok new" "length new = 2 ^ Suc k" "mset (cells new) = mset (cells ?es)"
      by (auto elim: returnsE)
    have "length (cells new) = length (cells ?es)" "set (cells new) = set (cells ?es)"
      using new(4) by (metis size_mset, metis set_mset_mset)
    then show ?thesis
      using False r Some new cap k es ok by (simp add: ht_expand_def Let_def ht_ok_def)
  qed
qed

lemma ht_get_spec:
  assumes ok: "ht_ok t"
  shows "ht_get t key = Some (case ht_map (entries t) key of None \<Rightarrow> 0 | Some v \<Rightarrow> v)"
proof -
  let ?es = "entries t"
  have es: "slots_ok ?es" "unat (capacity t) = length ?es" "length (cells ?es) < length ?es"
    using ok slots_okD(3) [of ?es] by (auto simp: ht_ok_def)
  obtain index where index: "ht_probe ?es (capacity t) key (hash_key key AND (capacity t - 1)) = Some index"
    "probe_stop ?es key (unat index)"
    using ht_probe_spec [OF es, of key] by (elim returnsE)
  then have j: "unat index < length ?es" by (simp add: probe_stop_def)
  show ?thesis
  proof (cases "entry_key (?es ! unat index)")
    case None
    then have "ht_map ?es key = None"
      using index(2) by (auto simp: probe_stop_def slot_key_def ht_map_None)
    then show ?thesis using index(1) j None by (simp add: ht_get_def Let_def buf_get_in)
  next
    case (Some pk)
    then have "snd pk = key" using index(2) by (auto simp: probe_stop_def slot_key_def)
    then have "ht_map ?es key = Some (entry_value (?es ! unat index))"
      using Some j ht_map_iff [OF slots_okD(2) [OF es(1)]] by (cases pk) (auto simp: cell_iff)
    then show ?thesis using index(1) j Some by (simp add: ht_get_def Let_def buf_get_in)
  qed
qed

lemma cell_set_size:
  assumes "cell_set p key v es es'"
  shows "length (cells es') = (if key \<in> fst ` snd ` set (cells es) then length (cells es) else Suc (length (cells es)))"
    "set (cells es') \<subseteq> insert (p, key, v) (set (cells es))"
proof -
  consider (new) "key \<notin> fst ` snd ` set (cells es)" "mset (cells es') = add_mset (p, key, v) (mset (cells es))"
    | (old) M v' where "mset (cells es) = add_mset (p, key, v') M" "mset (cells es') = add_mset (p, key, v) M"
    using assms by (auto simp: cell_set_def)
  then have "length (cells es') = (if key \<in> fst ` snd ` set (cells es) then length (cells es) else Suc (length (cells es))) \<and>
    set (cells es') \<subseteq> insert (p, key, v) (set (cells es))"
  proof cases
    case new
    then have "length (cells es') = Suc (length (cells es))" "set (cells es') = insert (p, key, v) (set (cells es))"
      by (metis size_mset size_add_mset, metis set_mset_mset set_mset_add_mset_insert)
    then show ?thesis using new by simp
  next
    case old
    then have "length (cells es) = Suc (size M)" "length (cells es') = Suc (size M)"
      "set (cells es) = insert (p, key, v') (set_mset M)" "set (cells es') = insert (p, key, v) (set_mset M)"
      by (metis size_mset size_add_mset, metis size_mset size_add_mset,
          metis set_mset_mset set_mset_add_mset_insert, metis set_mset_mset set_mset_add_mset_insert)
    then show ?thesis by auto
  qed
  then show "length (cells es') = (if key \<in> fst ` snd ` set (cells es) then length (cells es) else Suc (length (cells es)))"
    "set (cells es') \<subseteq> insert (p, key, v) (set (cells es))" by auto
qed

lemma map_of_mset:
  assumes "mset (cells es') = mset (cells es)" "slots_ok es" "slots_ok es'"
  shows "ht_map es' = ht_map es"
proof
  fix k
  have "set (cells es') = set (cells es)" by (metis assms(1) set_mset_mset)
  then have "ht_map es' k = Some w \<longleftrightarrow> ht_map es k = Some w" for w
    using assms by (simp add: ht_map_iff slots_okD(2))
  then show "ht_map es' k = ht_map es k" by (metis not_None_eq)
qed

text \<open>A table that has room for one more key, as \<open>ht_set\<close> makes it before it calls \<open>ht_set_entry\<close>.\<close>

definition ht_roomy :: "ht \<Rightarrow> bool" where
  "ht_roomy t \<longleftrightarrow> ht_ok t \<and> 2 * length (cells (entries t)) < length (entries t)"

lemma ht_set_entry_table:
  assumes roomy: "ht_roomy t" and v: "v \<noteq> 0"
  shows "returns (ht_set_entry m (entries t) (capacity t) (q, key) v (Some (ht_count t)) e) (\<lambda>(r, es, l, e').
    l \<noteq> None \<and> (let t' = t\<lparr>entries := es, ht_count := the l\<rparr> in ht_ok t' \<and> (case r of
      None \<Rightarrow> t' = t \<and> strdup m key e = (None, e')
    | Some (p, k) \<Rightarrow> k = key \<and> cell_set p key v (entries t) es \<and>
        (if key \<in> fst ` snd ` set (cells (entries t)) then e' = e else strdup m key e = (Some p, e')))))"
proof -
  let ?es = "entries t"
  have ok: "ht_ok t" and half: "2 * length (cells ?es) < length ?es" using roomy by (simp_all add: ht_roomy_def)
  then have es: "slots_ok ?es" "unat (capacity t) = length ?es" "length (cells ?es) < length ?es"
    "unat (ht_count t) = length (cells ?es)" "\<forall>(p, k, v)\<in>set (cells ?es). v \<noteq> 0"
    by (auto simp: ht_ok_def)
  have len: "unat (ht_count t + 1) = Suc (length (cells ?es))"
    using es unsigned_less [of "capacity t", where ?'a = nat] by (subst unat_plus_one) simp_all
  from slots_okD(1) [OF es(1)] obtain k where "1 \<le> k" "length ?es = 2 ^ k" by blast
  then have "even (length ?es)" by simp
  then have room: "2 * Suc (length (cells ?es)) \<le> length ?es" using half by (elim evenE) simp
  show ?thesis
  proof (rule returns_mono [OF ht_set_entry_spec [OF es(1-3), of m q key v "ht_count t" e]], clarify)
    fix r es' l' e'
    assume *: "case r of
      None \<Rightarrow> key \<notin> fst ` snd ` set (cells ?es) \<and> es' = ?es \<and> l' = Some (ht_count t) \<and> strdup m key e = (None, e')
    | Some (p, k) \<Rightarrow> k = key \<and> cell_set p key v ?es es' \<and>
        (if key \<in> fst ` snd ` set (cells ?es) then l' = Some (ht_count t) \<and> e' = e
         else l' = Some (ht_count t + 1) \<and> strdup m key e = (Some p, e'))"
    show "l' \<noteq> None \<and> (let t' = t\<lparr>entries := es', ht_count := the l'\<rparr> in ht_ok t' \<and> (case r of
        None \<Rightarrow> t' = t \<and> strdup m key e = (None, e')
      | Some (p, k) \<Rightarrow> k = key \<and> cell_set p key v ?es es' \<and>
          (if key \<in> fst ` snd ` set (cells ?es) then e' = e else strdup m key e = (Some p, e'))))"
    proof (cases r)
      case None
      then show ?thesis using * ok by simp
    next
      case (Some pk)
      obtain p where pk: "pk = (p, key)" using * Some by (cases pk) simp
      have set: "cell_set p key v ?es es'" using * Some pk by simp
      then have "slots_ok es'" "length es' = length ?es" by (simp_all add: cell_set_def)
      then have "ht_ok (t\<lparr>entries := es', ht_count := the l'\<rparr>)"
        using * Some pk cell_set_size [OF set] es len room v half by (auto simp: ht_ok_def split: if_splits)
      then show ?thesis using * Some pk by (auto split: if_splits)
    qed
  qed
qed

lemma ht_set_rule:
  assumes ok: "ht_ok t" and v: "v \<noteq> 0"
    and fail: "\<And>e'. ht_expand m t e = Some (False, t, e') \<Longrightarrow> Q (None, t, e')"
    and step: "\<And>t1 e1. ht_roomy t1 \<Longrightarrow> t1 = t \<and> e1 = e \<or> ht_expand m t e = Some (True, t1, e1) \<Longrightarrow>
      returns (ht_set_entry m (entries t1) (capacity t1) (0, key) v (Some (ht_count t1)) e1)
        (\<lambda>(k, es, l, e). l \<noteq> None \<and> Q (k, t1\<lparr>entries := es, ht_count := the l\<rparr>, e))"
  shows "returns (ht_set m t key v e) Q"
proof -
  have half: "unat (capacity t div 2) = length (entries t) div 2" "unat (ht_count t) = length (cells (entries t))"
    using ok by (simp_all add: ht_ok_def unat_div)
  have finish: "returns (ht_set_entry m (entries t1) (capacity t1) (0, key) v (Some (ht_count t1)) e1)
     (\<lambda>r. returns (case r of (k, es, l, e) \<Rightarrow> do { l \<leftarrow> l; Some (k, t1\<lparr>entries := es, ht_count := l\<rparr>, e) }) Q)"
    if "ht_roomy t1" "t1 = t \<and> e1 = e \<or> ht_expand m t e = Some (True, t1, e1)" for t1 e1
    by (rule returns_mono [OF step [OF that]]) auto
  show ?thesis
  proof (cases "ht_count t \<ge> capacity t div 2")
    case True
    obtain success t1 e1 where x: "ht_expand m t e = Some (success, t1, e1)"
      "if success then ht_ok t1 \<and> length (entries t1) = 2 * length (entries t) \<and>
         mset (cells (entries t1)) = mset (cells (entries t)) else t1 = t"
      using ht_expand_spec [OF ok, of m e] by (auto elim!: returnsE split: if_splits)
    show ?thesis
    proof (cases success)
      case False
      then show ?thesis using True x v fail by (simp add: ht_set_def)
    next
      case success: True
      have "ht_roomy t1"
        using x success ok slots_okD(3) [of "entries t"]
        by (auto simp: ht_roomy_def ht_ok_def dest: mset_eq_length)
      then show ?thesis
        using True x success v finish [of t1 e1] by (simp add: ht_set_def split_def)
    qed
  next
    case False
    then have "length (cells (entries t)) < length (entries t) div 2"
      using half by (simp add: word_le_nat_alt not_le)
    then have "ht_roomy t" using ok by (simp add: ht_roomy_def)
    then show ?thesis
      using False v finish [of t e] by (simp add: ht_set_def split_def)
  qed
qed

lemma ht_set_spec:
  assumes ok: "ht_ok t" and v: "v \<noteq> 0"
  shows "returns (ht_set m t key v e) (\<lambda>(r, t', e'). ht_ok t' \<and> (case r of
      None \<Rightarrow> ht_map (entries t') = ht_map (entries t) \<and>
        (2 ^ 63 \<le> capacity t \<or> (\<exists>e. fst (calloc m (capacity t * 2) 16 e) = None) \<or> (\<exists>e. fst (strdup m key e) = None))
    | Some (p, k) \<Rightarrow> k = key \<and> ht_map (entries t') = (ht_map (entries t))(key \<mapsto> v)))"
proof (rule ht_set_rule [OF ok v])
  fix e' assume x: "ht_expand m t e = Some (False, t, e')"
  have "capacity t * 2 < capacity t \<Longrightarrow> 2 ^ 63 \<le> capacity t"
    by (rule ccontr) (simp add: word_less_nat_alt word_le_nat_alt unat_word_ariths not_le)
  moreover have "\<exists>e. fst (calloc m (capacity t * 2) 16 e) = None" if "\<not> capacity t * 2 < capacity t"
  proof (rule ccontr)
    assume "\<not> ?thesis"
    then obtain q e1 where "calloc m (capacity t * 2) 16 e = (Some q, e1)" by (metis fst_conv not_None_eq surj_pair)
    then show False using x that by (auto simp: ht_expand_def Let_def split: bind_splits)
  qed
  ultimately show "case (None, t, e') of (r, t', e') \<Rightarrow> ht_ok t' \<and> (case r of
      None \<Rightarrow> ht_map (entries t') = ht_map (entries t) \<and>
        (2 ^ 63 \<le> capacity t \<or> (\<exists>e. fst (calloc m (capacity t * 2) 16 e) = None) \<or> (\<exists>e. fst (strdup m key e) = None))
    | Some (p, k) \<Rightarrow> k = key \<and> ht_map (entries t') = (ht_map (entries t))(key \<mapsto> v))"
    using ok by auto
next
  fix t1 e1 assume t1: "ht_roomy t1" "t1 = t \<and> e1 = e \<or> ht_expand m t e = Some (True, t1, e1)"
  have ok1: "ht_ok t1" "slots_ok (entries t1)" using t1 by (simp_all add: ht_roomy_def ht_ok_def)
  have "mset (cells (entries t1)) = mset (cells (entries t))"
    using t1(2) ht_expand_spec [OF ok, of m e] by auto
  then have same: "ht_map (entries t1) = ht_map (entries t)"
    by (rule map_of_mset) (use ok ok1 in \<open>simp_all add: ht_ok_def\<close>)
  show "returns (ht_set_entry m (entries t1) (capacity t1) (0, key) v (Some (ht_count t1)) e1)
    (\<lambda>(k, es, l, e). l \<noteq> None \<and> (case (k, t1\<lparr>entries := es, ht_count := the l\<rparr>, e) of (r, t', e') \<Rightarrow> ht_ok t' \<and> (case r of
      None \<Rightarrow> ht_map (entries t') = ht_map (entries t) \<and>
        (2 ^ 63 \<le> capacity t \<or> (\<exists>e. fst (calloc m (capacity t * 2) 16 e) = None) \<or> (\<exists>e. fst (strdup m key e) = None))
    | Some (p, k) \<Rightarrow> k = key \<and> ht_map (entries t') = (ht_map (entries t))(key \<mapsto> v))))"
  proof (rule returns_mono4 [OF ht_set_entry_table [OF t1(1) v, of m 0 key e1]], unfold prod.case)
    fix r es l e'
    let ?t' = "t1\<lparr>entries := es, ht_count := the l\<rparr>"
    assume *: "l \<noteq> None \<and> (let t' = ?t' in ht_ok t' \<and> (case r of
        None \<Rightarrow> t' = t1 \<and> strdup m key e1 = (None, e')
      | Some (p, k) \<Rightarrow> k = key \<and> cell_set p key v (entries t1) es \<and>
          (if key \<in> fst ` snd ` set (cells (entries t1)) then e' = e1 else strdup m key e1 = (Some p, e'))))"
    show "l \<noteq> None \<and> ht_ok ?t' \<and> (case r of
      None \<Rightarrow> ht_map (entries ?t') = ht_map (entries t) \<and>
        (2 ^ 63 \<le> capacity t \<or> (\<exists>e. fst (calloc m (capacity t * 2) 16 e) = None) \<or> (\<exists>e. fst (strdup m key e) = None))
    | Some (p, k) \<Rightarrow> k = key \<and> ht_map (entries ?t') = (ht_map (entries t))(key \<mapsto> v))"
    proof (cases r)
      case None
      with * have "ht_ok ?t'" "es = entries t1" "l \<noteq> None"
        by (auto simp: Let_def dest: arg_cong [of _ _ entries])
      moreover have "\<exists>e. fst (strdup m key e) = None"
        using * None by (intro exI [of _ e1]) (auto simp: Let_def)
      ultimately show ?thesis using None same by simp
    next
      case (Some pk)
      then show ?thesis using * same cell_set_map [OF ok1(2), of "fst pk" key v es] by (simp add: Let_def split_def)
    qed
  qed
qed

lemma ht_create_spec:
  assumes "ht_create m e = (Some t, e')"
  shows "ht_ok t" "entries t = replicate 16 empty_entry" "capacity t = 16" "ht_count t = 0"
proof -
  have cap: "unat INITIAL_CAPACITY = 16" by (simp add: INITIAL_CAPACITY_def)
  show t: "entries t = replicate 16 empty_entry" "capacity t = 16" "ht_count t = 0"
    using assms unfolding ht_create_def cap by (auto simp: INITIAL_CAPACITY_def split: option.splits prod.splits)
  show "ht_ok t"
    using slots_ok_empty [of 4] by (simp add: ht_ok_def t del: replicate.simps)
qed

section \<open>The iteration shows every cell\<close>

lemma ht_collect_cells:
  assumes "unat (capacity t) = length (entries t)" "unat (hti_index it) \<le> length (entries t)"
  shows "ht_collect t it acc = Some (acc @ map snd (cells (drop (unat (hti_index it)) (entries t))))"
  using assms(2)
proof (induction "length (entries t) - unat (hti_index it)" arbitrary: it acc)
  case 0
  then have "\<not> hti_index it < capacity t" using assms(1) by (simp add: word_less_nat_alt)
  then show ?case
    using 0 by (subst ht_collect.simps, subst ht_next.simps) simp
next
  case (Suc n)
  let ?i = "hti_index it"
  have lt: "unat ?i < length (entries t)" "?i < capacity t"
    using Suc.hyps(2) assms(1) by (simp_all add: word_less_nat_alt)
  then have next_index: "unat (?i + 1) = Suc (unat ?i)"
    by (simp add: unat_less_Suc_simp)
  have drop: "drop (unat ?i) (entries t) = entries t ! unat ?i # drop (Suc (unat ?i)) (entries t)"
    using lt by (simp add: Cons_nth_drop_Suc)
  show ?case
  proof (cases "entry_key (entries t ! unat ?i)")
    case None
    then have "ht_collect t it acc = ht_collect t (it\<lparr>hti_index := ?i + 1\<rparr>) acc"
      using lt by (subst (1 2) ht_collect.simps, subst ht_next.simps) (simp add: buf_get_in Let_def)
    then show ?thesis
      using Suc.hyps(1) [of "it\<lparr>hti_index := ?i + 1\<rparr>" acc] Suc.hyps(2) lt next_index drop None by simp
  next
    case (Some pk)
    let ?it = "it\<lparr>hti_index := ?i + 1, hti_key := Some pk, hti_value := entry_value (entries t ! unat ?i)\<rparr>"
    have "ht_collect t it acc = ht_collect t ?it (acc @ [(snd pk, entry_value (entries t ! unat ?i))])"
      using lt Some by (subst ht_collect.simps, subst ht_next.simps) (simp add: buf_get_in Let_def)
    then show ?thesis
      using Suc.hyps(1) [of ?it] Suc.hyps(2) lt next_index drop Some by (cases pk) simp
  qed
qed

lemma ht_iteration:
  assumes "ht_ok t"
  shows "ht_collect t (ht_iterator it) [] = Some (map snd (cells (entries t)))"
  using ht_collect_cells [of t "ht_iterator it" "[]"] assms by (simp add: ht_ok_def ht_iterator_def)

section \<open>The dictionary interface\<close>

text \<open>
  What a user of the table relies on.  \<open>lookup\<close> gives NULL for an unknown key, \<open>store\<close> NULL when
  memory is exhausted, and then the table is as before.
\<close>

fun store_all ::
  "('t \<Rightarrow> cstring \<Rightarrow> address \<Rightarrow> 'e \<Rightarrow> ((address \<times> cstring) option \<times> 't \<times> 'e) option) \<Rightarrow>
     (cstring \<times> address) list \<Rightarrow> 't \<Rightarrow> 'e \<Rightarrow> (bool \<times> 't \<times> 'e) option" where
  "store_all store [] t e = Some (True, t, e)"
| "store_all store ((k, v) # kvs) t e = do {
     (r, t, e) \<leftarrow> store t k v e;
     if r = None then Some (False, t, e) else store_all store kvs t e
   }"

locale dictionary =
  fixes valid :: "'t \<Rightarrow> bool" and content :: "'t \<Rightarrow> cstring \<Rightarrow> address option"
    and lookup :: "'t \<Rightarrow> cstring \<Rightarrow> address option"
    and store :: "'t \<Rightarrow> cstring \<Rightarrow> address \<Rightarrow> 'e \<Rightarrow> ((address \<times> cstring) option \<times> 't \<times> 'e) option"
  assumes lookup_law: "valid t \<Longrightarrow> lookup t key = Some (case content t key of None \<Rightarrow> 0 | Some v \<Rightarrow> v)"
    and store_law: "valid t \<Longrightarrow> v \<noteq> 0 \<Longrightarrow> returns (store t key v e) (\<lambda>(r, t', e'). valid t' \<and> (case r of
      None \<Rightarrow> content t' = content t | Some (p, k) \<Rightarrow> k = key \<and> content t' = (content t)(key \<mapsto> v)))"
begin

text \<open>A history of stores, up to the first that fails.\<close>

lemma lookup_after_history:
  assumes "valid t" "\<forall>(k, v)\<in>set kvs. v \<noteq> 0"
  shows "returns (store_all store kvs t e) (\<lambda>(success, t', e'). valid t' \<and>
    (success \<longrightarrow> (\<forall>k. lookup t' k = (case map_of (rev kvs) k of None \<Rightarrow> lookup t k | Some v \<Rightarrow> Some v))))"
  using assms
proof (induction kvs arbitrary: t e)
  case (Cons kv kvs)
  obtain k v where kv: "kv = (k, v)" by fastforce
  have "returns (store t k v e) (\<lambda>(r, t', e'). valid t' \<and> (case r of
      None \<Rightarrow> content t' = content t | Some (p, k') \<Rightarrow> k' = k \<and> content t' = (content t)(k \<mapsto> v)))"
    using Cons.prems kv by (intro store_law) auto
  then obtain r t1 e1 where r: "store t k v e = Some (r, t1, e1)" "valid t1"
    "r \<noteq> None \<Longrightarrow> content t1 = (content t)(k \<mapsto> v)"
    by (auto elim!: returnsE split: option.splits)
  show ?case
  proof (cases "r = None")
    case True
    then show ?thesis using r kv by simp
  next
    case False
    then have "lookup t1 ka = (if ka = k then Some v else lookup t ka)" for ka
      using r(2,3) Cons.prems(1) by (auto simp: lookup_law split: option.splits)
    then have "(case map_of (rev (kv # kvs)) ka of None \<Rightarrow> lookup t ka | Some v \<Rightarrow> Some v) =
        (case map_of (rev kvs) ka of None \<Rightarrow> lookup t1 ka | Some v \<Rightarrow> Some v)" for ka
      by (auto simp: kv map_add_def split: option.splits)
    then show ?thesis
      using False r kv Cons.IH [OF r(2), of e1] Cons.prems(2) by simp
  qed
qed simp

lemma lookup_returns: "valid t \<Longrightarrow> \<exists>v. lookup t key = Some v"
  by (simp add: lookup_law)

text \<open>The laws without the abstract content.\<close>

lemma lookup_after_store:
  assumes "valid t" "v \<noteq> 0"
  shows "\<exists>f. (\<forall>k. lookup t k = Some (f k)) \<and> returns (store t key v e) (\<lambda>(r, t', e'). valid t' \<and> (case r of
      None \<Rightarrow> (\<forall>k. lookup t' k = Some (f k))
    | Some (p, k) \<Rightarrow> k = key \<and> (\<forall>k'. lookup t' k' = Some (if k' = key then v else f k'))))"
proof (intro exI conjI allI)
  show "lookup t k = Some (case content t k of None \<Rightarrow> 0 | Some v \<Rightarrow> v)" for k by (rule lookup_law [OF assms(1)])
  show "returns (store t key v e) (\<lambda>(r, t', e'). valid t' \<and> (case r of
      None \<Rightarrow> (\<forall>k. lookup t' k = Some (case content t k of None \<Rightarrow> 0 | Some v \<Rightarrow> v))
    | Some (p, k) \<Rightarrow> k = key \<and>
        (\<forall>k'. lookup t' k' = Some (if k' = key then v else case content t k' of None \<Rightarrow> 0 | Some v \<Rightarrow> v))))"
    by (rule returns_mono [OF store_law [OF assms]]) (auto simp: lookup_law split: option.splits)
qed

end

interpretation ht: dictionary ht_ok "\<lambda>t. ht_map (entries t)" ht_get "ht_set m" for m
proof
  fix t v key e assume "ht_ok t" "v \<noteq> (0 :: address)"
  then show "returns (ht_set m t key v e) (\<lambda>(r, t', e'). ht_ok t' \<and> (case r of
      None \<Rightarrow> ht_map (entries t') = ht_map (entries t)
    | Some (p, k) \<Rightarrow> k = key \<and> ht_map (entries t') = (ht_map (entries t))(key \<mapsto> v)))"
    by (rule returns_mono [OF ht_set_spec]) (auto split: option.splits)
qed (rule ht_get_spec)

end
