(* ===== verification/Hash_Heap.thy ===== *)
theory Hash_Heap
  imports Hash_Table
begin

text \<open>
  The hash table and its memory: with an allocator that keeps a set of live blocks, a table owns
  its two blocks and the copies of its keys, every operation keeps this, and \<open>ht_destroy\<close> frees
  exactly these.  A first-fit allocator of limited size shows that the laws can hold.
\<close>

section \<open>Allocators\<close>

definition allocated :: "('e \<Rightarrow> address set) \<Rightarrow> address option \<Rightarrow> 'e \<Rightarrow> 'e \<Rightarrow> bool" where
  "allocated blocks r e e' \<longleftrightarrow> (case r of
     None \<Rightarrow> blocks e' = blocks e
   | Some p \<Rightarrow> p \<noteq> 0 \<and> p \<notin> blocks e \<and> blocks e' = insert p (blocks e))"

text \<open>Nothing is assumed of \<open>free\<close> for an address that is not live.\<close>

locale c_heap =
  fixes m :: "'e libc" and blocks :: "'e \<Rightarrow> address set"
  assumes malloc_law: "malloc m n e = (r, e') \<Longrightarrow> allocated blocks r e e'"
    and calloc_law: "calloc m n sz e = (r, e') \<Longrightarrow> allocated blocks r e e'"
    and strdup_law: "strdup m str e = (r, e') \<Longrightarrow> allocated blocks r e e'"
    and free_law: "p \<in> blocks e \<Longrightarrow> blocks (free m p e) = blocks e - {p}"

text \<open>The blocks of a table, and a heap that consists of them and of other blocks \<open>B\<close>.\<close>

definition owned :: "ht \<Rightarrow> address list" where
  "owned t = ht_block t # entries_block t # map fst (cells (entries t))"

definition owns :: "('e \<Rightarrow> address set) \<Rightarrow> address set \<Rightarrow> ht \<Rightarrow> 'e \<Rightarrow> bool" where
  "owns blocks B t e \<longleftrightarrow> distinct (owned t) \<and> set (owned t) \<inter> B = {} \<and> blocks e = B \<union> set (owned t)"

text \<open>Ownership in terms of the multiset of owned blocks.\<close>

lemma owns_mset:
  assumes "mset (owned t') = mset (owned t)" "blocks e' = blocks e"
  shows "owns blocks B t' e' = owns blocks B t e"
  using mset_eq_setD [OF assms(1)] mset_eq_imp_distinct_iff [OF assms(1)] assms(2) by (simp add: owns_def)

lemma owns_new:
  assumes "owns blocks B t e" "allocated blocks (Some p) e e'" "mset (owned t') = add_mset p (mset (owned t))"
  shows "owns blocks B t' e'"
proof -
  have "mset (owned t') = mset (p # owned t)" using assms(3) by simp
  from mset_eq_setD [OF this] mset_eq_imp_distinct_iff [OF this] show ?thesis
    using assms(1,2) by (auto simp: owns_def allocated_def)
qed

context c_heap
begin

lemma create_owns:
  "case ht_create m e of (None, e') \<Rightarrow> blocks e' = blocks e | (Some t, e') \<Rightarrow> owns blocks (blocks e) t e'"
proof -
  obtain r e1 where r: "malloc m 24 e = (r, e1)" by fastforce
  note a1 = malloc_law [OF r]
  show ?thesis
  proof (cases r)
    case None
    then show ?thesis using r a1 by (simp add: ht_create_def allocated_def)
  next
    case (Some p)
    obtain r' e2 where r': "calloc m INITIAL_CAPACITY 16 e1 = (r', e2)" by fastforce
    note a2 = calloc_law [OF r']
    show ?thesis
    proof (cases r')
      case None
      then have "blocks (free m p e2) = blocks e"
        using a1 a2 Some by (simp add: allocated_def free_law)
      then show ?thesis using r r' Some None by (simp add: ht_create_def)
    next
      case q: (Some q)
      then show ?thesis
        using r r' Some a1 a2 by (auto simp: ht_create_def owns_def owned_def allocated_def simp del: replicate.simps)
    qed
  qed
qed

lemma expand_owns:
  assumes "ht_ok t" "owns blocks B t e" "ht_expand m t e = Some (s, t', e')"
  shows "owns blocks B t' e'"
proof -
  have spec: "if s
    then \<exists>q e1. calloc m (capacity t * 2) 16 e = (Some q, e1) \<and> e' = free m (entries_block t) e1 \<and>
      entries_block t' = q \<and> ht_block t' = ht_block t \<and> ht_count t' = ht_count t \<and> ht_ok t' \<and>
      length (entries t') = 2 * length (entries t) \<and> mset (cells (entries t')) = mset (cells (entries t))
    else t' = t \<and> (e' = e \<or> calloc m (capacity t * 2) 16 e = (None, e'))"
    using ht_expand_spec [OF assms(1), of m e] assms(3) by simp
  show ?thesis
  proof (cases s)
    case False
    then show ?thesis
      using spec assms(2) calloc_law [of "capacity t * 2" 16 e None e'] by (auto simp: allocated_def owns_def)
  next
    case True
    then obtain q e1 where q: "calloc m (capacity t * 2) 16 e = (Some q, e1)" "e' = free m (entries_block t) e1"
      "entries_block t' = q" "ht_block t' = ht_block t" "mset (cells (entries t')) = mset (cells (entries t))"
      using spec by auto
    have live: "blocks e' = insert q (blocks e) - {entries_block t}" "q \<notin> blocks e"
      using calloc_law [OF q(1)] assms(2) by (auto simp: q(2) owns_def owned_def allocated_def free_law)
    have "mset (map fst (cells (entries t'))) = mset (map fst (cells (entries t)))"
      by (simp add: q(5))
    from mset_eq_setD [OF this] mset_eq_imp_distinct_iff [OF this] show ?thesis
      using assms(2) live q(3,4) by (auto simp: owns_def owned_def)
  qed
qed

lemma set_owns:
  assumes ok: "ht_ok t" and v: "v \<noteq> 0" and own: "owns blocks B t e"
  shows "returns (ht_set m t key v e) (\<lambda>(r, t', e'). owns blocks B t' e')"
proof (rule ht_set_rule [OF ok v])
  fix e' assume "ht_expand m t e = Some (False, t, e')"
  from expand_owns [OF ok own this] show "case (None, t, e') of (r, t', e') \<Rightarrow> owns blocks B t' e'" by simp
next
  fix t1 e1 assume t1: "ht_roomy t1" "t1 = t \<and> e1 = e \<or> ht_expand m t e = Some (True, t1, e1)"
  have own1: "owns blocks B t1 e1" using t1(2) own expand_owns [OF ok own] by auto
  show "returns (ht_set_entry m (entries t1) (capacity t1) (0, key) v (Some (ht_count t1)) e1)
    (\<lambda>(k, es, l, e). l \<noteq> None \<and> (case (k, t1\<lparr>entries := es, ht_count := the l\<rparr>, e) of (r, t', e') \<Rightarrow> owns blocks B t' e'))"
  proof (rule returns_mono4 [OF ht_set_entry_table [OF t1(1) v, of m 0 key e1]], unfold prod.case)
    fix r es l e'
    let ?t' = "t1\<lparr>entries := es, ht_count := the l\<rparr>"
    assume *: "l \<noteq> None \<and> (let t' = ?t' in ht_ok t' \<and> (case r of
        None \<Rightarrow> t' = t1 \<and> strdup m key e1 = (None, e')
      | Some (p, k) \<Rightarrow> k = key \<and> cell_set p key v (entries t1) es \<and>
          (if key \<in> fst ` snd ` set (cells (entries t1)) then e' = e1 else strdup m key e1 = (Some p, e'))))"
    have "owns blocks B ?t' e'"
    proof (cases r)
      case None
      then show ?thesis using * own1 strdup_law [of key e1 None e'] by (simp add: Let_def allocated_def owns_def)
    next
      case (Some pk)
      then obtain p where p: "cell_set p key v (entries t1) es"
        "if key \<in> fst ` snd ` set (cells (entries t1)) then e' = e1 else strdup m key e1 = (Some p, e')"
        using * by (cases pk) (auto simp: Let_def)
      show ?thesis
      proof (cases "key \<in> fst ` snd ` set (cells (entries t1))")
        case True
        then have "image_mset fst (mset (cells es)) = image_mset fst (mset (cells (entries t1)))"
          using p(1) by (auto simp: cell_set_def)
        then show ?thesis
          using own1 p(2) True owns_mset [of ?t' t1 blocks e' e1] by (simp add: owned_def)
      next
        case False
        have "mset (cells es) = add_mset (p, key, v) (mset (cells (entries t1)))"
        proof (rule ccontr)
          assume "\<not> ?thesis"
          then obtain M v' where "mset (cells (entries t1)) = add_mset (p, key, v') M"
            using p(1) by (auto simp: cell_set_def)
          then have "(p, key, v') \<in> set (cells (entries t1))"
            by (metis set_mset_mset union_single_eq_member)
          then show False using False by force
        qed
        then show ?thesis
          using own1 p(2) False strdup_law [of key e1 "Some p" e']
          by (intro owns_new [of blocks B t1 e1 p e' ?t']) (simp_all add: owned_def)
      qed
    qed
    then show "l \<noteq> None \<and> owns blocks B ?t' e'" using * by simp
  qed
qed

lemma history_owns:
  assumes "ht_ok t" "owns blocks B t e" "\<forall>(k, v)\<in>set kvs. v \<noteq> 0"
  shows "returns (store_all (ht_set m) kvs t e) (\<lambda>(s, t', e'). ht_ok t' \<and> owns blocks B t' e')"
  using assms
proof (induction kvs arbitrary: t e)
  case (Cons kv kvs)
  obtain k v where kv: "kv = (k, v)" by fastforce
  then have v: "v \<noteq> 0" using Cons.prems(3) by auto
  obtain r t1 e1 where r: "ht_set m t k v e = Some (r, t1, e1)" "ht_ok t1" "owns blocks B t1 e1"
    using returns_conj [OF ht_set_spec [OF Cons.prems(1) v, of m k e] set_owns [OF Cons.prems(1) v Cons.prems(2), of k]]
    by (auto elim!: returnsE)
  then show ?case using Cons.IH [of t1 e1] Cons.prems(3) kv by simp
qed simp

lemma destroy_loop_frees:
  assumes "i + n = length es" "distinct (map fst (cells (drop i es)))" "fst ` set (cells (drop i es)) \<subseteq> blocks e"
  shows "returns (ht_destroy_loop m es n i e) (\<lambda>e'. blocks e' = blocks e - fst ` set (cells (drop i es)))"
  using assms
proof (induction n arbitrary: i e)
  case (Suc n)
  have i: "i < length es" and drop: "drop i es = es ! i # drop (Suc i) es"
    using Suc.prems(1) by (simp_all add: Cons_nth_drop_Suc)
  show ?case
  proof (cases "entry_key (es ! i)")
    case None
    then show ?thesis using Suc.IH [of "Suc i" e] Suc.prems i drop by (simp add: buf_get_in)
  next
    case (Some pk)
    obtain p k where pk: "pk = (p, k)" by fastforce
    have p: "p \<in> blocks e" "p \<notin> fst ` set (cells (drop (Suc i) es))"
      using Suc.prems(2,3) drop Some pk by auto
    have "returns (ht_destroy_loop m es n (Suc i) (free m p e))
      (\<lambda>e'. blocks e' = blocks (free m p e) - fst ` set (cells (drop (Suc i) es)))"
      using Suc.prems drop Some pk p by (intro Suc.IH) (auto simp: free_law)
    then show ?thesis
      using i drop Some pk p by (auto simp: buf_get_in free_law elim!: returns_mono)
  qed
qed simp

lemma destroy_frees:
  assumes "ht_ok t" "owns blocks B t e"
  shows "returns (ht_destroy m t e) (\<lambda>e'. blocks e' = B)"
proof -
  have "returns (ht_destroy_loop m (entries t) (unat (capacity t)) 0 e)
    (\<lambda>e'. blocks e' = blocks e - fst ` set (cells (drop 0 (entries t))))"
    using assms by (intro destroy_loop_frees) (auto simp: ht_ok_def owns_def owned_def)
  then show ?thesis
    using assms(2) unfolding ht_destroy_def returns_bind
    by (elim returns_mono) (auto simp: owns_def owned_def free_law Let_def)
qed

end

section \<open>A first-fit allocator\<close>

text \<open>The heap is the list of live addresses, at most 12.\<close>

definition candidates :: "address list" where
  "candidates = [1, 2, 3, 4, 5, 6, 7, 8, 9, 10, 11, 12]"

definition first_fit :: "address list \<Rightarrow> address option \<times> address list" where
  "first_fit live = (if length live < 12
     then (case filter (\<lambda>p. p \<notin> set live) candidates of
         [] \<Rightarrow> (None, live) | p # _ \<Rightarrow> (Some p, p # live))
     else (None, live))"

definition list_heap :: "address list libc" where
  "list_heap = \<lparr>malloc = \<lambda>n. first_fit, calloc = \<lambda>n sz. first_fit, strdup = \<lambda>str. first_fit, free = removeAll\<rparr>"

lemma candidate_not_null: "p \<in> set candidates \<Longrightarrow> p \<noteq> 0"
  by (auto simp: candidates_def)

lemma first_fit_law:
  assumes "first_fit e = (r, e')"
  shows "allocated set r e e'"
proof (cases "length e < 12")
  case True
  show ?thesis
  proof (cases "filter (\<lambda>p. p \<notin> set e) candidates")
    case Nil
    then show ?thesis using assms True unfolding first_fit_def by (simp add: allocated_def)
  next
    case (Cons p ps)
    have "p \<in> set (filter (\<lambda>p. p \<notin> set e) candidates)" by (simp only: Cons list.set_intros)
    then have "p \<noteq> 0" "p \<notin> set e" using candidate_not_null by simp_all
    moreover have "r = Some p" "e' = p # e"
      using assms True unfolding first_fit_def Cons by simp_all
    ultimately show ?thesis by (simp add: allocated_def)
  qed
next
  case False
  then show ?thesis using assms by (simp add: first_fit_def allocated_def)
qed

interpretation list_heap: c_heap list_heap set
  by unfold_locales (auto simp: list_heap_def dest: first_fit_law)

section \<open>Properties\<close>

text \<open>
  C14: the table is a finite map from strings to non-NULL pointers: \<open>ht_set\<close> ends in its memory
  and keeps the invariant, and so does every \<open>ht_get\<close> before and after it.  Afterwards \<open>ht_get\<close>
  finds the new value under the key and the old values \<open>f\<close> under all other keys.  When memory is
  exhausted \<open>ht_set\<close> returns NULL and no lookup changes.
\<close>

theorem ht_set_then_get:
  assumes "ht_ok t" and "v \<noteq> 0"
  shows "\<exists>f. (\<forall>k. ht_get t k = Some (f k)) \<and>
    returns (ht_set m t key v e) (\<lambda>(r, t', e'). ht_ok t' \<and> (case r of
      None \<Rightarrow> (\<forall>k. ht_get t' k = Some (f k))
    | Some (p, k) \<Rightarrow> k = key \<and> (\<forall>k'. ht_get t' k' = Some (if k' = key then v else f k'))))"
  using assms by (rule ht.lookup_after_store)

text \<open>A fresh table on the first-fit heap.\<close>

definition fresh_table :: ht where
  "fresh_table = \<lparr>ht_block = 1, entries_block = 2, entries = replicate 16 empty_entry, capacity = 16, ht_count = 0\<rparr>"

lemma fresh_table: "ht_create list_heap [] = (Some fresh_table, [2, 1])"
  by (simp add: ht_create_def list_heap_def first_fit_def candidates_def INITIAL_CAPACITY_def fresh_table_def)

theorem ht_set_then_get_witness:
  "\<exists>t' e'. ht_set list_heap fresh_table [97] 7 [2, 1] = Some (Some (3, [97]), t', e') \<and> ht_get t' [97] = Some 7"
proof -
  obtain f where "returns (ht_set list_heap fresh_table [97] 7 [2, 1]) (\<lambda>(r, t', e'). ht_ok t' \<and> (case r of
      None \<Rightarrow> (\<forall>k. ht_get t' k = Some (f k))
    | Some (p, k) \<Rightarrow> k = [97] \<and> (\<forall>k'. ht_get t' k' = Some (if k' = [97] then 7 else f k'))))"
    using ht_set_then_get [OF ht_create_spec(1) [OF fresh_table], of 7 list_heap "[97]" "[2, 1]"] by auto
  moreover have "returns (ht_set list_heap fresh_table [97] 7 [2, 1]) (\<lambda>(r, t', e'). r = Some (3, [97]))"
    by (simp add: ht_set_def ht_set_entry_def fresh_table_def hash_key_def FNV_OFFSET_def FNV_PRIME_def
        ht_probe_unfold buf_get_in buf_set_in empty_entry_def list_heap_def first_fit_def candidates_def Let_def)
  ultimately show ?thesis by (auto elim!: returnsE)
qed

text \<open>
  C24: a table that \<open>ht_create\<close> returns and any history of \<open>ht_set\<close> calls that all succeed answer
  every lookup with the value of the last call for that key, and with NULL for other keys.
\<close>

theorem ht_last_value:
  assumes "ht_create m e0 = (Some t, e)" and "\<forall>(k, v)\<in>set kvs. v \<noteq> 0"
  shows "returns (store_all (ht_set m) kvs t e) (\<lambda>(success, t', e'). ht_ok t' \<and>
    (success \<longrightarrow> (\<forall>k. ht_get t' k = Some (case map_of (rev kvs) k of None \<Rightarrow> 0 | Some v \<Rightarrow> v))))"
proof -
  note t = ht_create_spec [OF assms(1)]
  have none: "ht_get t k = Some 0" for k
    using ht_get_spec [OF t(1), of k] by (simp add: t(2) ht_map_def del: replicate.simps)
  have merge: "(case r of None \<Rightarrow> Some 0 | Some v \<Rightarrow> Some v) = Some (case r of None \<Rightarrow> 0 | Some v \<Rightarrow> v)" for r :: "address option"
    by (cases r) simp_all
  show ?thesis
    using ht.lookup_after_history [OF t(1) assms(2), of m e] by (simp only: none merge)
qed

theorem ht_last_value_witness:
  "\<exists>t' e'. store_all (ht_set list_heap) [([97], 7), ([98], 8), ([97], 9)] fresh_table [2, 1] = Some (True, t', e') \<and>
     ht_get t' [97] = Some 9 \<and> ht_get t' [98] = Some 8 \<and> ht_get t' [99] = Some 0"
proof -
  have "\<forall>(k, v)\<in>set [([97 :: u8], 7), ([98], 8), ([97], 9)]. (v :: address) \<noteq> 0" by simp
  note last = ht_last_value [OF fresh_table this]
  have load: "\<not> 8 \<le> (1 :: u64)" "\<not> 8 \<le> (2 :: u64)" by (simp_all add: word_le_nat_alt)
  have "returns (store_all (ht_set list_heap) [([97], 7), ([98], 8), ([97], 9)] fresh_table [2, 1]) (\<lambda>(success, _). success)"
    by (simp add: ht_set_def ht_set_entry_def fresh_table_def hash_key_def FNV_OFFSET_def FNV_PRIME_def
        ht_probe_unfold buf_get_in buf_set_in empty_entry_def list_heap_def first_fit_def candidates_def Let_def load)
  from returns_conj [OF this last] show ?thesis
    by (auto elim!: returnsE)
qed

text \<open>
  \<open>ht_expand\<close> moves every entry: on success the number of slots has doubled and no lookup has
  changed; on failure the table is the same.
\<close>

theorem ht_expand_keeps_lookups:
  assumes "ht_ok t"
  shows "returns (ht_expand m t e) (\<lambda>(success, t', e'). ht_ok t' \<and> ht_count t' = ht_count t \<and>
    (\<forall>k. ht_get t' k = ht_get t k) \<and> (if success then length (entries t') = 2 * length (entries t) else t' = t))"
proof -
  obtain s t' e' where x: "ht_expand m t e = Some (s, t', e')" and spec: "if s
    then ht_count t' = ht_count t \<and> ht_ok t' \<and> length (entries t') = 2 * length (entries t) \<and>
      mset (cells (entries t')) = mset (cells (entries t))
    else t' = t"
    using ht_expand_spec [OF assms, of m e] by (auto elim!: returnsE split: if_splits)
  have "ht_map (entries t') = ht_map (entries t)" "ht_ok t'"
    using spec assms map_of_mset [of "entries t'" "entries t"] by (auto simp: ht_ok_def split: if_splits)
  then show ?thesis
    using x spec assms by (auto simp: ht_get_spec split: if_splits)
qed

theorem ht_expand_keeps_lookups_witness:
  "returns (ht_expand list_heap fresh_table [2, 1]) (\<lambda>(success, t', e'). ht_get t' [97] = ht_get fresh_table [97])"
  by (rule returns_mono [OF ht_expand_keeps_lookups [OF ht_create_spec(1) [OF fresh_table]]]) auto

text \<open>
  C26: the iterator shows every item once: the loop over \<open>ht_next\<close> ends, with as many items as
  \<open>ht_length\<close>, all of different keys, and exactly those that \<open>ht_get\<close> finds.
\<close>

theorem ht_iterator_shows_all:
  assumes "ht_ok t"
  shows "returns (ht_collect t (ht_iterator it) []) (\<lambda>items. distinct (map fst items) \<and>
    length items = unat (ht_length t) \<and>
    (\<forall>k. ht_get t k = Some (case map_of items k of None \<Rightarrow> 0 | Some v \<Rightarrow> v)))"
  using ht_iteration [OF assms, of it] ht_get_spec [OF assms] assms
  by (auto simp: ht_ok_def ht_map_def slots_ok_def ht_length_def)

theorem ht_iterator_shows_all_witness:
  "\<exists>t e. ht_set list_heap fresh_table [97] 7 [2, 1] = Some (Some (3, [97]), t, e) \<and>
     ht_collect t (ht_iterator \<lparr>hti_key = None, hti_value = 0, hti_index = 5\<rparr>) [] = Some [([97], 7)]"
proof -
  obtain f where stored: "returns (ht_set list_heap fresh_table [97] 7 [2, 1]) (\<lambda>(r, t', e'). ht_ok t' \<and> (case r of
      None \<Rightarrow> (\<forall>k. ht_get t' k = Some (f k))
    | Some (p, k) \<Rightarrow> k = [97] \<and> (\<forall>k'. ht_get t' k' = Some (if k' = [97] then 7 else f k'))))"
    using ht.lookup_after_store [OF ht_create_spec(1) [OF fresh_table], of 7 list_heap "[97]" "[2, 1]"] by auto
  have "returns (ht_set list_heap fresh_table [97] 7 [2, 1]) (\<lambda>(r, t', e'). r = Some (3, [97]) \<and> ht_length t' = 1)"
    by (simp add: ht_set_def ht_set_entry_def fresh_table_def hash_key_def FNV_OFFSET_def FNV_PRIME_def ht_length_def
        ht_probe_unfold buf_get_in buf_set_in empty_entry_def list_heap_def first_fit_def candidates_def Let_def)
  with stored obtain t e where t: "ht_set list_heap fresh_table [97] 7 [2, 1] = Some (Some (3, [97]), t, e)"
      "ht_ok t" "ht_get t [97] = Some 7" "ht_length t = 1"
    by (auto elim!: returnsE)
  obtain items where items: "ht_collect t (ht_iterator \<lparr>hti_key = None, hti_value = 0, hti_index = 5\<rparr>) [] = Some items"
      and shown: "distinct (map fst items) \<and> length items = unat (ht_length t) \<and>
        (\<forall>k. ht_get t k = Some (case map_of items k of None \<Rightarrow> 0 | Some v \<Rightarrow> v))"
    using ht_iterator_shows_all [OF t(2)] by (rule returnsE)
  have "(case map_of items [97] of None \<Rightarrow> 0 | Some v \<Rightarrow> v) = 7" "length items = 1"
    using shown t(3,4) by simp_all
  then have "map_of items [97] = Some 7" by (auto split: option.splits)
  then have "([97], 7) \<in> set items" by (rule map_of_SomeD)
  then have "items = [([97], 7)]" using \<open>length items = 1\<close> by (auto simp: length_Suc_conv)
  then show ?thesis using t(1) items by blast
qed

text \<open>
  C25: nothing leaks and nothing is freed twice.  On an allocator whose laws cover only the release
  of live blocks, creating a table, any history of \<open>ht_set\<close> calls, also one that a failure ends,
  and \<open>ht_destroy\<close> leave exactly the blocks that were live before; a failing \<open>ht_create\<close> too.
\<close>

theorem ht_owns_its_memory:
  assumes "c_heap m blocks"
    and "\<forall>(k, v)\<in>set kvs. v \<noteq> 0"
  shows "case ht_create m e of
      (None, e') \<Rightarrow> blocks e' = blocks e
    | (Some t, e') \<Rightarrow> returns (do { (_, t, e') \<leftarrow> store_all (ht_set m) kvs t e'; ht_destroy m t e' })
        (\<lambda>e'. blocks e' = blocks e)"
proof (cases "fst (ht_create m e)")
  case None
  then show ?thesis
    using c_heap.create_owns [OF assms(1), of e] by (auto split: prod.splits option.splits)
next
  case (Some t)
  then obtain e' where t: "ht_create m e = (Some t, e')" by (metis surjective_pairing)
  have "returns (store_all (ht_set m) kvs t e') (\<lambda>(s, t, e'). ht_ok t \<and> owns blocks (blocks e) t e')"
    using c_heap.history_owns [OF assms(1) ht_create_spec(1) [OF t] _ assms(2)]
      c_heap.create_owns [OF assms(1), of e] t by simp
  then show ?thesis
    using c_heap.destroy_frees [OF assms(1)] t by (auto elim!: returns_mono)
qed

theorem ht_owns_its_memory_witness:
  "case ht_create list_heap [5, 9] of
      (None, e') \<Rightarrow> set e' = {5, 9}
    | (Some t, e') \<Rightarrow> returns (do { (_, t, e') \<leftarrow> store_all (ht_set list_heap) [([97], 7), ([98], 8)] t e'; ht_destroy list_heap t e' })
        (\<lambda>e'. set e' = {5, 9})"
proof -
  have "\<forall>(k, v)\<in>set [([97 :: u8], 7), ([98], 8)]. (v :: address) \<noteq> 0" by simp
  from ht_owns_its_memory [OF list_heap.c_heap_axioms this, of "[5, 9]"] show ?thesis by (simp only: list.set)
qed

text \<open>
  C27: the bound on the load is needed: in a table whose slots are all filled with other keys,
  the search of \<open>ht_get\<close> goes round for ever.  No pass leaves the array and none leaves the loop,
  so that \<open>ht_get\<close> has no result.
\<close>

theorem ht_get_full_table_diverges:
  assumes "unat (capacity t) = length (entries t)" and "entries t \<noteq> []"
    and "\<forall>i<length (entries t). slot_key (entries t) i \<notin> {None, Some key}"
  shows "endless (probe_pass (entries t) (capacity t) key) (hash_key key AND (capacity t - 1)) \<and>
    ht_get t key = None"
proof -
  have "endless (probe_pass (entries t) (capacity t) key) (hash_key key AND (capacity t - 1))"
  proof (rule endless_invariant)
    have "capacity t \<noteq> 0" using assms(1,2) by auto
    then have "unat (capacity t - 1) < unat (capacity t)" by (simp add: unat_minus_one_less unat_gt_0)
    moreover have "hash_key key AND (capacity t - 1) \<le> capacity t - 1" by (rule word_and_le1)
    ultimately show "unat (hash_key key AND (capacity t - 1)) < length (entries t)"
      using assms(1) by (simp add: word_le_nat_alt)
  next
    fix index :: u64 assume "unat index < length (entries t)"
    then show "\<exists>index'. probe_pass (entries t) (capacity t) key index = Some (Inl index') \<and> unat index' < length (entries t)"
      using assms unat_next_slot [of index "capacity t"]
      by (auto simp: probe_pass_def buf_get_in slot_key_def split: option.splits)
  qed
  then show ?thesis
    by (simp add: ht_get_def ht_probe_def endless_loop Let_def)
qed

definition full_table :: ht where
  "full_table = \<lparr>ht_block = 1, entries_block = 2, entries = replicate 2 \<lparr>entry_key = Some (3, [97]), entry_value = 4\<rparr>,
     capacity = 2, ht_count = 2\<rparr>"

theorem ht_get_full_table_diverges_witness:
  "endless (probe_pass (entries full_table) 2 [98]) (hash_key [98] AND 1) \<and> ht_get full_table [98] = None"
  using ht_get_full_table_diverges [of full_table "[98]"]
  by (auto simp: full_table_def slot_key_def less_2_cases_iff)

end
