(* ===== verification/Modbus_Records.thy ===== *)
theory Modbus_Records
  imports Modbus_Client
begin

text \<open>
  The client half of \<^verbatim>\<open>nanomodbus.c\<close> that the driver does not use: file records, device
  identification and the error messages.  The parsers of the responses are also used by the
  server, with NULL outputs, to skip the traffic of other units.
\<close>

section \<open>File records\<close>

text \<open>
  \<^verbatim>\<open>memcpy(registers, subreq_record_data, subreq_data_size)\<close> copies bytes; an odd size copies half
  of the last register.
\<close>

definition recv_read_file_record_res ::
  "'w nmbs_t \<Rightarrow> u16 list option \<Rightarrow> u16 \<Rightarrow> 'w \<Rightarrow> (nmbs_error \<times> u16 list option \<times> 'w nmbs_t \<times> 'w) option" where
  "recv_read_file_record_res n registers count w = do {
     (err, n, w) \<leftarrow> recv_res_header n w;
     if err \<noteq> NMBS_ERROR_NONE then Some (err, registers, n, w)
     else do {
       (err, n, w) \<leftarrow> recv n 1 w;
       if err \<noteq> NMBS_ERROR_NONE then Some (err, registers, n, w)
       else do {
         (response_size, n) \<leftarrow> get_1 n;
         if response_size > 250 then Some (NMBS_ERROR_INVALID_RESPONSE, registers, n, w)
         else do {
           (err, n, w) \<leftarrow> recv n (ucast response_size) w;
           if err \<noteq> NMBS_ERROR_NONE then Some (err, registers, n, w)
           else do {
             (b, n) \<leftarrow> get_1 n;
             let subreq_data_size = b - 1;
             (subreq_reference_type, n) \<leftarrow> get_1 n;
             let (subreq_record_data, n) = get_n n (ucast subreq_data_size);
             (err, n, w) \<leftarrow> recv_msg_footer n w;
             if err \<noteq> NMBS_ERROR_NONE then Some (err, registers, n, w)
             else (case registers of
                None \<Rightarrow> Some (NMBS_ERROR_NONE, registers, n, w)
              | Some regs \<Rightarrow>
                  if subreq_reference_type \<noteq> 6 then Some (NMBS_ERROR_INVALID_RESPONSE, registers, n, w)
                  else if unat count \<noteq> unat subreq_data_size div 2
                  then Some (NMBS_ERROR_INVALID_RESPONSE, registers, n, w)
                  else do {
                    buf \<leftarrow> swap_regs (mbuf n) subreq_record_data (unat subreq_data_size div 2);
                    let n = set_buf n buf;
                    src \<leftarrow> buf_slice (mbuf n) subreq_record_data (unat subreq_data_size);
                    dst \<leftarrow> buf_splice (host_bytes regs) 0 src;
                    Some (NMBS_ERROR_NONE, Some (host_words dst), n, w)
                  })
           }
         }
       }
     }
   }"

definition recv_write_file_record_res ::
  "'w nmbs_t \<Rightarrow> u16 \<Rightarrow> u16 \<Rightarrow> u16 list option \<Rightarrow> u16 \<Rightarrow> 'w \<Rightarrow> (nmbs_error \<times> 'w nmbs_t \<times> 'w) option" where
  "recv_write_file_record_res n file_number record_number registers count w = do {
     (err, n, w) \<leftarrow> recv_res_header n w;
     if err \<noteq> NMBS_ERROR_NONE then Some (err, n, w)
     else do {
       (err, n, w) \<leftarrow> recv n 1 w;
       if err \<noteq> NMBS_ERROR_NONE then Some (err, n, w)
       else do {
         (response_size, n) \<leftarrow> get_1 n;
         if response_size > 251 then Some (NMBS_ERROR_INVALID_RESPONSE, n, w)
         else do {
           (err, n, w) \<leftarrow> recv n (ucast response_size) w;
           if err \<noteq> NMBS_ERROR_NONE then Some (err, n, w)
           else do {
             (subreq_reference_type, n) \<leftarrow> get_1 n;
             (subreq_file_number, n) \<leftarrow> get_2 n;
             (subreq_record_number, n) \<leftarrow> get_2 n;
             (subreq_record_length, n) \<leftarrow> get_2 n;
             let subreq_data_size = subreq_record_length * 2;
             let (subreq_record_data, n) = get_n n subreq_data_size;
             (err, n, w) \<leftarrow> recv_msg_footer n w;
             if err \<noteq> NMBS_ERROR_NONE then Some (err, n, w)
             else (case registers of
                None \<Rightarrow> Some (NMBS_ERROR_NONE, n, w)
              | Some regs \<Rightarrow>
                  if subreq_reference_type \<noteq> 6 then Some (NMBS_ERROR_INVALID_RESPONSE, n, w)
                  else if subreq_file_number \<noteq> file_number then Some (NMBS_ERROR_INVALID_RESPONSE, n, w)
                  else if subreq_record_number \<noteq> record_number then Some (NMBS_ERROR_INVALID_RESPONSE, n, w)
                  else if subreq_record_length \<noteq> count then Some (NMBS_ERROR_INVALID_RESPONSE, n, w)
                  else do {
                    buf \<leftarrow> swap_regs (mbuf n) subreq_record_data (unat subreq_record_length);
                    let n = set_buf n buf;
                    sent \<leftarrow> buf_slice (host_bytes regs) 0 (unat subreq_data_size);
                    echoed \<leftarrow> buf_slice (mbuf n) subreq_record_data (unat subreq_data_size);
                    if sent \<noteq> echoed then Some (NMBS_ERROR_INVALID_RESPONSE, n, w)
                    else Some (NMBS_ERROR_NONE, n, w)
                  })
           }
         }
       }
     }
   }"

definition nmbs_read_file_record ::
  "'w nmbs_t \<Rightarrow> u16 \<Rightarrow> u16 \<Rightarrow> u16 list option \<Rightarrow> u16 \<Rightarrow> 'w \<Rightarrow> (nmbs_error \<times> u16 list option \<times> 'w nmbs_t \<times> 'w) option" where
  "nmbs_read_file_record n file_number record_number registers count w =
     (if file_number = 0 then Some (NMBS_ERROR_INVALID_ARGUMENT, registers, n, w)
      else if record_number > 0x270F then Some (NMBS_ERROR_INVALID_ARGUMENT, registers, n, w)
      else if count > 124 then Some (NMBS_ERROR_INVALID_ARGUMENT, registers, n, w)
      else do {
        (n, w) \<leftarrow> msg_state_req n 20 w;
        n \<leftarrow> put_req_header n 8;
        n \<leftarrow> put_1 n 7;
        n \<leftarrow> put_1 n 6;
        n \<leftarrow> put_2 n file_number;
        n \<leftarrow> put_2 n record_number;
        n \<leftarrow> put_2 n count;
        (err, n, w) \<leftarrow> send_msg n w;
        if err \<noteq> NMBS_ERROR_NONE then Some (err, registers, n, w)
        else recv_read_file_record_res n registers count w
      })"

definition nmbs_write_file_record ::
  "'w nmbs_t \<Rightarrow> u16 \<Rightarrow> u16 \<Rightarrow> u16 list \<Rightarrow> u16 \<Rightarrow> 'w \<Rightarrow> (nmbs_error \<times> 'w nmbs_t \<times> 'w) option" where
  "nmbs_write_file_record n file_number record_number registers count w =
     (if file_number = 0 then Some (NMBS_ERROR_INVALID_ARGUMENT, n, w)
      else if record_number > 0x270F then Some (NMBS_ERROR_INVALID_ARGUMENT, n, w)
      else if count > 122 then Some (NMBS_ERROR_INVALID_ARGUMENT, n, w)
      else do {
        let data_size = count * 2;
        (n, w) \<leftarrow> msg_state_req n 21 w;
        n \<leftarrow> put_req_header n (8 + data_size);
        n \<leftarrow> put_1 n (7 + ucast data_size);
        n \<leftarrow> put_1 n 6;
        n \<leftarrow> put_2 n file_number;
        n \<leftarrow> put_2 n record_number;
        n \<leftarrow> put_2 n count;
        n \<leftarrow> put_regs n registers count;
        (err, n, w) \<leftarrow> send_msg n w;
        if err \<noteq> NMBS_ERROR_NONE then Some (err, n, w)
        else if \<not> broadcast (msg n)
        then recv_write_file_record_res n file_number record_number (Some registers) count w
        else Some (NMBS_ERROR_NONE, n, w)
      })"

section \<open>Device identification\<close>

text \<open>
  A \<^verbatim>\<open>char*\<close> is the buffer it points to, \<open>None\<close> for NULL.  The characters that \<open>strncpy\<close> writes:
  it reads its source up to a NUL or the limit, and pads with NULs.
\<close>

type_synonym char_ptr = "u8 list option"

fun strncpy_chars :: "nat \<Rightarrow> u8 list \<Rightarrow> u8 list option" where
  "strncpy_chars 0 src = Some []"
| "strncpy_chars (Suc k) [] = None"
| "strncpy_chars (Suc k) (c # src) =
     (if c = 0 then Some (replicate (Suc k) 0)
      else do { cs \<leftarrow> strncpy_chars k src; Some (c # cs) })"

definition copy_object ::
  "char_ptr list \<Rightarrow> u8 \<Rightarrow> u8 list \<Rightarrow> u8 \<Rightarrow> u8 \<Rightarrow> char_ptr list option" where
  "copy_object bs buf_index str buffers_length object_length = do {
     p \<leftarrow> buf_get bs (unat buf_index);
     b \<leftarrow> p;
     cs \<leftarrow> strncpy_chars (unat buffers_length) str;
     b \<leftarrow> buf_splice b 0 cs;
     b \<leftarrow> buf_set b (unat object_length) 0;
     buf_set bs (unat buf_index) (Some b)
   }"

text \<open>The loop over the objects, on the number of objects left, the index \<open>i\<close> and \<open>res_size_left\<close>.\<close>

fun recv_objects_loop ::
  "u8 list option \<Rightarrow> u8 \<Rightarrow> nat \<Rightarrow> nat \<Rightarrow> u8 \<Rightarrow> char_ptr list option \<Rightarrow> u8 list option \<Rightarrow> 'w nmbs_t \<Rightarrow> 'w \<Rightarrow>
     (nmbs_error \<times> char_ptr list option \<times> u8 list option \<times> 'w nmbs_t \<times> 'w) option" where
  "recv_objects_loop order buffers_length 0 i res_size_left buffers_out ids_out n w =
     Some (NMBS_ERROR_NONE, buffers_out, ids_out, n, w)"
| "recv_objects_loop order buffers_length (Suc k) i res_size_left buffers_out ids_out n w = do {
     (err, n, w) \<leftarrow> recv n 2 w;
     if err \<noteq> NMBS_ERROR_NONE then Some (err, buffers_out, ids_out, n, w)
     else do {
       (object_id, n) \<leftarrow> get_1 n;
       (object_length, n) \<leftarrow> get_1 n;
       let res_size_left = res_size_left - 2;
       if object_length > res_size_left then Some (NMBS_ERROR_INVALID_RESPONSE, buffers_out, ids_out, n, w)
       else do {
         (err, n, w) \<leftarrow> recv n (ucast object_length) w;
         if err \<noteq> NMBS_ERROR_NONE then Some (err, buffers_out, ids_out, n, w)
         else do {
           let (str, n) = get_n n (ucast object_length);
           ids_out \<leftarrow> (case ids_out of
              None \<Rightarrow> Some None
            | Some ids \<Rightarrow> do { ids \<leftarrow> buf_set ids i object_id; Some (Some ids) });
           buf_index \<leftarrow> (case order of None \<Rightarrow> Some (of_nat i) | Some order \<Rightarrow> buf_get order (unat object_id));
           buffers_out \<leftarrow> (case buffers_out of
              None \<Rightarrow> Some None
            | Some bs \<Rightarrow> do {
                bs \<leftarrow> copy_object bs buf_index (drop str (mbuf n)) buffers_length object_length;
                Some (Some bs)
              });
           recv_objects_loop order buffers_length k (Suc i) res_size_left buffers_out ids_out n w
         }
       }
     }
   }"

text \<open>
  The results are the error, the output arrays, \<open>*next_object_id_out\<close> and \<open>*objects_count_out\<close>
  (\<open>None\<close> for a NULL pointer), the instance and the world.
\<close>

definition recv_read_device_identification_res ::
  "'w nmbs_t \<Rightarrow> u8 \<Rightarrow> char_ptr list option \<Rightarrow> u8 \<Rightarrow> u8 list option \<Rightarrow> u8 list option \<Rightarrow> u8 option \<Rightarrow> u8 option \<Rightarrow> 'w \<Rightarrow>
     (nmbs_error \<times> (char_ptr list option \<times> u8 list option \<times> u8 option \<times> u8 option) \<times> 'w nmbs_t \<times> 'w) option" where
  "recv_read_device_identification_res n buffers_count buffers_out buffers_length order ids_out
       next_object_id_out objects_count_out w = (
     let outs = (buffers_out, ids_out, next_object_id_out, objects_count_out) in do {
     (err, n, w) \<leftarrow> recv_res_header n w;
     if err \<noteq> NMBS_ERROR_NONE then Some (err, outs, n, w)
     else do {
       (err, n, w) \<leftarrow> recv n 6 w;
       if err \<noteq> NMBS_ERROR_NONE then Some (err, outs, n, w)
       else do {
         (mei_type, n) \<leftarrow> get_1 n;
         if mei_type \<noteq> 0x0E then Some (NMBS_ERROR_INVALID_RESPONSE, outs, n, w)
         else do {
           (read_device_id_code, n) \<leftarrow> get_1 n;
           if read_device_id_code < 1 \<or> read_device_id_code > 4 then Some (NMBS_ERROR_INVALID_RESPONSE, outs, n, w)
           else do {
             (conformity_level, n) \<leftarrow> get_1 n;
             if conformity_level < 1 \<or> (conformity_level > 3 \<and> conformity_level < 0x81) \<or> conformity_level > 0x83
             then Some (NMBS_ERROR_INVALID_RESPONSE, outs, n, w)
             else do {
               (more_follows, n) \<leftarrow> get_1 n;
               if more_follows \<noteq> 0 \<and> more_follows \<noteq> 0xFF then Some (NMBS_ERROR_INVALID_RESPONSE, outs, n, w)
               else do {
                 (next_object_id, n) \<leftarrow> get_1 n;
                 (objects_count, n) \<leftarrow> get_1 n;
                 let objects_count_out = map_option (\<lambda>_. objects_count) objects_count_out;
                 if buffers_count \<noteq> 0 \<and> objects_count > buffers_count
                 then Some (NMBS_ERROR_INVALID_ARGUMENT, (buffers_out, ids_out, next_object_id_out, objects_count_out), n, w)
                 else do {
                   let bufs = (if buffers_count = 0 then None else buffers_out);
                   let next_object_id = (if more_follows = 0 then 0x7F else next_object_id);
                   let next_object_id_out = map_option (\<lambda>_. next_object_id) next_object_id_out;
                   (err, bufs, ids_out, n, w) \<leftarrow>
                     recv_objects_loop order buffers_length (unat objects_count) 0 (253 - 7) bufs ids_out n w;
                   let outs = (if buffers_count = 0 then buffers_out else bufs, ids_out, next_object_id_out, objects_count_out);
                   if err \<noteq> NMBS_ERROR_NONE then Some (err, outs, n, w)
                   else do {
                     (err, n, w) \<leftarrow> recv_msg_footer n w;
                     Some (err, outs, n, w)
                   }
                 }
               }
             }
           }
         }
       }
     }
   })"

definition send_id_request ::
  "'w nmbs_t \<Rightarrow> u8 \<Rightarrow> u8 \<Rightarrow> 'w \<Rightarrow> (nmbs_error \<times> 'w nmbs_t \<times> 'w) option" where
  "send_id_request n code object_id w = do {
     (n, w) \<leftarrow> msg_state_req n 43 w;
     n \<leftarrow> put_req_header n 3;
     n \<leftarrow> put_1 n 0x0E;
     n \<leftarrow> put_1 n code;
     n \<leftarrow> put_1 n object_id;
     send_msg n w
   }"

text \<open>
  The loops of the basic and the regular request differ in the code, the order and the limit on
  \<open>total_received\<close>.  A loop that the unit keeps going for ever has no result.
\<close>

partial_function (option) identification_loop ::
  "u8 \<Rightarrow> u8 list \<Rightarrow> u8 \<Rightarrow> u8 \<Rightarrow> char_ptr list \<times> u8 \<times> u8 \<times> 'w nmbs_t \<times> 'w \<Rightarrow>
     (nmbs_error \<times> char_ptr list \<times> 'w nmbs_t \<times> 'w) option" where
  "identification_loop code order limit buffers_length vars = (case vars of
     (buffers, total_received, next_object_id, n, w) \<Rightarrow>
       if next_object_id = 0x7F then Some (NMBS_ERROR_NONE, buffers, n, w)
       else do {
         (err, n, w) \<leftarrow> send_id_request n code next_object_id w;
         if err \<noteq> NMBS_ERROR_NONE then Some (err, buffers, n, w)
         else do {
           (err, (bufs, _, next_id, received), n, w) \<leftarrow>
             recv_read_device_identification_res n limit (Some buffers) buffers_length (Some order) None
               (Some next_object_id) (Some 0) w;
           buffers \<leftarrow> bufs;
           next_object_id \<leftarrow> next_id;
           objects_received \<leftarrow> received;
           if err \<noteq> NMBS_ERROR_NONE then Some (err, buffers, n, w)
           else
             let total_received = total_received + objects_received in
             if total_received > limit then Some (NMBS_ERROR_INVALID_RESPONSE, buffers, n, w)
             else if objects_received = 0 then Some (NMBS_ERROR_INVALID_RESPONSE, buffers, n, w)
             else identification_loop code order limit buffers_length (buffers, total_received, next_object_id, n, w)
         }
       })"

definition nmbs_read_device_identification_basic where
  "nmbs_read_device_identification_basic n vendor_name product_code major_minor_revision buffers_length w =
     identification_loop 1 [0, 1, 2] 3 buffers_length ([vendor_name, product_code, major_minor_revision], 0, 0x00, n, w)"

definition nmbs_read_device_identification_regular where
  "nmbs_read_device_identification_regular n vendor_url product_name model_name user_application_name buffers_length w =
     identification_loop 2 [0, 0, 0, 0, 1, 2, 3] 4 buffers_length
       ([vendor_url, product_name, model_name, user_application_name], 0, 0x03, n, w)"

partial_function (option) identification_extended_loop ::
  "u8 \<Rightarrow> u8 \<Rightarrow> u8 list \<times> char_ptr list \<times> u8 \<times> u8 \<times> 'w nmbs_t \<times> 'w \<Rightarrow>
     (nmbs_error \<times> u8 list \<times> char_ptr list \<times> u8 \<times> 'w nmbs_t \<times> 'w) option" where
  "identification_extended_loop ids_length buffer_length vars = (case vars of
     (ids, buffers, total_received, next_object_id, n, w) \<Rightarrow>
       if next_object_id = 0x7F then Some (NMBS_ERROR_NONE, ids, buffers, total_received, n, w)
       else do {
         (err, n, w) \<leftarrow> send_id_request n 3 next_object_id w;
         if err \<noteq> NMBS_ERROR_NONE then Some (err, ids, buffers, total_received, n, w)
         else do {
           let k = unat total_received;
           (err, (bufs, idents, next_id, received), n, w) \<leftarrow>
             recv_read_device_identification_res n (ids_length - total_received) (Some (drop k buffers)) buffer_length None
               (Some (drop k ids)) (Some next_object_id) (Some 0) w;
           bufs \<leftarrow> bufs;
           idents \<leftarrow> idents;
           next_object_id \<leftarrow> next_id;
           objects_received \<leftarrow> received;
           let buffers = take k buffers @ bufs;
           let ids = take k ids @ idents;
           if err \<noteq> NMBS_ERROR_NONE then Some (err, ids, buffers, total_received, n, w)
           else identification_extended_loop ids_length buffer_length
             (ids, buffers, total_received + objects_received, next_object_id, n, w)
         }
       })"

text \<open>The count is stored only when the loop ends normally; \<open>None\<close> is the unchanged \<open>*objects_count_out\<close>.\<close>

definition nmbs_read_device_identification_extended ::
  "'w nmbs_t \<Rightarrow> u8 \<Rightarrow> u8 list \<Rightarrow> char_ptr list \<Rightarrow> u8 \<Rightarrow> u8 \<Rightarrow> 'w \<Rightarrow>
     (nmbs_error \<times> u8 list \<times> char_ptr list \<times> u8 option \<times> 'w nmbs_t \<times> 'w) option" where
  "nmbs_read_device_identification_extended n object_id_start ids buffers ids_length buffer_length w =
     (if object_id_start < 0x80 then Some (NMBS_ERROR_INVALID_ARGUMENT, ids, buffers, None, n, w)
      else do {
        (err, ids, buffers, total_received, n, w) \<leftarrow>
          identification_extended_loop ids_length buffer_length (ids, buffers, 0, object_id_start, n, w);
        Some (err, ids, buffers, if err = NMBS_ERROR_NONE then Some total_received else None, n, w)
      })"

definition nmbs_read_device_identification ::
  "'w nmbs_t \<Rightarrow> u8 \<Rightarrow> char_ptr \<Rightarrow> u8 \<Rightarrow> 'w \<Rightarrow> (nmbs_error \<times> char_ptr list option \<times> 'w nmbs_t \<times> 'w) option" where
  "nmbs_read_device_identification n object_id buffer buffer_length w =
     (if object_id > 0x06 \<and> object_id < 0x80 then Some (NMBS_ERROR_INVALID_ARGUMENT, Some [buffer], n, w)
      else do {
        (err, n, w) \<leftarrow> send_id_request n 4 object_id w;
        if err \<noteq> NMBS_ERROR_NONE then Some (err, Some [buffer], n, w)
        else do {
          (err, (bufs, _), n, w) \<leftarrow>
            recv_read_device_identification_res n 1 (Some [buffer]) buffer_length None None None None w;
          Some (err, bufs, n, w)
        }
      })"

section \<open>Error messages\<close>

fun nmbs_strerror :: "nmbs_error \<Rightarrow> string" where
  "nmbs_strerror NMBS_ERROR_INVALID_REQUEST = ''invalid request received''"
| "nmbs_strerror NMBS_ERROR_INVALID_UNIT_ID = ''invalid unit ID received''"
| "nmbs_strerror NMBS_ERROR_INVALID_TCP_MBAP = ''invalid TCP MBAP received''"
| "nmbs_strerror NMBS_ERROR_CRC = ''invalid CRC received''"
| "nmbs_strerror NMBS_ERROR_TRANSPORT = ''transport error''"
| "nmbs_strerror NMBS_ERROR_TIMEOUT = ''timeout''"
| "nmbs_strerror NMBS_ERROR_INVALID_RESPONSE = ''invalid response received''"
| "nmbs_strerror NMBS_ERROR_INVALID_ARGUMENT = ''invalid argument provided''"
| "nmbs_strerror NMBS_ERROR_NONE = ''no error''"
| "nmbs_strerror NMBS_EXCEPTION_ILLEGAL_FUNCTION = ''modbus exception 1: illegal function''"
| "nmbs_strerror NMBS_EXCEPTION_ILLEGAL_DATA_ADDRESS = ''modbus exception 2: illegal data address''"
| "nmbs_strerror NMBS_EXCEPTION_ILLEGAL_DATA_VALUE = ''modbus exception 3: data value''"
| "nmbs_strerror NMBS_EXCEPTION_SERVER_DEVICE_FAILURE = ''modbus exception 4: server device failure''"

end
