(* ===== verification/Modbus_Server.thy ===== *)
theory Modbus_Server
  imports Modbus_Records
begin

text \<open>
  The server half of \<^verbatim>\<open>nanomodbus.c\<close> with the transport of \<open>Modbus_Transport\<close>: one handler per
  function code, the dispatch on the code, and \<open>nmbs_server_poll\<close>.  A request to another unit
  (\<open>ignored\<close>) makes the handler read the response of that unit off the line.  The callbacks of
  the user are part of the instance; each gets the world and returns it.
\<close>

section \<open>Exceptions\<close>

text \<open>The conversion of an \<open>nmbs_error\<close> to the \<^verbatim>\<open>uint8_t\<close> of \<open>send_exception_msg\<close>.\<close>

definition exception_code :: "nmbs_error \<Rightarrow> u8" where
  "exception_code err = of_int (error_code err)"

definition refuse ::
  "'w nmbs_t \<Rightarrow> nmbs_error \<Rightarrow> 'w \<Rightarrow> (nmbs_error \<times> 'w nmbs_t \<times> 'w) option" where
  "refuse n err w = send_exception_msg n (exception_code err) w"

text \<open>What every handler does when its callback fails.\<close>

definition callback_failed ::
  "'w nmbs_t \<Rightarrow> nmbs_error \<Rightarrow> 'w \<Rightarrow> (nmbs_error \<times> 'w nmbs_t \<times> 'w) option" where
  "callback_failed n err w =
     (if nmbs_error_is_exception err then refuse n err w
      else refuse n NMBS_EXCEPTION_SERVER_DEVICE_FAILURE w)"

text \<open>A response parser that is called with NULL for its output.\<close>

definition drop_out :: "('e \<times> 'o \<times> 'n \<times> 'w) option \<Rightarrow> ('e \<times> 'n \<times> 'w) option" where
  "drop_out m = do { (err, _, n, w) \<leftarrow> m; Some (err, n, w) }"

section \<open>Reading\<close>

definition handle_read_discrete ::
  "'w nmbs_t \<Rightarrow> 'w read_bits_cb option \<Rightarrow> 'w \<Rightarrow> (nmbs_error \<times> 'w nmbs_t \<times> 'w) option" where
  "handle_read_discrete n callback w = do {
     (err, n, w) \<leftarrow> recv n 4 w;
     if err \<noteq> NMBS_ERROR_NONE then Some (err, n, w)
     else do {
       (address, n) \<leftarrow> get_2 n;
       (quantity, n) \<leftarrow> get_2 n;
       (err, n, w) \<leftarrow> recv_msg_footer n w;
       if err \<noteq> NMBS_ERROR_NONE then Some (err, n, w)
       else if \<not> ignored (msg n) then
         (if quantity < 1 \<or> quantity > 2000 then refuse n NMBS_EXCEPTION_ILLEGAL_DATA_VALUE w
          else if beyond_address_space address quantity then refuse n NMBS_EXCEPTION_ILLEGAL_DATA_ADDRESS w
          else (case callback of
             None \<Rightarrow> refuse n NMBS_EXCEPTION_ILLEGAL_FUNCTION w
           | Some cb \<Rightarrow>
               (case cb address quantity (replicate 250 0) (unit_id (msg n)) (cb_arg (callbacks n)) w of
                  (err, bitfield, w) \<Rightarrow>
                  if err \<noteq> NMBS_ERROR_NONE then callback_failed n err w
                  else if \<not> broadcast (msg n) then do {
                    let discrete_bytes = (ucast ((quantity + 7) div 8) :: u8);
                    n \<leftarrow> put_res_header n (1 + ucast discrete_bytes);
                    n \<leftarrow> put_1 n discrete_bytes;
                    n \<leftarrow> put_bytes_loop (unat discrete_bytes) 0 n bitfield;
                    send_msg n w
                  }
                  else Some (NMBS_ERROR_NONE, n, w))))
       else drop_out (recv_read_discrete_res n None w)
     }
   }"

definition handle_read_registers ::
  "'w nmbs_t \<Rightarrow> 'w read_regs_cb option \<Rightarrow> 'w \<Rightarrow> (nmbs_error \<times> 'w nmbs_t \<times> 'w) option" where
  "handle_read_registers n callback w = do {
     (err, n, w) \<leftarrow> recv n 4 w;
     if err \<noteq> NMBS_ERROR_NONE then Some (err, n, w)
     else do {
       (address, n) \<leftarrow> get_2 n;
       (quantity, n) \<leftarrow> get_2 n;
       (err, n, w) \<leftarrow> recv_msg_footer n w;
       if err \<noteq> NMBS_ERROR_NONE then Some (err, n, w)
       else if \<not> ignored (msg n) then
         (if quantity < 1 \<or> quantity > 125 then refuse n NMBS_EXCEPTION_ILLEGAL_DATA_VALUE w
          else if beyond_address_space address quantity then refuse n NMBS_EXCEPTION_ILLEGAL_DATA_ADDRESS w
          else (case callback of
             None \<Rightarrow> refuse n NMBS_EXCEPTION_ILLEGAL_FUNCTION w
           | Some cb \<Rightarrow>
               (case cb address quantity (replicate 125 0) (unit_id (msg n)) (cb_arg (callbacks n)) w of
                  (err, regs, w) \<Rightarrow>
                  if err \<noteq> NMBS_ERROR_NONE then callback_failed n err w
                  else if \<not> broadcast (msg n) then do {
                    let regs_bytes = (ucast (quantity * 2) :: u8);
                    n \<leftarrow> put_res_header n (1 + ucast regs_bytes);
                    n \<leftarrow> put_1 n regs_bytes;
                    n \<leftarrow> put_words_loop (unat quantity) 0 n regs;
                    send_msg n w
                  }
                  else Some (NMBS_ERROR_NONE, n, w))))
       else drop_out (recv_read_registers_res n quantity None w)
     }
   }"

definition handle_read_coils where
  "handle_read_coils n w = handle_read_discrete n (cb_read_coils (callbacks n)) w"

definition handle_read_discrete_inputs where
  "handle_read_discrete_inputs n w = handle_read_discrete n (cb_read_discrete_inputs (callbacks n)) w"

definition handle_read_holding_registers where
  "handle_read_holding_registers n w = handle_read_registers n (cb_read_holding_registers (callbacks n)) w"

definition handle_read_input_registers where
  "handle_read_input_registers n w = handle_read_registers n (cb_read_input_registers (callbacks n)) w"

section \<open>Writing\<close>

text \<open>The response to the four write requests: the address and a second word.\<close>

definition send_echo :: "'w nmbs_t \<Rightarrow> u16 \<Rightarrow> u16 \<Rightarrow> 'w \<Rightarrow> (nmbs_error \<times> 'w nmbs_t \<times> 'w) option" where
  "send_echo n a v w =
     (if \<not> broadcast (msg n) then do {
        n \<leftarrow> put_res_header n 4;
        n \<leftarrow> put_2 n a;
        n \<leftarrow> put_2 n v;
        send_msg n w
      }
      else Some (NMBS_ERROR_NONE, n, w))"

definition handle_write_single_coil ::
  "'w nmbs_t \<Rightarrow> 'w \<Rightarrow> (nmbs_error \<times> 'w nmbs_t \<times> 'w) option" where
  "handle_write_single_coil n w = do {
     (err, n, w) \<leftarrow> recv n 4 w;
     if err \<noteq> NMBS_ERROR_NONE then Some (err, n, w)
     else do {
       (address, n) \<leftarrow> get_2 n;
       (v, n) \<leftarrow> get_2 n;
       (err, n, w) \<leftarrow> recv_msg_footer n w;
       if err \<noteq> NMBS_ERROR_NONE then Some (err, n, w)
       else if \<not> ignored (msg n) then
         (case cb_write_single_coil (callbacks n) of
            None \<Rightarrow> refuse n NMBS_EXCEPTION_ILLEGAL_FUNCTION w
          | Some cb \<Rightarrow>
              if v \<noteq> 0 \<and> v \<noteq> 0xFF00 then refuse n NMBS_EXCEPTION_ILLEGAL_DATA_VALUE w
              else (case cb address (v \<noteq> 0) (unit_id (msg n)) (cb_arg (callbacks n)) w of (err, w) \<Rightarrow>
                if err \<noteq> NMBS_ERROR_NONE then callback_failed n err w
                else send_echo n address v w))
       else recv_write_single_coil_res n address v w
     }
   }"

definition handle_write_single_register ::
  "'w nmbs_t \<Rightarrow> 'w \<Rightarrow> (nmbs_error \<times> 'w nmbs_t \<times> 'w) option" where
  "handle_write_single_register n w = do {
     (err, n, w) \<leftarrow> recv n 4 w;
     if err \<noteq> NMBS_ERROR_NONE then Some (err, n, w)
     else do {
       (address, n) \<leftarrow> get_2 n;
       (v, n) \<leftarrow> get_2 n;
       (err, n, w) \<leftarrow> recv_msg_footer n w;
       if err \<noteq> NMBS_ERROR_NONE then Some (err, n, w)
       else if \<not> ignored (msg n) then
         (case cb_write_single_register (callbacks n) of
            None \<Rightarrow> refuse n NMBS_EXCEPTION_ILLEGAL_FUNCTION w
          | Some cb \<Rightarrow>
              (case cb address v (unit_id (msg n)) (cb_arg (callbacks n)) w of (err, w) \<Rightarrow>
                if err \<noteq> NMBS_ERROR_NONE then callback_failed n err w
                else send_echo n address v w))
       else recv_write_single_register_res n address v w
     }
   }"

definition handle_write_multiple_coils ::
  "'w nmbs_t \<Rightarrow> 'w \<Rightarrow> (nmbs_error \<times> 'w nmbs_t \<times> 'w) option" where
  "handle_write_multiple_coils n w = do {
     (err, n, w) \<leftarrow> recv n 5 w;
     if err \<noteq> NMBS_ERROR_NONE then Some (err, n, w)
     else do {
       (address, n) \<leftarrow> get_2 n;
       (quantity, n) \<leftarrow> get_2 n;
       (coils_bytes, n) \<leftarrow> get_1 n;
       if coils_bytes > 246 then Some (NMBS_ERROR_INVALID_REQUEST, n, w)
       else do {
         (err, n, w) \<leftarrow> recv n (ucast coils_bytes) w;
         if err \<noteq> NMBS_ERROR_NONE then Some (err, n, w)
         else do {
           (n, coils) \<leftarrow> get_bytes_loop (unat coils_bytes) 0 n (Some (replicate 250 0));
           coils \<leftarrow> coils;
           (err, n, w) \<leftarrow> recv_msg_footer n w;
           if err \<noteq> NMBS_ERROR_NONE then Some (err, n, w)
           else if \<not> ignored (msg n) then
             (if quantity < 1 \<or> quantity > 0x07B0 then refuse n NMBS_EXCEPTION_ILLEGAL_DATA_VALUE w
              else if beyond_address_space address quantity then refuse n NMBS_EXCEPTION_ILLEGAL_DATA_ADDRESS w
              else if coils_bytes = 0 then refuse n NMBS_EXCEPTION_ILLEGAL_DATA_VALUE w
              else if (unat quantity + 7) div 8 \<noteq> unat coils_bytes then refuse n NMBS_EXCEPTION_ILLEGAL_DATA_VALUE w
              else (case cb_write_multiple_coils (callbacks n) of
                 None \<Rightarrow> refuse n NMBS_EXCEPTION_ILLEGAL_FUNCTION w
               | Some cb \<Rightarrow>
                   (case cb address quantity coils (unit_id (msg n)) (cb_arg (callbacks n)) w of (err, w) \<Rightarrow>
                     if err \<noteq> NMBS_ERROR_NONE then callback_failed n err w
                     else send_echo n address quantity w)))
           else recv_write_multiple_coils_res n address quantity w
         }
       }
     }
   }"

text \<open>
  The local arrays of registers are not initialised; they start as zeros here, which no callback
  sees that reads as many elements as it is told.  The limit on \<open>registers_bytes\<close> is checked
  after the bytes were received.
\<close>

definition handle_write_multiple_registers ::
  "'w nmbs_t \<Rightarrow> 'w \<Rightarrow> (nmbs_error \<times> 'w nmbs_t \<times> 'w) option" where
  "handle_write_multiple_registers n w = do {
     (err, n, w) \<leftarrow> recv n 5 w;
     if err \<noteq> NMBS_ERROR_NONE then Some (err, n, w)
     else do {
       (address, n) \<leftarrow> get_2 n;
       (quantity, n) \<leftarrow> get_2 n;
       (registers_bytes, n) \<leftarrow> get_1 n;
       (err, n, w) \<leftarrow> recv n (ucast registers_bytes) w;
       if err \<noteq> NMBS_ERROR_NONE then Some (err, n, w)
       else if registers_bytes > 246 then Some (NMBS_ERROR_INVALID_REQUEST, n, w)
       else do {
         (n, registers) \<leftarrow> get_words_loop (unat registers_bytes div 2) 0 n (Some (replicate 123 0));
         registers \<leftarrow> registers;
         (err, n, w) \<leftarrow> recv_msg_footer n w;
         if err \<noteq> NMBS_ERROR_NONE then Some (err, n, w)
         else if \<not> ignored (msg n) then
           (if quantity < 1 \<or> quantity > 0x007B then refuse n NMBS_EXCEPTION_ILLEGAL_DATA_VALUE w
            else if beyond_address_space address quantity then refuse n NMBS_EXCEPTION_ILLEGAL_DATA_ADDRESS w
            else if registers_bytes = 0 then refuse n NMBS_EXCEPTION_ILLEGAL_DATA_VALUE w
            else if unat registers_bytes \<noteq> unat quantity * 2 then refuse n NMBS_EXCEPTION_ILLEGAL_DATA_VALUE w
            else (case cb_write_multiple_registers (callbacks n) of
               None \<Rightarrow> refuse n NMBS_EXCEPTION_ILLEGAL_FUNCTION w
             | Some cb \<Rightarrow>
                 (case cb address quantity registers (unit_id (msg n)) (cb_arg (callbacks n)) w of (err, w) \<Rightarrow>
                   if err \<noteq> NMBS_ERROR_NONE then callback_failed n err w
                   else send_echo n address quantity w)))
         else recv_write_multiple_registers_res n address quantity w
       }
     }
   }"

section \<open>File records\<close>

record file_subreq =
  reference_type :: u8
  file_number :: u16
  record_number :: u16
  record_length :: u16

text \<open>The loop that parses the sub-requests and sums \<open>response_data_size\<close>, on the passes left.\<close>

fun get_subreqs :: "nat \<Rightarrow> 'w nmbs_t \<Rightarrow> u8 \<Rightarrow> (file_subreq list \<times> u8 \<times> 'w nmbs_t) option" where
  "get_subreqs 0 n response_data_size = Some ([], response_data_size, n)"
| "get_subreqs (Suc k) n response_data_size = do {
     (t, n) \<leftarrow> get_1 n;
     (f, n) \<leftarrow> get_2 n;
     (r, n) \<leftarrow> get_2 n;
     (l, n) \<leftarrow> get_2 n;
     (rs, response_data_size, n) \<leftarrow> get_subreqs k n (response_data_size + (2 + ucast (l * 2)));
     Some (\<lparr>reference_type = t, file_number = f, record_number = r, record_length = l\<rparr> # rs, response_data_size, n)
   }"

definition subreq_invalid :: "u16 \<Rightarrow> file_subreq \<Rightarrow> bool" where
  "subreq_invalid max_length r \<longleftrightarrow> reference_type r \<noteq> 0x06 \<or> file_number r = 0x0000 \<or>
     record_number r > 0x270F \<or> record_length r > max_length"

text \<open>
  The loop that fills the response.  Each callback writes its registers, in host order, through a
  pointer into the message buffer.  The first result is \<open>Some err\<close> for a \<^verbatim>\<open>return err\<close> from the loop.
\<close>

fun read_records_loop ::
  "'w read_file_cb \<Rightarrow> file_subreq list \<Rightarrow> 'w nmbs_t \<Rightarrow> 'w \<Rightarrow> (nmbs_error option \<times> 'w nmbs_t \<times> 'w) option" where
  "read_records_loop cb [] n w = Some (None, n, w)"
| "read_records_loop cb (r # rs) n w = do {
     let subreq_data_size = record_length r * 2;
     n \<leftarrow> put_1 n (ucast (subreq_data_size + 1));
     n \<leftarrow> put_1 n 0x06;
     let (subreq_data, n) = get_n n subreq_data_size;
     bytes \<leftarrow> buf_slice (mbuf n) subreq_data (unat subreq_data_size);
     (case cb (file_number r) (record_number r) (host_words bytes) (record_length r)
            (unit_id (msg n)) (cb_arg (callbacks n)) w of
        (err, regs, w) \<Rightarrow> do {
          buf \<leftarrow> buf_splice (mbuf n) subreq_data (host_bytes regs);
          let n = set_buf n buf;
          if err \<noteq> NMBS_ERROR_NONE then do {
            (err, n, w) \<leftarrow> callback_failed n err w;
            Some (Some err, n, w)
          }
          else do {
            buf \<leftarrow> swap_regs (mbuf n) subreq_data (unat (record_length r));
            read_records_loop cb rs (set_buf n buf) w
          }
        })
   }"

definition handle_read_file_record ::
  "'w nmbs_t \<Rightarrow> 'w \<Rightarrow> (nmbs_error \<times> 'w nmbs_t \<times> 'w) option" where
  "handle_read_file_record n w = do {
     (err, n, w) \<leftarrow> recv n 1 w;
     if err \<noteq> NMBS_ERROR_NONE then Some (err, n, w)
     else do {
       (request_size, n) \<leftarrow> get_1 n;
       if request_size > 245 then Some (NMBS_ERROR_INVALID_REQUEST, n, w)
       else do {
         (err, n, w) \<leftarrow> recv n (ucast request_size) w;
         if err \<noteq> NMBS_ERROR_NONE then Some (err, n, w)
         else do {
           let subreq_count = request_size div 7;
           (subreq, response_data_size, n) \<leftarrow> get_subreqs (unat subreq_count) n 0;
           let n = discard_n n (ucast (request_size mod 7));
           (err, n, w) \<leftarrow> recv_msg_footer n w;
           if err \<noteq> NMBS_ERROR_NONE then Some (err, n, w)
           else if \<not> ignored (msg n) then
             (if request_size mod 7 \<noteq> 0 then refuse n NMBS_EXCEPTION_ILLEGAL_DATA_VALUE w
              else if request_size < 0x07 \<or> request_size > 0xF5 then refuse n NMBS_EXCEPTION_ILLEGAL_DATA_VALUE w
              else if list_ex (subreq_invalid 124) subreq then refuse n NMBS_EXCEPTION_ILLEGAL_DATA_ADDRESS w
              else do {
                n \<leftarrow> put_res_header n (1 + ucast response_data_size);
                n \<leftarrow> put_1 n response_data_size;
                (case cb_read_file_record (callbacks n) of
                   None \<Rightarrow> refuse n NMBS_EXCEPTION_ILLEGAL_FUNCTION w
                 | Some cb \<Rightarrow> do {
                     (early, n, w) \<leftarrow> read_records_loop cb subreq n w;
                     (case early of
                        Some err \<Rightarrow> Some (err, n, w)
                      | None \<Rightarrow> if \<not> broadcast (msg n) then send_msg n w else Some (NMBS_ERROR_NONE, n, w))
                   })
              })
           else drop_out (recv_read_file_record_res n None 0 w)
         }
       }
     }
   }"

text \<open>The two \<^verbatim>\<open>do\<close> loops of the write request; \<^verbatim>\<open>size\<close> is an \<^verbatim>\<open>uint16_t\<close> that may wrap.\<close>

partial_function (option) check_records_loop ::
  "'w nmbs_t \<times> u16 \<Rightarrow> (bool \<times> u16 \<times> 'w nmbs_t) option" where
  "check_records_loop vars = (case vars of (n, sz) \<Rightarrow> do {
     (t, n) \<leftarrow> get_1 n;
     (f, n) \<leftarrow> get_2 n;
     (r, n) \<leftarrow> get_2 n;
     (l, n) \<leftarrow> get_2 n;
     let n = discard_n n (l * 2);
     if subreq_invalid 122 \<lparr>reference_type = t, file_number = f, record_number = r, record_length = l\<rparr>
     then Some (True, sz, n)
     else
       let sz = sz - (7 + l * 2) in
       if sz \<ge> 7 then check_records_loop (n, sz) else Some (False, sz, n)
   })"

partial_function (option) write_records_loop ::
  "'w nmbs_t \<times> u16 \<times> 'w \<Rightarrow> (nmbs_error option \<times> 'w nmbs_t \<times> 'w) option" where
  "write_records_loop vars = (case vars of (n, sz, w) \<Rightarrow> do {
     let n = discard_1 n;
     (f, n) \<leftarrow> get_2 n;
     (r, n) \<leftarrow> get_2 n;
     (l, n) \<leftarrow> get_2 n;
     (subreq_data, n) \<leftarrow> get_regs n l;
     (case cb_write_file_record (callbacks n) of
        None \<Rightarrow> do {
          (err, n, w) \<leftarrow> refuse n NMBS_EXCEPTION_ILLEGAL_FUNCTION w;
          Some (Some err, n, w)
        }
      | Some cb \<Rightarrow> do {
          bytes \<leftarrow> buf_slice (mbuf n) subreq_data (2 * unat l);
          (case cb f r (host_words bytes) l (unit_id (msg n)) (cb_arg (callbacks n)) w of (err, w) \<Rightarrow>
             if err \<noteq> NMBS_ERROR_NONE then do {
               (err, n, w) \<leftarrow> callback_failed n err w;
               Some (Some err, n, w)
             }
             else do {
               buf \<leftarrow> swap_regs (mbuf n) subreq_data (unat l);
               let n = set_buf n buf;
               let sz = sz - (7 + l * 2);
               if sz \<ge> 7 then write_records_loop (n, sz, w) else Some (None, n, w)
             })
        })
   })"

definition set_buf_idx :: "'w nmbs_t \<Rightarrow> u16 \<Rightarrow> 'w nmbs_t" where
  "set_buf_idx n i = n\<lparr>msg := (msg n)\<lparr>buf_idx := i\<rparr>\<rparr>"

definition handle_write_file_record ::
  "'w nmbs_t \<Rightarrow> 'w \<Rightarrow> (nmbs_error \<times> 'w nmbs_t \<times> 'w) option" where
  "handle_write_file_record n w = do {
     (err, n, w) \<leftarrow> recv n 1 w;
     if err \<noteq> NMBS_ERROR_NONE then Some (err, n, w)
     else do {
       (request_size, n) \<leftarrow> get_1 n;
       if request_size > 251 then Some (NMBS_ERROR_INVALID_REQUEST, n, w)
       else do {
         (err, n, w) \<leftarrow> recv n (ucast request_size) w;
         if err \<noteq> NMBS_ERROR_NONE then Some (err, n, w)
         else do {
           let msg_buf_idx = buf_idx (msg n);
           let n = discard_n n (ucast request_size);
           (err, n, w) \<leftarrow> recv_msg_footer n w;
           if err \<noteq> NMBS_ERROR_NONE then Some (err, n, w)
           else if \<not> ignored (msg n) then do {
             let n = set_buf_idx n msg_buf_idx;
             if request_size < 7 then refuse n NMBS_EXCEPTION_ILLEGAL_DATA_VALUE w
             else do {
               (bad, sz, n) \<leftarrow> check_records_loop (n, ucast request_size);
               if bad then refuse n NMBS_EXCEPTION_ILLEGAL_DATA_ADDRESS w
               else if sz \<noteq> 0 then refuse n NMBS_EXCEPTION_ILLEGAL_DATA_VALUE w
               else do {
                 (early, n, w) \<leftarrow> write_records_loop (set_buf_idx n msg_buf_idx, ucast request_size, w);
                 (case early of
                    Some err \<Rightarrow> Some (err, n, w)
                  | None \<Rightarrow>
                      if \<not> broadcast (msg n)
                      then send_msg (discard_n (set_buf_idx n msg_buf_idx) (ucast request_size)) w
                      else Some (NMBS_ERROR_NONE, n, w))
               }
             }
           }
           else recv_write_file_record_res n 0 0 None 0 w
         }
       }
     }
   }"

section \<open>Reading and writing in one request\<close>

definition handle_read_write_registers ::
  "'w nmbs_t \<Rightarrow> 'w \<Rightarrow> (nmbs_error \<times> 'w nmbs_t \<times> 'w) option" where
  "handle_read_write_registers n w = do {
     (err, n, w) \<leftarrow> recv n 9 w;
     if err \<noteq> NMBS_ERROR_NONE then Some (err, n, w)
     else do {
       (read_address, n) \<leftarrow> get_2 n;
       (read_quantity, n) \<leftarrow> get_2 n;
       (write_address, n) \<leftarrow> get_2 n;
       (write_quantity, n) \<leftarrow> get_2 n;
       (byte_count_write, n) \<leftarrow> get_1 n;
       if byte_count_write > 242 then Some (NMBS_ERROR_INVALID_REQUEST, n, w)
       else do {
         (err, n, w) \<leftarrow> recv n (ucast byte_count_write) w;
         if err \<noteq> NMBS_ERROR_NONE then Some (err, n, w)
         else do {
           (n, registers) \<leftarrow> get_words_loop (unat byte_count_write div 2) 0 n
              (Some (replicate (unat byte_count_write div 2) 0));
           registers \<leftarrow> registers;
           (err, n, w) \<leftarrow> recv_msg_footer n w;
           if err \<noteq> NMBS_ERROR_NONE then Some (err, n, w)
           else if \<not> ignored (msg n) then
             (if read_quantity < 1 \<or> read_quantity > 0x007D then refuse n NMBS_EXCEPTION_ILLEGAL_DATA_VALUE w
              else if write_quantity < 1 \<or> write_quantity > 0x007B then refuse n NMBS_EXCEPTION_ILLEGAL_DATA_VALUE w
              else if unat byte_count_write \<noteq> unat write_quantity * 2 then refuse n NMBS_EXCEPTION_ILLEGAL_DATA_VALUE w
              else if beyond_address_space read_address read_quantity then refuse n NMBS_EXCEPTION_ILLEGAL_DATA_ADDRESS w
              else if beyond_address_space write_address write_quantity then refuse n NMBS_EXCEPTION_ILLEGAL_DATA_ADDRESS w
              else (case (cb_write_multiple_registers (callbacks n), cb_read_holding_registers (callbacks n)) of
                 (Some wcb, Some rcb) \<Rightarrow>
                   (case wcb write_address write_quantity registers (unit_id (msg n)) (cb_arg (callbacks n)) w of (err, w) \<Rightarrow>
                      if err \<noteq> NMBS_ERROR_NONE then callback_failed n err w
                      else if \<not> broadcast (msg n) then
                        (case rcb read_address read_quantity (replicate (unat read_quantity) 0)
                               (unit_id (msg n)) (cb_arg (callbacks n)) w of
                           (err, regs, w) \<Rightarrow>
                             if err \<noteq> NMBS_ERROR_NONE then callback_failed n err w
                             else do {
                               let regs_bytes = (ucast (read_quantity * 2) :: u8);
                               n \<leftarrow> put_res_header n (1 + ucast regs_bytes);
                               n \<leftarrow> put_1 n regs_bytes;
                               n \<leftarrow> put_words_loop (unat read_quantity) 0 n regs;
                               send_msg n w
                             })
                      else Some (NMBS_ERROR_NONE, n, w))
               | _ \<Rightarrow> refuse n NMBS_EXCEPTION_ILLEGAL_FUNCTION w))
           else recv_write_multiple_registers_res n write_address write_quantity w
         }
       }
     }
   }"

section \<open>Device identification\<close>

definition NMBS_DEVICE_IDENTIFICATION_STRING_LENGTH :: nat where
  "NMBS_DEVICE_IDENTIFICATION_STRING_LENGTH = 128"

fun strlen :: "u8 list \<Rightarrow> nat option" where
  "strlen [] = None"
| "strlen (c # str) = (if c = 0 then Some 0 else map_option Suc (strlen str))"

text \<open>
  The callback fills the local \<^verbatim>\<open>str\<close>, whose first character was cleared; its other characters
  start as NULs here.  The object is its id, its length and its characters.
\<close>

definition identify ::
  "'w read_id_cb \<Rightarrow> u8 \<Rightarrow> 'w \<Rightarrow> nmbs_error \<times> u8 list \<times> 'w" where
  "identify cb object_id w = cb object_id (replicate NMBS_DEVICE_IDENTIFICATION_STRING_LENGTH 0) w"

definition put_object :: "'w nmbs_t \<Rightarrow> u8 \<Rightarrow> u8 list \<Rightarrow> nat \<Rightarrow> 'w nmbs_t option" where
  "put_object n object_id str str_len = do {
     n \<leftarrow> put_1 n object_id;
     n \<leftarrow> put_1 n (of_nat str_len);
     put_n n str (of_nat str_len)
   }"

text \<open>The local variables of the loop over the objects, and the loop on the number of ids left.\<close>

record id_progress =
  res_size_left :: i16
  msg_size :: u8
  res_more_follows :: u8
  res_next_object_id :: u8
  res_number_of_objects :: u8

fun put_objects_loop ::
  "'w read_id_cb \<Rightarrow> nmbs_bitfield \<Rightarrow> nat \<Rightarrow> u16 \<Rightarrow> id_progress \<Rightarrow> 'w nmbs_t \<Rightarrow> 'w \<Rightarrow>
     (nmbs_error option \<times> id_progress \<times> 'w nmbs_t \<times> 'w) option" where
  "put_objects_loop cb id_map 0 ident p n w = Some (None, p, n, w)"
| "put_objects_loop cb id_map (Suc k) ident p n w = do {
     present \<leftarrow> nmbs_bitfield_read id_map (unat ident);
     if \<not> present then
       (if ident < 0x03 then do {
          (err, n, w) \<leftarrow> refuse n NMBS_EXCEPTION_SERVER_DEVICE_FAILURE w;
          Some (Some err, p, n, w)
        }
        else put_objects_loop cb id_map k (ident + 1) p n w)
     else (case identify cb (ucast ident) w of (err, str, w) \<Rightarrow>
       if err \<noteq> NMBS_ERROR_NONE then do {
         (err, n, w) \<leftarrow> callback_failed n err w;
         Some (Some err, p, n, w)
       }
       else do {
         str_len \<leftarrow> strlen str;
         let p = p\<lparr>res_size_left := res_size_left p - 2 - of_nat str_len\<rparr>;
         if res_size_left p <s 0
         then Some (None, p\<lparr>res_more_follows := 0xFF, res_next_object_id := ucast ident\<rparr>, n, w)
         else do {
           n \<leftarrow> put_object n (ucast ident) str str_len;
           put_objects_loop cb id_map k (ident + 1)
             (p\<lparr>msg_size := msg_size p + (2 + of_nat str_len), res_number_of_objects := res_number_of_objects p + 1\<rparr>) n w
         }
       })
   }"

text \<open>The \<^verbatim>\<open>switch\<close>: the last id of a category, or \<open>None\<close> for an id outside of it.\<close>

definition last_object_id :: "u8 \<Rightarrow> u8 \<Rightarrow> u8 option" where
  "last_object_id read_device_id_code object_id =
     (if read_device_id_code = 1 then (if object_id > 0x02 then None else Some 0x02)
      else if read_device_id_code = 2 then (if object_id < 0x03 \<or> object_id > 0x07 then None else Some 0x07)
      else if read_device_id_code = 3 then (if object_id < 0x80 then None else Some 0xFF)
      else Some 0)"

definition send_one_object ::
  "'w nmbs_t \<Rightarrow> 'w read_id_cb \<Rightarrow> nmbs_bitfield \<Rightarrow> u8 \<Rightarrow> 'w \<Rightarrow> (nmbs_error \<times> 'w nmbs_t \<times> 'w) option" where
  "send_one_object n cb id_map object_id w = do {
     present \<leftarrow> nmbs_bitfield_read id_map (unat object_id);
     if \<not> present then refuse n NMBS_EXCEPTION_ILLEGAL_DATA_ADDRESS w
     else do {
       n \<leftarrow> put_1 n 0;
       n \<leftarrow> put_1 n 0;
       n \<leftarrow> put_1 n 1;
       (case identify cb object_id w of (err, str, w) \<Rightarrow>
          if err \<noteq> NMBS_ERROR_NONE then callback_failed n err w
          else do {
            str_len \<leftarrow> strlen str;
            n \<leftarrow> put_object n object_id str str_len;
            n \<leftarrow> set_msg_header_size n (6 + 2 + of_nat str_len);
            send_msg n w
          })
     }
   }"

definition send_objects ::
  "'w nmbs_t \<Rightarrow> 'w read_id_cb \<Rightarrow> nmbs_bitfield \<Rightarrow> u8 \<Rightarrow> u8 \<Rightarrow> 'w \<Rightarrow> (nmbs_error \<times> 'w nmbs_t \<times> 'w) option" where
  "send_objects n cb id_map read_device_id_code object_id w = do {
     let more_follows_idx = (ucast (buf_idx (msg n)) :: u8);
     n \<leftarrow> put_1 n 0;
     let next_object_id_idx = (ucast (buf_idx (msg n)) :: u8);
     n \<leftarrow> put_1 n 0;
     let number_of_objects_idx = (ucast (buf_idx (msg n)) :: u8);
     n \<leftarrow> put_1 n 0;
     (case last_object_id read_device_id_code object_id of
        None \<Rightarrow> refuse n NMBS_EXCEPTION_ILLEGAL_DATA_ADDRESS w
      | Some last_id \<Rightarrow> do {
          (early, p, n, w) \<leftarrow> put_objects_loop cb id_map (Suc (unat last_id) - unat object_id) (ucast object_id)
            \<lparr>res_size_left = 253 - 7, msg_size = 6, res_more_follows = 0, res_next_object_id = 0, res_number_of_objects = 0\<rparr> n w;
          (case early of
             Some err \<Rightarrow> Some (err, n, w)
           | None \<Rightarrow> do {
               n \<leftarrow> set_1 n (res_more_follows p) more_follows_idx;
               n \<leftarrow> set_1 n (res_next_object_id p) next_object_id_idx;
               n \<leftarrow> set_1 n (res_number_of_objects p) number_of_objects_idx;
               n \<leftarrow> set_msg_header_size n (ucast (msg_size p));
               send_msg n w
             })
        })
   }"

definition handle_read_device_identification ::
  "'w nmbs_t \<Rightarrow> 'w \<Rightarrow> (nmbs_error \<times> 'w nmbs_t \<times> 'w) option" where
  "handle_read_device_identification n w = do {
     (err, n, w) \<leftarrow> recv n 3 w;
     if err \<noteq> NMBS_ERROR_NONE then Some (err, n, w)
     else do {
       (mei_type, n) \<leftarrow> get_1 n;
       (read_device_id_code, n) \<leftarrow> get_1 n;
       (object_id, n) \<leftarrow> get_1 n;
       (err, n, w) \<leftarrow> recv_msg_footer n w;
       if err \<noteq> NMBS_ERROR_NONE then Some (err, n, w)
       else if \<not> ignored (msg n) then
         (case (cb_read_device_identification_map (callbacks n), cb_read_device_identification (callbacks n)) of
            (Some mcb, Some cb) \<Rightarrow>
              if mei_type \<noteq> 0x0E then refuse n NMBS_EXCEPTION_ILLEGAL_FUNCTION w
              else if read_device_id_code < 1 \<or> read_device_id_code > 4
              then refuse n NMBS_EXCEPTION_ILLEGAL_DATA_VALUE w
              else if object_id > 6 \<and> object_id < 0x80 then refuse n NMBS_EXCEPTION_ILLEGAL_DATA_ADDRESS w
              else if \<not> broadcast (msg n) then
                (case mcb (replicate 32 0) w of (err, id_map, w) \<Rightarrow>
                   if err \<noteq> NMBS_ERROR_NONE then callback_failed n err w
                   else do {
                     n \<leftarrow> put_res_header n 0;
                     n \<leftarrow> put_1 n 0x0E;
                     n \<leftarrow> put_1 n read_device_id_code;
                     n \<leftarrow> put_1 n 0x83;
                     if read_device_id_code = 4 then send_one_object n cb id_map object_id w
                     else send_objects n cb id_map read_device_id_code object_id w
                   })
              else Some (NMBS_ERROR_NONE, n, w)
          | _ \<Rightarrow> refuse n NMBS_EXCEPTION_ILLEGAL_FUNCTION w)
       else drop_out (recv_read_device_identification_res n 0 None 0 None None None None w)
     }
   }"

section \<open>Dispatch\<close>

definition handle_req_fc :: "'w nmbs_t \<Rightarrow> 'w \<Rightarrow> (nmbs_error \<times> 'w nmbs_t \<times> 'w) option" where
  "handle_req_fc n w = (let fc = msg_fc (msg n) in
     if fc = 1 then handle_read_coils n w
     else if fc = 2 then handle_read_discrete_inputs n w
     else if fc = 3 then handle_read_holding_registers n w
     else if fc = 4 then handle_read_input_registers n w
     else if fc = 5 then handle_write_single_coil n w
     else if fc = 6 then handle_write_single_register n w
     else if fc = 15 then handle_write_multiple_coils n w
     else if fc = 16 then handle_write_multiple_registers n w
     else if fc = 20 then handle_read_file_record n w
     else if fc = 21 then handle_write_file_record n w
     else if fc = 23 then handle_read_write_registers n w
     else if fc = 43 then handle_read_device_identification n w
     else do {
       (n, w) \<leftarrow> flush n w;
       if \<not> ignored (msg n) \<and> \<not> broadcast (msg n) then refuse n NMBS_EXCEPTION_ILLEGAL_FUNCTION w
       else Some (NMBS_ERROR_NONE, n, w)
     })"

section \<open>The public interface\<close>

definition nmbs_callbacks_create :: "'w nmbs_callbacks" where
  "nmbs_callbacks_create = zero_callbacks\<lparr>cb_initialized := INITIALIZED\<rparr>"

text \<open>\<open>platform_conf\<close> is read before \<open>nmbs_create\<close> checks it for NULL.\<close>

definition nmbs_server_create ::
  "'w nmbs_t option \<Rightarrow> u8 \<Rightarrow> 'w nmbs_platform_conf option \<Rightarrow> 'w nmbs_callbacks option \<Rightarrow>
     (nmbs_error \<times> 'w nmbs_t option) option" where
  "nmbs_server_create nmbs address platform_conf cbs = do {
     conf \<leftarrow> platform_conf;
     if transport conf = NMBS_TRANSPORT_RTU \<and> address = 0 then Some (NMBS_ERROR_INVALID_ARGUMENT, nmbs)
     else (case cbs of
        None \<Rightarrow> Some (NMBS_ERROR_INVALID_ARGUMENT, nmbs)
      | Some c \<Rightarrow>
          if cb_initialized c \<noteq> INITIALIZED then Some (NMBS_ERROR_INVALID_ARGUMENT, nmbs)
          else (case nmbs_create nmbs (Some conf) of (ret, nmbs) \<Rightarrow>
            if ret \<noteq> NMBS_ERROR_NONE then Some (ret, nmbs)
            else do {
              n \<leftarrow> nmbs;
              Some (NMBS_ERROR_NONE, Some (n\<lparr>address_rtu := address, callbacks := c\<rparr>))
            }))
   }"

definition nmbs_server_poll :: "'w nmbs_t \<Rightarrow> 'w \<Rightarrow> (nmbs_error \<times> 'w nmbs_t \<times> 'w) option" where
  "nmbs_server_poll n w = do {
     let n = msg_state_reset n;
     (err, first_byte_received, n, w) \<leftarrow> recv_req_header n w;
     if err \<noteq> NMBS_ERROR_NONE then
       (if \<not> first_byte_received \<and> err = NMBS_ERROR_TIMEOUT then Some (NMBS_ERROR_NONE, n, w)
        else Some (err, n, w))
     else do {
       (err, n, w) \<leftarrow> handle_req_fc n w;
       if err \<noteq> NMBS_ERROR_NONE then
         (if err \<noteq> NMBS_ERROR_TIMEOUT then do {
            (n, w) \<leftarrow> flush n w;
            Some (err, n, w)
          }
          else Some (err, n, w))
       else Some (NMBS_ERROR_NONE, n, w)
     }
   }"

definition nmbs_set_callbacks_arg :: "'w nmbs_t \<Rightarrow> void_ptr \<Rightarrow> 'w nmbs_t" where
  "nmbs_set_callbacks_arg n a = n\<lparr>callbacks := (callbacks n)\<lparr>cb_arg := a\<rparr>\<rparr>"

end
