(* ===== verification/Server_Wire.thy ===== *)
theory Server_Wire
  imports Modbus_Server Modbus_Exchange
begin

text \<open>
  The server on a wire whose bytes are known: the platform hands over the received bytes in
  order and keeps the frames that the server sends.  Reading from the message buffer then is a
  function of the received bytes, so that the handlers can be computed.
\<close>

section \<open>The wire\<close>

text \<open>\<open>rx\<close> has arrived and was not read yet, \<open>tx\<close> are the frames sent so far, \<open>app\<close> is the state of the user's callbacks.\<close>

record 'a wire =
  rx :: "u8 list"
  tx :: "u8 list list"
  app :: 'a

definition wire_read :: "'a wire transport_read" where
  "wire_read buf count timeout a w = do {
     b \<leftarrow> buf;
     let k = min (unat count) (length (rx w));
     b \<leftarrow> buf_splice b 0 (take k (rx w));
     Some (of_nat k, Some b, w\<lparr>rx := drop k (rx w)\<rparr>)
   }"

definition wire_write :: "'a wire transport_write" where
  "wire_write buf count timeout a w = do {
     b \<leftarrow> buf;
     frame \<leftarrow> buf_slice b 0 (unat count);
     Some (ucast count, w\<lparr>tx := tx w @ [frame]\<rparr>)
   }"

section \<open>Received bytes that were not parsed yet\<close>

definition load :: "'w nmbs_t \<Rightarrow> u8 list \<Rightarrow> 'w nmbs_t" where
  "load n p = set_buf n (take (cursor n) (mbuf n) @ p @ drop (cursor n + length p) (mbuf n))"

lemma load_Nil [simp]: "load n [] = n"
  by (simp add: load_def)

lemma load_fields [simp]:
  "platform (load n p) = platform n" "msg_fc (msg (load n p)) = msg_fc (msg n)"
  "unit_id (msg (load n p)) = unit_id (msg n)" "complete (msg (load n p)) = complete (msg n)"
  "ignored (msg (load n p)) = ignored (msg n)" "broadcast (msg (load n p)) = broadcast (msg n)"
  "callbacks (load n p) = callbacks n" "address_rtu (load n p) = address_rtu n"
  "cursor (load n p) = cursor n" "byte_timeout_ms (load n p) = byte_timeout_ms n"
  by (simp_all add: load_def)

lemma load_Cons:
  assumes "room n (length (b # p))"
  shows "advance (load n (b # p)) 1 = load (emit n [b]) p"
proof -
  have c: "cursor (emit n [b]) = Suc (cursor n)"
    using room_mono [OF assms, of 1] by (subst cursor_emit) simp_all
  have "load (emit n [b]) p = set_buf (emit n [b])
      (take (cursor n) (mbuf n) @ b # p @ drop (cursor n + length (b # p)) (mbuf n))"
    using assms by (simp add: load_def c mbuf_emit room_def wf_nmbs_def add.commute)
  then show ?thesis by (simp add: load_def emit_def advance_def set_buf_def)
qed

lemma get_1_load [simp]:
  assumes "room n (Suc (length p))"
  shows "get_1 (load n (b # p)) = Some (b, load (emit n [b]) p)"
proof -
  have "mbuf (load n (b # p)) ! cursor n = b" "cursor n < length (mbuf (load n (b # p)))"
    using assms by (simp_all add: load_def room_def wf_nmbs_def nth_append)
  then show ?thesis
    using load_Cons [of n b p] assms by (simp add: get_1_def buf_get_in)
qed

lemma get_2_load [simp]:
  assumes "room n (Suc (Suc (length p)))"
  shows "get_2 (load n (h # l # p)) = Some (word_of_bytes h l, load (emit n [h, l]) p)"
proof -
  let ?b = "mbuf (load n (h # l # p))"
  have nth: "?b ! cursor n = h" "?b ! Suc (cursor n) = l" "Suc (cursor n) < length ?b"
    using assms by (simp_all add: load_def room_def wf_nmbs_def nth_append)
  have room1: "room n 1" "room (emit n [h]) (Suc (length p))"
    using assms room_mono [OF assms, of 1] by (simp_all add: room_emit)
  have "advance (load n (h # l # p)) 2 = advance (advance (load n (h # l # p)) 1) 1"
    by (simp add: advance_def add.assoc)
  also have "\<dots> = load (emit (emit n [h]) [l]) p"
    using assms load_Cons [of n h "l # p"] load_Cons [of "emit n [h]" l p] room1 by simp
  also have "emit (emit n [h]) [l] = emit n [h, l]"
    using emit_emit [of n "[h]" "[l]"] room_mono [OF assms, of 2] by (simp add: numeral_2_eq_2)
  finally show ?thesis
    using nth by (simp add: get_2_def buf_get_in)
qed

lemma room_load [simp]: "room n (length p) \<Longrightarrow> room (load n p) k = room n k"
  by (auto simp: room_def load_def wf_nmbs_def)

section \<open>Receiving\<close>

text \<open>An RTU instance on the wire in the middle of a message, with the bytes \<open>xs\<close> read.\<close>

definition at :: "'a wire nmbs_t \<Rightarrow> u8 list \<Rightarrow> bool" where
  "at n xs \<longleftrightarrow> rtu_conf wire_read wire_write (platform n) \<and> inst_ok n \<and> seen n = xs \<and> \<not> complete (msg n)"

lemma at_room: "at n xs \<Longrightarrow> length xs + k \<le> 260 \<Longrightarrow> room n k"
  using length_seen [of n] by (auto simp: at_def room_def inst_ok_def)

lemma seen_emit: "room n (length ys) \<Longrightarrow> seen (emit n ys) = seen n @ ys"
  by (simp add: seen_def mbuf_emit room_def wf_nmbs_def)

lemma at_emit: "at n xs \<Longrightarrow> length xs + length ys \<le> 260 \<Longrightarrow> at (emit n ys) (xs @ ys)"
  using at_room [of n xs "length ys"] length_seen [of n]
  by (auto simp: at_def seen_emit inst_ok_def room_def wf_nmbs_def mbuf_emit)

lemma recv_load:
  assumes "at n xs" "rx w = p @ q" "length p = unat count" "length xs + length p \<le> 260"
  shows "recv n count w = Some (NMBS_ERROR_NONE, load n p, w\<lparr>rx := q\<rparr>)"
proof -
  have c: "cursor n = length xs" "length (mbuf n) = 260"
    using assms(1) length_seen [of n] by (auto simp: at_def inst_ok_def wf_nmbs_def)
  have "(of_nat (unat count) :: i32) = ucast count" by (simp only: of_nat_unat)
  moreover have "unat count \<le> 260 - length xs" using assms(3,4) by simp
  ultimately show ?thesis
    using assms c
    by (simp add: recv_def at_def platform_read_def rtu_conf_def wire_read_def buf_splice_def load_def
        transport_result_def Let_def add.commute)
qed

text \<open>\<open>recv\<close> of fewer bytes than asked for is a timeout.\<close>

lemma recv_short:
  assumes "at n xs" "length (rx w) < unat count" "length xs + unat count \<le> 260"
  shows "recv n count w = Some (NMBS_ERROR_TIMEOUT, load n (rx w), w\<lparr>rx := []\<rparr>)"
proof -
  have c: "cursor n = length xs" "length (mbuf n) = 260"
    using assms(1) length_seen [of n] by (auto simp: at_def inst_ok_def wf_nmbs_def)
  have k: "length (rx w) < 2 ^ 16" using assms(2) unsigned_less [of count, where ?'a = nat] by simp
  then have r: "unat (of_nat (length (rx w)) :: i32) = length (rx w)" by (intro unat_of_nat_less) simp
  have c': "unat (ucast count :: i32) = unat count"
    using unsigned_less [of count, where ?'a = nat] by (simp add: unat_ucast)
  have count: "unat count < 2 ^ 16" using unsigned_less [of count, where ?'a = nat] by simp
  have sint: "sint x = int (unat x)" if "unat x < 2 ^ 16" for x :: i32
    using that sint_eq_uint_small [of x] by simp
  have lt: "int (length (rx w)) < uint count" using assms(2) by (metis of_nat_less_iff uint_nat)
  have s: "sint (of_nat (length (rx w)) :: i32) = int (length (rx w))"
    using sint [of "of_nat (length (rx w))"] k by (simp only: r)
  have s': "sint (ucast count :: i32) = int (unat count)"
    using sint [of "ucast count"] count by (simp only: c')
  have "transport_result (of_nat (length (rx w))) count = NMBS_ERROR_TIMEOUT"
    using s s' lt by (auto simp: transport_result_def word_sless_alt)
  moreover have "length (rx w) \<le> 260 - length xs" using assms(2,3) by simp
  ultimately show ?thesis
    using assms c
    by (simp add: recv_def at_def platform_read_def rtu_conf_def wire_read_def buf_splice_def load_def Let_def add.commute)
qed

lemma recv_msg_footer_wire:
  assumes n: "at n xs" and len: "length xs + 2 \<le> 260" and w: "rx w = [h, l] @ q"
  shows "recv_msg_footer n w = Some (if [h, l] = crc_bytes xs then NMBS_ERROR_NONE else NMBS_ERROR_CRC,
    emit n [h, l], w\<lparr>rx := q\<rparr>)"
proof -
  have two: "get_2 (load n [h, l]) = Some (word_of_bytes h l, emit n [h, l])"
    using get_2_load [of n "[]" h l] at_room [OF n, of 2] len by (simp add: numeral_2_eq_2)
  have conf: "rtu_conf wire_read wire_write (platform n)" "inst_ok n" "seen n = xs"
    using n by (simp_all add: at_def)
  have "transport (platform n) = 1" using conf(1) by (simp add: rtu_conf_def)
  then show ?thesis
    using recv_load [OF n w, of 2] len platform_crc_seen [OF conf(1,2)]
    by (simp add: recv_msg_footer_def conf(3) two crc_bytes_iff)
qed

section \<open>Parsing\<close>

lemma get_2_be16 [simp]:
  "room n (2 + length p) \<Longrightarrow> get_2 (load n (be16 x @ p)) = Some (x, load (emit n (be16 x)) p)"
  by (simp add: be16_def)

lemma get_2_last [simp]: "room n 2 \<Longrightarrow> get_2 (load n (be16 x)) = Some (x, emit n (be16 x))"
  using get_2_be16 [of n "[]" x] by simp

lemma get_1_last [simp]: "room n 1 \<Longrightarrow> get_1 (load n [b]) = Some (b, emit n [b])"
  using get_1_load [of n "[]" b] by simp

lemma get_words_load:
  "room n (2 * length ws) \<Longrightarrow> i + length ws \<le> length xs \<Longrightarrow>
   get_words_loop (length ws) i (load n (concat (map be16 ws))) (Some xs) =
     Some (emit n (concat (map be16 ws)), Some (take i xs @ ws @ drop (i + length ws) xs))"
proof (induction ws arbitrary: n i xs)
  case Nil
  then show ?case by (simp add: emit_def set_buf_def advance_def)
next
  case (Cons x ws)
  have "xs[i := x] = take i xs @ x # drop (Suc i) xs"
    using Cons.prems(2) by (simp add: upd_conv_take_nth_drop)
  moreover have "emit (emit n (be16 x)) (concat (map be16 ws)) = emit n (be16 x @ concat (map be16 ws))"
    using Cons.prems(1) by (intro emit_emit) (simp add: room_def)
  ultimately show ?case
    using Cons.prems Cons.IH [of "emit n (be16 x)" "Suc i" "xs[i := x]"]
    by (simp add: buf_set_def room_mono add.commute)
qed

lemma get_bytes_load:
  "room n (length bs) \<Longrightarrow> i + length bs \<le> length xs \<Longrightarrow>
   get_bytes_loop (length bs) i (load n bs) (Some xs) =
     Some (emit n bs, Some (take i xs @ bs @ drop (i + length bs) xs))"
proof (induction bs arbitrary: n i xs)
  case Nil
  then show ?case by (simp add: emit_def set_buf_def advance_def)
next
  case (Cons x bs)
  have "xs[i := x] = take i xs @ x # drop (Suc i) xs"
    using Cons.prems(2) by (simp add: upd_conv_take_nth_drop)
  moreover have "emit (emit n [x]) bs = emit n (x # bs)"
    using Cons.prems(1) emit_emit [of n "[x]" bs] by simp
  ultimately show ?case
    using Cons.prems Cons.IH [of "emit n [x]" "Suc i" "xs[i := x]"]
    by (simp add: buf_set_def room_mono add.commute)
qed

section \<open>Responding\<close>

lemma msg_buf_reset_fields [simp]:
  "unit_id (msg (msg_buf_reset n)) = unit_id (msg n)" "msg_fc (msg (msg_buf_reset n)) = msg_fc (msg n)"
  "mbuf (msg_buf_reset n) = mbuf n" "cursor (msg_buf_reset n) = 0"
  "room (msg_buf_reset n) k \<longleftrightarrow> wf_nmbs n \<and> k \<le> 260"
  by (simp_all add: msg_buf_reset_def room_def wf_nmbs_def)

text \<open>A response is built from the start of the buffer.\<close>

abbreviation rtu_wire :: "'a wire nmbs_t \<Rightarrow> bool" where
  "rtu_wire n \<equiv> rtu_conf wire_read wire_write (platform n) \<and> wf_nmbs n"

lemma put_msg_header_wire:
  "rtu_wire n \<Longrightarrow> put_msg_header n dl = Some (emit (msg_buf_reset n) [unit_id (msg n), msg_fc (msg n)])"
  by (simp add: put_msg_header_def rtu_conf_def)

lemma send_msg_wire:
  assumes "rtu_wire n" "length bs \<le> 258"
  shows "send_msg (emit (msg_buf_reset n) bs) w =
    Some (NMBS_ERROR_NONE, emit (msg_buf_reset n) (bs @ crc_bytes bs), w\<lparr>tx := tx w @ [bs @ crc_bytes bs]\<rparr>)"
proof -
  let ?m = "emit (msg_buf_reset n) bs"
  have m: "rtu_conf wire_read wire_write (platform ?m)" "inst_ok ?m" "seen ?m = bs"
    using assms by (simp_all add: inst_ok_def seen_emit) (simp add: seen_def)
  have "put_2 ?m (swap16 (crc_loop bs 0xFFFF)) = Some (emit (msg_buf_reset n) (bs @ crc_bytes bs))"
    using assms by (simp add: crc_bytes_def)
  then show ?thesis
    using assms m platform_crc_seen [OF m(1,2)]
    by (simp add: send_msg_def send_def rtu_conf_def wire_write_def buf_slice_def mbuf_emit transport_result_def
        wf_nmbs_def)
qed

lemma refuse_wire:
  assumes "rtu_wire n"
  shows "returns (refuse n err w) (\<lambda>(r, n', w'). r = NMBS_ERROR_NONE \<and> config n' = config n \<and> wf_nmbs n' \<and>
    w' = w\<lparr>tx := tx w @ [rtu_frame (unit_id (msg n)) (msg_fc (msg n) + 0x80) [exception_code err]]\<rparr>)"
proof -
  let ?n = "set_fc n (msg_fc (msg n) + 0x80)" and ?bs = "[unit_id (msg n), msg_fc (msg n) + 0x80, exception_code err]"
  have n: "rtu_wire ?n" using assms by simp
  have "room (emit (msg_buf_reset ?n) [unit_id (msg n), msg_fc (msg n) + 0x80]) 1"
    using n by (intro room_emit) simp
  moreover have "wf_nmbs (emit (msg_buf_reset ?n) (?bs @ crc_bytes ?bs))"
    using n by (intro wf_emit) simp
  ultimately show ?thesis
    using n send_msg_wire [OF n, of ?bs w]
    by (simp add: refuse_def send_exception_msg_def put_msg_header_wire rtu_frame_def)
qed

section \<open>The header of a request\<close>

lemma load_byte_timeout [simp]:
  "(load n p)\<lparr>byte_timeout_ms := t\<rparr> = load (n\<lparr>byte_timeout_ms := t\<rparr>) p"
  by (simp add: load_def set_buf_def)

lemma msg_state_reset_byte_timeout [simp]:
  "(msg_state_reset (n\<lparr>byte_timeout_ms := x\<rparr>))\<lparr>byte_timeout_ms := byte_timeout_ms n\<rparr> = msg_state_reset n"
  by (simp add: msg_state_reset_def msg_buf_reset_def)

lemma msg_state_reset_again [simp]:
  "msg_state_reset ((msg_state_reset n)\<lparr>byte_timeout_ms := x\<rparr>) = msg_state_reset (n\<lparr>byte_timeout_ms := x\<rparr>)"
  "read_timeout_ms (msg_state_reset n) = read_timeout_ms n"
  by (simp_all add: msg_state_reset_def msg_buf_reset_def)

lemma at_reset: "rtu_wire n \<Longrightarrow> at (msg_state_reset n) []"
  by (simp add: at_def)

lemma at_set_field [simp]:
  "at (set_unit_id n u) xs = at n xs" "at (set_fc n f) xs = at n xs"
  "at (set_broadcast n b) xs = at n xs" "at (set_ignored n b) xs = at n xs"
  by (simp_all add: at_def) (simp_all add: set_broadcast_def set_ignored_def)

lemma flag_simps [simp]:
  "broadcast (msg (set_broadcast n b)) = b" "ignored (msg (set_broadcast n b)) = ignored (msg n)"
  "broadcast (msg (set_ignored n b)) = broadcast (msg n)" "ignored (msg (set_ignored n b)) = b"
  "ignored (msg (set_unit_id n u)) = ignored (msg n)" "ignored (msg (set_fc n f)) = ignored (msg n)"
  "address_rtu (set_unit_id n u) = address_rtu n" "address_rtu (set_fc n f) = address_rtu n"
  "address_rtu (msg_state_reset n) = address_rtu n"
  "broadcast (msg (msg_state_reset n)) = False" "ignored (msg (msg_state_reset n)) = False"
  by (simp_all add: set_broadcast_def set_ignored_def set_unit_id_def set_fc_def msg_state_reset_def msg_buf_reset_def)

text \<open>The instance when the header of a request was read.\<close>

definition request_begun :: "'a wire nmbs_t \<Rightarrow> u8 \<Rightarrow> u8 \<Rightarrow> 'a wire nmbs_t \<Rightarrow> bool" where
  "request_begun n u fc m \<longleftrightarrow> at m [u, fc] \<and> config m = config n \<and> unit_id (msg m) = u \<and> msg_fc (msg m) = fc \<and>
     broadcast (msg m) = (u = 0) \<and> ignored (msg m) = (u \<noteq> 0 \<and> u \<noteq> address_rtu n)"

lemma recv_req_header_wire:
  assumes "rtu_wire n" "rx w = u # fc # p"
  shows "returns (recv_req_header (msg_state_reset n) w)
    (\<lambda>(err, first, m, w'). err = NMBS_ERROR_NONE \<and> request_begun n u fc m \<and> w' = w\<lparr>rx := p\<rparr>)"
proof -
  let ?n0 = "msg_state_reset (n\<lparr>byte_timeout_ms := read_timeout_ms n\<rparr>)"
  let ?n1 = "set_unit_id (emit (msg_state_reset n) [u]) u"
  have n: "rtu_wire (n\<lparr>byte_timeout_ms := read_timeout_ms n\<rparr>)" using assms(1) by simp
  have r1: "recv ?n0 1 w = Some (NMBS_ERROR_NONE, load ?n0 [u], w\<lparr>rx := fc # p\<rparr>)"
    using recv_load [OF at_reset [OF n], of w "[u]" "fc # p" 1] assms(2) by simp
  have a1: "at (emit (msg_state_reset n) [u]) [u]"
    using at_emit [OF at_reset [OF assms(1)], of "[u]"] by simp
  have g1: "get_1 (load (msg_state_reset n) [u]) = Some (u, emit (msg_state_reset n) [u])"
    using at_room [OF at_reset [OF assms(1)], of 1] by simp
  have r2: "recv ?n1 1 (w\<lparr>rx := fc # p\<rparr>) = Some (NMBS_ERROR_NONE, load ?n1 [fc], w\<lparr>rx := p\<rparr>)"
    using recv_load [of ?n1 "[u]" "w\<lparr>rx := fc # p\<rparr>" "[fc]" p 1] a1 by simp
  have g2: "get_1 (load ?n1 [fc]) = Some (fc, emit ?n1 [fc])"
    using at_room [of ?n1 "[u]" 1] a1 by simp
  have a2: "at (emit ?n1 [fc]) [u, fc]"
    using at_emit [of ?n1 "[u]" "[fc]"] a1 by simp
  have "transport (platform n) = 1" using assms(1) by (simp add: rtu_conf_def)
  then show ?thesis
    using r1 g1 r2 g2 a2
    by (auto simp: recv_req_header_def recv_msg_header_def request_begun_def NMBS_BROADCAST_ADDRESS_def Let_def)
qed

end
