(* ===== verification/Server_Reference.thy ===== *)
theory Server_Reference
  imports Server_Wire
begin

text \<open>
  What a Modbus server promises, at the level of requests and answers: \<open>serve\<close> maps a request to
  the answer that the specification asks for, with no buffer, no cursor and no frame.  The
  handlers of \<open>Modbus_Server\<close> on a wire implement it.
\<close>

section \<open>Requests\<close>

datatype request =
    Read_Coils u16 u16
  | Read_Discrete_Inputs u16 u16
  | Read_Holding_Registers u16 u16
  | Read_Input_Registers u16 u16
  | Write_Coil u16 u16
  | Write_Register u16 u16
  | Write_Coils u16 u16 "u8 list"
  | Write_Registers u16 u16 "u16 list"
  | Read_Write_Registers u16 u16 u16 u16 "u16 list"

fun request_fc :: "request \<Rightarrow> u8" where
  "request_fc (Read_Coils a q) = 1"
| "request_fc (Read_Discrete_Inputs a q) = 2"
| "request_fc (Read_Holding_Registers a q) = 3"
| "request_fc (Read_Input_Registers a q) = 4"
| "request_fc (Write_Coil a v) = 5"
| "request_fc (Write_Register a v) = 6"
| "request_fc (Write_Coils a q bs) = 15"
| "request_fc (Write_Registers a q ws) = 16"
| "request_fc (Read_Write_Registers ra rq wa wq ws) = 23"

abbreviation be16s :: "u16 list \<Rightarrow> u8 list" where
  "be16s ws \<equiv> concat (map be16 ws)"

fun request_data :: "request \<Rightarrow> u8 list" where
  "request_data (Read_Coils a q) = be16 a @ be16 q"
| "request_data (Read_Discrete_Inputs a q) = be16 a @ be16 q"
| "request_data (Read_Holding_Registers a q) = be16 a @ be16 q"
| "request_data (Read_Input_Registers a q) = be16 a @ be16 q"
| "request_data (Write_Coil a v) = be16 a @ be16 v"
| "request_data (Write_Register a v) = be16 a @ be16 v"
| "request_data (Write_Coils a q bs) = be16 a @ be16 q @ of_nat (length bs) # bs"
| "request_data (Write_Registers a q ws) = be16 a @ be16 q @ of_nat (2 * length ws) # be16s ws"
| "request_data (Read_Write_Registers ra rq wa wq ws) =
     be16 ra @ be16 rq @ be16 wa @ be16 wq @ of_nat (2 * length ws) # be16s ws"

text \<open>The payloads that fit a message; the quantities and addresses are arbitrary.\<close>

fun request_ok :: "request \<Rightarrow> bool" where
  "request_ok (Write_Coils a q bs) \<longleftrightarrow> length bs \<le> 246"
| "request_ok (Write_Registers a q ws) \<longleftrightarrow> length ws \<le> 123"
| "request_ok (Read_Write_Registers ra rq wa wq ws) \<longleftrightarrow> length ws \<le> 121"
| "request_ok _ \<longleftrightarrow> True"

section \<open>The reference server\<close>

text \<open>An answer is an exception or the data of a normal response.\<close>

type_synonym answer = "nmbs_error + u8 list"

definition failure :: "nmbs_error \<Rightarrow> nmbs_error" where
  "failure err = (if nmbs_error_is_exception err then err else NMBS_EXCEPTION_SERVER_DEVICE_FAILURE)"

definition range_fault :: "nat \<Rightarrow> u16 \<Rightarrow> u16 \<Rightarrow> nmbs_error option" where
  "range_fault limit a q =
     (if unat q < 1 \<or> limit < unat q then Some NMBS_EXCEPTION_ILLEGAL_DATA_VALUE
      else if 65536 < unat a + unat q then Some NMBS_EXCEPTION_ILLEGAL_DATA_ADDRESS else None)"

definition serve_bits :: "'w read_bits_cb option \<Rightarrow> u8 \<Rightarrow> void_ptr \<Rightarrow> u16 \<Rightarrow> u16 \<Rightarrow> 'w \<Rightarrow> answer \<times> 'w" where
  "serve_bits cb u p a q w =
     (case (range_fault 2000 a q, cb) of
        (Some err, _) \<Rightarrow> (Inl err, w)
      | (None, None) \<Rightarrow> (Inl NMBS_EXCEPTION_ILLEGAL_FUNCTION, w)
      | (None, Some cb) \<Rightarrow> (case cb a q (replicate 250 0) u p w of (err, bits, w) \<Rightarrow>
          if err \<noteq> NMBS_ERROR_NONE then (Inl (failure err), w)
          else let k = (unat q + 7) div 8 in (Inr (of_nat k # take k bits), w)))"

definition serve_registers :: "'w read_regs_cb option \<Rightarrow> u8 \<Rightarrow> void_ptr \<Rightarrow> nat \<Rightarrow> u16 \<Rightarrow> u16 \<Rightarrow> 'w \<Rightarrow> answer \<times> 'w" where
  "serve_registers cb u p k a q w =
     (case (range_fault 125 a q, cb) of
        (Some err, _) \<Rightarrow> (Inl err, w)
      | (None, None) \<Rightarrow> (Inl NMBS_EXCEPTION_ILLEGAL_FUNCTION, w)
      | (None, Some cb) \<Rightarrow> (case cb a q (replicate k 0) u p w of (err, regs, w) \<Rightarrow>
          if err \<noteq> NMBS_ERROR_NONE then (Inl (failure err), w)
          else (Inr (of_nat (2 * unat q) # be16s (take (unat q) regs)), w)))"

text \<open>A write, once its arguments are accepted, is acknowledged with \<open>ack\<close>.\<close>

definition acknowledge :: "u8 list \<Rightarrow> nmbs_error \<times> 'w \<Rightarrow> answer \<times> 'w" where
  "acknowledge ack r = (case r of (err, w) \<Rightarrow> (if err \<noteq> NMBS_ERROR_NONE then Inl (failure err) else Inr ack, w))"

fun serve :: "'w nmbs_callbacks \<Rightarrow> u8 \<Rightarrow> request \<Rightarrow> 'w \<Rightarrow> answer \<times> 'w" where
  "serve c u (Read_Coils a q) w = serve_bits (cb_read_coils c) u (cb_arg c) a q w"
| "serve c u (Read_Discrete_Inputs a q) w = serve_bits (cb_read_discrete_inputs c) u (cb_arg c) a q w"
| "serve c u (Read_Holding_Registers a q) w = serve_registers (cb_read_holding_registers c) u (cb_arg c) 125 a q w"
| "serve c u (Read_Input_Registers a q) w = serve_registers (cb_read_input_registers c) u (cb_arg c) 125 a q w"
| "serve c u (Write_Coil a v) w = (case cb_write_single_coil c of
     None \<Rightarrow> (Inl NMBS_EXCEPTION_ILLEGAL_FUNCTION, w)
   | Some cb \<Rightarrow> if v \<noteq> 0 \<and> v \<noteq> 0xFF00 then (Inl NMBS_EXCEPTION_ILLEGAL_DATA_VALUE, w)
       else acknowledge (be16 a @ be16 v) (cb a (v \<noteq> 0) u (cb_arg c) w))"
| "serve c u (Write_Register a v) w = (case cb_write_single_register c of
     None \<Rightarrow> (Inl NMBS_EXCEPTION_ILLEGAL_FUNCTION, w)
   | Some cb \<Rightarrow> acknowledge (be16 a @ be16 v) (cb a v u (cb_arg c) w))"
| "serve c u (Write_Coils a q bs) w = (case range_fault 0x7B0 a q of
     Some err \<Rightarrow> (Inl err, w)
   | None \<Rightarrow> if length bs \<noteq> (unat q + 7) div 8 then (Inl NMBS_EXCEPTION_ILLEGAL_DATA_VALUE, w)
       else (case cb_write_multiple_coils c of
         None \<Rightarrow> (Inl NMBS_EXCEPTION_ILLEGAL_FUNCTION, w)
       | Some cb \<Rightarrow> acknowledge (be16 a @ be16 q) (cb a q (bs @ replicate (250 - length bs) 0) u (cb_arg c) w)))"
| "serve c u (Write_Registers a q ws) w = (case range_fault 0x7B a q of
     Some err \<Rightarrow> (Inl err, w)
   | None \<Rightarrow> if length ws \<noteq> unat q then (Inl NMBS_EXCEPTION_ILLEGAL_DATA_VALUE, w)
       else (case cb_write_multiple_registers c of
         None \<Rightarrow> (Inl NMBS_EXCEPTION_ILLEGAL_FUNCTION, w)
       | Some cb \<Rightarrow> acknowledge (be16 a @ be16 q) (cb a q (ws @ replicate (123 - length ws) 0) u (cb_arg c) w)))"
| "serve c u (Read_Write_Registers ra rq wa wq ws) w =
     (if unat rq < 1 \<or> 125 < unat rq \<or> unat wq < 1 \<or> 0x7B < unat wq \<or> length ws \<noteq> unat wq
      then (Inl NMBS_EXCEPTION_ILLEGAL_DATA_VALUE, w)
      else if 65536 < unat ra + unat rq \<or> 65536 < unat wa + unat wq
      then (Inl NMBS_EXCEPTION_ILLEGAL_DATA_ADDRESS, w)
      else (case (cb_write_multiple_registers c, cb_read_holding_registers c) of
        (Some wcb, Some rcb) \<Rightarrow> (case wcb wa wq ws u (cb_arg c) w of (err, w) \<Rightarrow>
           if err \<noteq> NMBS_ERROR_NONE then (Inl (failure err), w)
           else if u = 0 then (Inr [], w)
           else serve_registers (Some rcb) u (cb_arg c) (unat rq) ra rq w)
      | _ \<Rightarrow> (Inl NMBS_EXCEPTION_ILLEGAL_FUNCTION, w)))"

text \<open>
  On the wire: an exception is always sent, also in reply to a broadcast; a normal response is
  sent to a request that names the unit.
\<close>

definition transmit :: "u8 \<Rightarrow> u8 \<Rightarrow> answer \<times> 'a wire \<Rightarrow> 'a wire" where
  "transmit u fc r = (case r of
     (Inl err, w) \<Rightarrow> w\<lparr>tx := tx w @ [rtu_frame u (fc + 0x80) [exception_code err]]\<rparr>
   | (Inr data, w) \<Rightarrow> if u = 0 then w else w\<lparr>tx := tx w @ [rtu_frame u fc data]\<rparr>)"

text \<open>A callback that is handed an array cannot change its length.\<close>

definition callbacks_ok :: "'w nmbs_callbacks \<Rightarrow> bool" where
  "callbacks_ok c \<longleftrightarrow>
     (\<forall>cb \<in> set_option (cb_read_coils c) \<union> set_option (cb_read_discrete_inputs c).
        \<forall>a q xs u p w. length (fst (snd (cb a q xs u p w))) = length xs) \<and>
     (\<forall>cb \<in> set_option (cb_read_holding_registers c) \<union> set_option (cb_read_input_registers c).
        \<forall>a q xs u p w. length (fst (snd (cb a q xs u p w))) = length xs)"

section \<open>The handlers\<close>

text \<open>A handler, or the server, that ends well and leaves the world \<open>w'\<close>.\<close>

abbreviation ends ::
  "'a wire nmbs_t \<Rightarrow> (nmbs_error \<times> 'a wire nmbs_t \<times> 'a wire) option \<Rightarrow> 'a wire \<Rightarrow> bool" where
  "ends n m w' \<equiv> returns m (\<lambda>(err, n', w''). err = NMBS_ERROR_NONE \<and> config n' = config n \<and> wf_nmbs n' \<and> w'' = w')"

text \<open>
  The instance \<open>m\<close> when a request of unit \<open>u\<close> with function code \<open>fc\<close> was read: all that is left
  is to answer it.
\<close>

definition parsed :: "'a wire nmbs_t \<Rightarrow> u8 \<Rightarrow> u8 \<Rightarrow> 'a wire nmbs_t \<Rightarrow> bool" where
  "parsed n u fc m \<longleftrightarrow> rtu_wire m \<and> config m = config n \<and> callbacks m = callbacks n \<and> unit_id (msg m) = u \<and>
     msg_fc (msg m) = fc \<and> broadcast (msg m) = (u = 0) \<and> \<not> ignored (msg m)"

lemma refuse_ends:
  "parsed n u fc m \<Longrightarrow> ends n (refuse m err w) (transmit u fc (Inl err, w))"
  using refuse_wire [of m err w] by (auto simp: parsed_def transmit_def elim!: returnsE)

lemma callback_failed_ends:
  "parsed n u fc m \<Longrightarrow> ends n (callback_failed m err w) (transmit u fc (Inl (failure err), w))"
  using refuse_ends [of n u fc m err w] refuse_ends [of n u fc m NMBS_EXCEPTION_SERVER_DEVICE_FAILURE w]
  by (simp add: callback_failed_def failure_def)

text \<open>The end of a handler that responds with \<open>data\<close>.\<close>

lemma send_msg_ends:
  assumes "parsed n u fc m" "length data \<le> 256" "u \<noteq> 0"
  shows "ends n (send_msg (emit (msg_buf_reset m) (u # fc # data)) w) (transmit u fc (Inr data, w))"
proof -
  have m: "rtu_wire m" using assms(1) by (simp add: parsed_def)
  have "wf_nmbs (emit (msg_buf_reset m) ((u # fc # data) @ crc_bytes (u # fc # data)))"
    using m assms(2) by (intro wf_emit) simp
  then show ?thesis
    using send_msg_wire [OF m, of "u # fc # data" w] assms
    by (simp add: parsed_def transmit_def rtu_frame_def)
qed

lemma emit_start:
  assumes "rtu_wire m" "length (xs @ ys) \<le> 260"
  shows "emit (emit (msg_buf_reset m) xs) ys = emit (msg_buf_reset m) (xs @ ys)"
  using assms by (intro emit_emit) simp

lemma room_start: "rtu_wire m \<Longrightarrow> length xs + k \<le> 260 \<Longrightarrow> room (emit (msg_buf_reset m) xs) k"
  by (intro room_emit) simp

lemma send_echo_ends:
  assumes "parsed n u fc m"
  shows "ends n (send_echo m a v w) (transmit u fc (Inr (be16 a @ be16 v), w))"
proof (cases "u = 0")
  case True
  then show ?thesis using assms by (simp add: send_echo_def parsed_def transmit_def)
next
  case False
  have m: "rtu_wire m" "unit_id (msg m) = u" "msg_fc (msg m) = fc" "\<not> broadcast (msg m)"
    using assms False by (simp_all add: parsed_def)
  have "send_echo m a v w = send_msg (emit (msg_buf_reset m) (u # fc # be16 a @ be16 v)) w"
    using m by (simp add: send_echo_def put_res_header_def put_msg_header_wire room_start emit_start)
  then show ?thesis using send_msg_ends [OF assms _ False, of "be16 a @ be16 v"] by simp
qed

lemma acknowledge_ends:
  assumes "parsed n u fc m"
  shows "ends n (case r of (err, w) \<Rightarrow>
      if err \<noteq> NMBS_ERROR_NONE then callback_failed m err w else send_echo m a v w)
    (transmit u fc (acknowledge (be16 a @ be16 v) r))"
  using send_echo_ends [OF assms, of a v "snd r"] callback_failed_ends [OF assms, of "fst r" "snd r"]
  by (simp add: acknowledge_def case_prod_unfold)

text \<open>Reading the rest of a request: its fields, then the checksum.\<close>

definition checksum_error :: "u8 list \<Rightarrow> u8 list \<Rightarrow> nmbs_error" where
  "checksum_error body ck = (if ck = crc_bytes body then NMBS_ERROR_NONE else NMBS_ERROR_CRC)"

lemma checksum_error_ok [simp]: "checksum_error body (crc_bytes body) = NMBS_ERROR_NONE"
  by (simp add: checksum_error_def)

lemma footer_wire:
  assumes "at m xs" "length xs + length ys \<le> 258" "rx w = ck @ rest" "length ck = 2"
  shows "recv_msg_footer (emit m ys) w =
    Some (checksum_error (xs @ ys) ck, emit m (ys @ ck), w\<lparr>rx := rest\<rparr>)"
proof -
  obtain h l where hl: "ck = [h, l]" using assms(4) by (auto simp: length_Suc_conv numeral_2_eq_2)
  have "room m (length ys + 2)" using assms(2) by (intro at_room [OF assms(1)]) simp
  then have "emit (emit m ys) [h, l] = emit m (ys @ [h, l])" by (intro emit_emit) simp
  moreover have "at (emit m ys) (xs @ ys)" using assms(1,2) by (intro at_emit) simp_all
  ultimately show ?thesis
    using recv_msg_footer_wire [of "emit m ys" "xs @ ys" w h l rest] assms(2,3) hl by (simp add: checksum_error_def)
qed

text \<open>The instance \<open>m\<close> when the request was read, whatever its checksum said.\<close>

definition consumed :: "'a wire nmbs_t \<Rightarrow> u8 \<Rightarrow> u8 \<Rightarrow> 'a wire nmbs_t \<Rightarrow> bool" where
  "consumed n u fc m \<longleftrightarrow> rtu_wire m \<and> config m = config n \<and> callbacks m = callbacks n \<and> unit_id (msg m) = u \<and>
     msg_fc (msg m) = fc \<and> broadcast (msg m) = (u = 0) \<and> ignored (msg m) = (u \<noteq> 0 \<and> u \<noteq> address_rtu n)"

lemma consumed_parsed: "consumed n u fc m \<Longrightarrow> u = 0 \<or> u = address_rtu n \<Longrightarrow> parsed n u fc m"
  by (auto simp: consumed_def parsed_def)

lemma consumed_emit:
  assumes "request_begun n u fc m" "length ys \<le> 258"
  shows "consumed n u fc (emit m ys)"
proof -
  have "room m (length ys)" using at_room [of m "[u, fc]" "length ys"] assms by (simp add: request_begun_def)
  then show ?thesis
    using assms(1) configD(5) [of m n] by (simp add: consumed_def request_begun_def at_def)
qed

text \<open>A request of two words after its header.\<close>

lemma two_words_wire:
  assumes "request_begun n u fc m" "rx w = be16 a @ be16 q @ ck @ rest" "length ck = 2"
  obtains m' m1 m2 m3 w1 where "recv m 4 w = Some (NMBS_ERROR_NONE, m', w1)" "get_2 m' = Some (a, m1)"
    "get_2 m1 = Some (q, m2)"
    "recv_msg_footer m2 w1 = Some (checksum_error (u # fc # be16 a @ be16 q) ck, m3, w\<lparr>rx := rest\<rparr>)"
    "consumed n u fc m3"
proof -
  let ?w1 = "w\<lparr>rx := ck @ rest\<rparr>"
  have m: "at m [u, fc]" using assms(1) by (simp add: request_begun_def)
  then have room: "room m 4" by (rule at_room) simp
  then have e: "emit (emit m (be16 a)) (be16 q) = emit m (be16 a @ be16 q)" by (intro emit_emit) simp
  have r: "recv m 4 w = Some (NMBS_ERROR_NONE, load m (be16 a @ be16 q), ?w1)"
    using recv_load [OF m, of w "be16 a @ be16 q" _ 4] assms(2) by simp
  have g1: "get_2 (load m (be16 a @ be16 q)) = Some (a, load (emit m (be16 a)) (be16 q))"
    using room by simp
  have g2: "get_2 (load (emit m (be16 a)) (be16 q)) = Some (q, emit m (be16 a @ be16 q))"
    using room e by simp
  have f: "recv_msg_footer (emit m (be16 a @ be16 q)) ?w1 =
      Some (checksum_error (u # fc # be16 a @ be16 q) ck, emit m ((be16 a @ be16 q) @ ck), w\<lparr>rx := rest\<rparr>)"
    using footer_wire [OF m, of "be16 a @ be16 q" ?w1 ck rest] assms(3) by simp
  have "consumed n u fc (emit m ((be16 a @ be16 q) @ ck))"
    by (rule consumed_emit [OF assms(1)]) (use assms(3) in simp)
  then show thesis by (rule that [OF r g1 g2 f])
qed

section \<open>Each request is served\<close>

lemmas range_faults = range_fault_def beyond_address_space_iff word_less_nat_alt

lemma registers_response_ends:
  fixes q :: u16
  assumes "parsed n u fc m" "u \<noteq> 0" "unat q \<le> 125" "unat q \<le> length regs"
  shows "ends n (do {
      m \<leftarrow> put_res_header m (1 + ucast (ucast (q * 2) :: u8));
      m \<leftarrow> put_1 m (ucast (q * 2));
      m \<leftarrow> put_words_loop (unat q) 0 m regs;
      send_msg m w })
    (transmit u fc (Inr (of_nat (2 * unat q) # be16s (take (unat q) regs)), w))"
proof -
  let ?hd = "[u, fc, ucast (q * 2)]"
  have m: "rtu_wire m" "unit_id (msg m) = u" "msg_fc (msg m) = fc"
    using assms(1) by (simp_all add: parsed_def)
  have nb: "(ucast (q * 2) :: u8) = of_nat (2 * unat q)"
    by (rule word_unat_eq_iff [THEN iffD2]) (use assms(3) in \<open>simp add: unat_ucast unat_word_ariths unsigned_of_nat take_bit_eq_mod\<close>)
  have "put_words_loop (unat q) 0 (emit (msg_buf_reset m) ?hd) regs =
      Some (emit (emit (msg_buf_reset m) ?hd) (be16s (take (unat q) regs)))"
    using assms(3,4) room_start [OF m(1), of ?hd "2 * unat q"] by (subst put_words_loop_emit) simp_all
  also have "emit (emit (msg_buf_reset m) ?hd) (be16s (take (unat q) regs)) =
      emit (msg_buf_reset m) (u # fc # ucast (q * 2) # be16s (take (unat q) regs))"
    using assms(3,4) emit_start [OF m(1), of ?hd "be16s (take (unat q) regs)"] by simp
  finally show ?thesis
    using m assms(3,4) send_msg_ends [OF assms(1) _ assms(2), of "ucast (q * 2) # be16s (take (unat q) regs)"]
    by (simp add: put_res_header_def put_msg_header_wire room_start emit_start nb)
qed

lemma bits_response_ends:
  fixes q :: u16
  assumes "parsed n u fc m" "u \<noteq> 0" "unat q \<le> 2000" "length bits = 250"
  shows "ends n (do {
      m \<leftarrow> put_res_header m (1 + ucast (ucast ((q + 7) div 8) :: u8));
      m \<leftarrow> put_1 m (ucast ((q + 7) div 8));
      m \<leftarrow> put_bytes_loop (unat (ucast ((q + 7) div 8) :: u8)) 0 m bits;
      send_msg m w })
    (transmit u fc (Inr (of_nat ((unat q + 7) div 8) # take ((unat q + 7) div 8) bits), w))"
proof -
  let ?k = "(unat q + 7) div 8" and ?hd = "[u, fc, ucast ((q + 7) div 8)]"
  have m: "rtu_wire m" "unit_id (msg m) = u" "msg_fc (msg m) = fc"
    using assms(1) by (simp_all add: parsed_def)
  have k: "?k \<le> 250" using assms(3) by simp
  have "unat ((q + 7) div 8) = ?k" using assms(3) by (simp add: unat_div unat_word_ariths)
  then have u: "unat (ucast ((q + 7) div 8) :: u8) = ?k" using k by (simp add: unat_ucast)
  then have nb: "(ucast ((q + 7) div 8) :: u8) = of_nat ?k"
    using k by (simp add: unat_eq_of_nat)
  have "put_bytes_loop ?k 0 (emit (msg_buf_reset m) ?hd) bits =
      Some (emit (emit (msg_buf_reset m) ?hd) (take ?k bits))"
    using assms(4) k room_start [OF m(1), of ?hd ?k] by (subst put_bytes_loop_emit) simp_all
  also have "emit (emit (msg_buf_reset m) ?hd) (take ?k bits) =
      emit (msg_buf_reset m) (u # fc # ucast ((q + 7) div 8) # take ?k bits)"
    using assms(4) k emit_start [OF m(1), of ?hd "take ?k bits"] by simp
  finally show ?thesis
    using m assms(4) k send_msg_ends [OF assms(1) _ assms(2), of "ucast ((q + 7) div 8) # take ?k bits"]
    by (simp add: put_res_header_def put_msg_header_wire room_start emit_start u flip: nb)
qed

lemma handle_read_registers_serves:
  assumes "request_begun n u fc m" "u = 0 \<or> u = address_rtu n"
    and "rx w = be16 a @ be16 q @ crc_bytes (u # fc # be16 a @ be16 q) @ rest"
    and cb: "\<And>f a q xs u p w. cb = Some f \<Longrightarrow> length (fst (snd (f a q xs u p w))) = length xs"
  shows "ends n (handle_read_registers m cb w)
    (transmit u fc (serve_registers cb u (cb_arg (callbacks n)) 125 a q (w\<lparr>rx := rest\<rparr>)))"
proof -
  obtain m1 m2 m3 m4 w1 where 1: "recv m 4 w = Some (NMBS_ERROR_NONE, m1, w1)" "get_2 m1 = Some (a, m2)"
      "get_2 m2 = Some (q, m3)" "recv_msg_footer m3 w1 = Some (NMBS_ERROR_NONE, m4, w\<lparr>rx := rest\<rparr>)"
      and "consumed n u fc m4"
    by (rule two_words_wire [OF assms(1,3) length_crc_bytes]) simp
  then have m4: "parsed n u fc m4" using consumed_parsed assms(2) by blast
  have m4': "\<not> ignored (msg m4)" "unit_id (msg m4) = u" "msg_fc (msg m4) = fc" "callbacks m4 = callbacks n" "broadcast (msg m4) \<longleftrightarrow> u = 0"
      "rtu_wire m4" "config m4 = config n"
    using m4 by (simp_all add: parsed_def)
  show ?thesis
  proof (cases "range_fault 125 a q")
    case (Some err)
    then have "handle_read_registers m cb w = refuse m4 err (w\<lparr>rx := rest\<rparr>)"
      by (auto simp: handle_read_registers_def 1 m4' range_faults split: if_splits)
    then show ?thesis using Some refuse_ends [OF m4] by (simp add: serve_registers_def)
  next
    case None
    then have q: "\<not> q < 1" "\<not> q > 125" "\<not> beyond_address_space a q" "unat q \<le> 125"
      by (auto simp: range_faults split: if_splits)
    show ?thesis
    proof (cases cb)
      case None
      then show ?thesis
        using \<open>range_fault 125 a q = None\<close> q refuse_ends [OF m4]
        by (simp add: serve_registers_def handle_read_registers_def 1 m4')
    next
      case (Some f)
      obtain err regs w' where f: "f a q (replicate 125 0) u (cb_arg (callbacks n)) (w\<lparr>rx := rest\<rparr>) = (err, regs, w')"
        by (cases "f a q (replicate 125 0) u (cb_arg (callbacks n)) (w\<lparr>rx := rest\<rparr>)")
      have "length regs = 125" using cb [OF Some, of a q "replicate 125 0" u _ "w\<lparr>rx := rest\<rparr>"] f by (metis fst_conv snd_conv length_replicate)
      then show ?thesis
        using \<open>range_fault 125 a q = None\<close> q Some f m4' callback_failed_ends [OF m4, of err w'] registers_response_ends [OF m4, of q regs w']
        by (simp add: serve_registers_def handle_read_registers_def 1 Let_def transmit_def split: prod.splits)
    qed
  qed
qed

lemma handle_read_discrete_serves:
  assumes "request_begun n u fc m" "u = 0 \<or> u = address_rtu n"
    and "rx w = be16 a @ be16 q @ crc_bytes (u # fc # be16 a @ be16 q) @ rest"
    and cb: "\<And>f a q xs u p w. cb = Some f \<Longrightarrow> length (fst (snd (f a q xs u p w))) = length xs"
  shows "ends n (handle_read_discrete m cb w)
    (transmit u fc (serve_bits cb u (cb_arg (callbacks n)) a q (w\<lparr>rx := rest\<rparr>)))"
proof -
  obtain m1 m2 m3 m4 w1 where 1: "recv m 4 w = Some (NMBS_ERROR_NONE, m1, w1)" "get_2 m1 = Some (a, m2)"
      "get_2 m2 = Some (q, m3)" "recv_msg_footer m3 w1 = Some (NMBS_ERROR_NONE, m4, w\<lparr>rx := rest\<rparr>)"
      and "consumed n u fc m4"
    by (rule two_words_wire [OF assms(1,3) length_crc_bytes]) simp
  then have m4: "parsed n u fc m4" using consumed_parsed assms(2) by blast
  have m4': "\<not> ignored (msg m4)" "unit_id (msg m4) = u" "msg_fc (msg m4) = fc" "callbacks m4 = callbacks n" "broadcast (msg m4) \<longleftrightarrow> u = 0"
      "rtu_wire m4" "config m4 = config n"
    using m4 by (simp_all add: parsed_def)
  show ?thesis
  proof (cases "range_fault 2000 a q")
    case (Some err)
    then have "handle_read_discrete m cb w = refuse m4 err (w\<lparr>rx := rest\<rparr>)"
      by (auto simp: handle_read_discrete_def 1 m4' range_faults split: if_splits)
    then show ?thesis using Some refuse_ends [OF m4] by (simp add: serve_bits_def)
  next
    case None
    then have q: "\<not> q < 1" "\<not> q > 2000" "\<not> beyond_address_space a q" "unat q \<le> 2000"
      by (auto simp: range_faults split: if_splits)
    show ?thesis
    proof (cases cb)
      case None
      then show ?thesis
        using \<open>range_fault 2000 a q = None\<close> q refuse_ends [OF m4]
        by (simp add: serve_bits_def handle_read_discrete_def 1 m4')
    next
      case (Some f)
      obtain err bits w' where f: "f a q (replicate 250 0) u (cb_arg (callbacks n)) (w\<lparr>rx := rest\<rparr>) = (err, bits, w')"
        by (cases "f a q (replicate 250 0) u (cb_arg (callbacks n)) (w\<lparr>rx := rest\<rparr>)")
      have "length bits = 250" using cb [OF Some, of a q "replicate 250 0" u _ "w\<lparr>rx := rest\<rparr>"] f by (metis fst_conv snd_conv length_replicate)
      then show ?thesis
        using \<open>range_fault 2000 a q = None\<close> q Some f m4' callback_failed_ends [OF m4, of err w'] bits_response_ends [OF m4, of q bits w']
        by (simp add: serve_bits_def handle_read_discrete_def 1 Let_def transmit_def split: prod.splits)
    qed
  qed
qed

lemma handle_write_single_coil_serves:
  assumes "request_begun n u fc m" "u = 0 \<or> u = address_rtu n"
    and "rx w = be16 a @ be16 v @ crc_bytes (u # fc # be16 a @ be16 v) @ rest"
  shows "ends n (handle_write_single_coil m w) (transmit u fc (serve (callbacks n) u (Write_Coil a v) (w\<lparr>rx := rest\<rparr>)))"
proof -
  obtain m1 m2 m3 m4 w1 where 1: "recv m 4 w = Some (NMBS_ERROR_NONE, m1, w1)" "get_2 m1 = Some (a, m2)"
      "get_2 m2 = Some (v, m3)" "recv_msg_footer m3 w1 = Some (NMBS_ERROR_NONE, m4, w\<lparr>rx := rest\<rparr>)"
      and "consumed n u fc m4"
    by (rule two_words_wire [OF assms(1,3) length_crc_bytes]) simp
  then have m4: "parsed n u fc m4" using consumed_parsed assms(2) by blast
  have m4': "\<not> ignored (msg m4)" "unit_id (msg m4) = u" "callbacks m4 = callbacks n"
    using m4 by (simp_all add: parsed_def)
  show ?thesis
    using refuse_ends [OF m4] acknowledge_ends [OF m4, where a = a and v = v and r = "the (cb_write_single_coil (callbacks n)) a (v \<noteq> 0) u (cb_arg (callbacks n)) (w\<lparr>rx := rest\<rparr>)"]
    by (auto simp: handle_write_single_coil_def 1 m4' split: option.split)
qed

lemma handle_write_single_register_serves:
  assumes "request_begun n u fc m" "u = 0 \<or> u = address_rtu n"
    and "rx w = be16 a @ be16 v @ crc_bytes (u # fc # be16 a @ be16 v) @ rest"
  shows "ends n (handle_write_single_register m w) (transmit u fc (serve (callbacks n) u (Write_Register a v) (w\<lparr>rx := rest\<rparr>)))"
proof -
  obtain m1 m2 m3 m4 w1 where 1: "recv m 4 w = Some (NMBS_ERROR_NONE, m1, w1)" "get_2 m1 = Some (a, m2)"
      "get_2 m2 = Some (v, m3)" "recv_msg_footer m3 w1 = Some (NMBS_ERROR_NONE, m4, w\<lparr>rx := rest\<rparr>)"
      and "consumed n u fc m4"
    by (rule two_words_wire [OF assms(1,3) length_crc_bytes]) simp
  then have m4: "parsed n u fc m4" using consumed_parsed assms(2) by blast
  have m4': "\<not> ignored (msg m4)" "unit_id (msg m4) = u" "callbacks m4 = callbacks n"
    using m4 by (simp_all add: parsed_def)
  show ?thesis
    using refuse_ends [OF m4] acknowledge_ends [OF m4, where a = a and v = v and r = "the (cb_write_single_register (callbacks n)) a v u (cb_arg (callbacks n)) (w\<lparr>rx := rest\<rparr>)"]
    by (auto simp: handle_write_single_register_def 1 m4' split: option.split)
qed

text \<open>The head of a request with a payload of \<open>k\<close> bytes.\<close>

lemma payload_head_wire:
  assumes "request_begun n u fc m"
    and "rx w = be16 a @ be16 q @ k # p"
  obtains m' m1 m2 where "recv m 5 w = Some (NMBS_ERROR_NONE, m', w\<lparr>rx := p\<rparr>)" "get_2 m' = Some (a, m1)"
    "get_2 m1 = Some (q, m2)" "get_1 m2 = Some (k, emit m (be16 a @ be16 q @ [k]))"
proof -
  have m: "at m [u, fc]" using assms(1) by (simp add: request_begun_def)
  then have room: "room m 5" by (rule at_room) simp
  have e: "emit (emit (emit m (be16 a)) (be16 q)) [k] = emit m (be16 a @ be16 q @ [k])"
    using room by (simp add: room_mono)
  have r: "recv m 5 w = Some (NMBS_ERROR_NONE, load m (be16 a @ be16 q @ [k]), w\<lparr>rx := p\<rparr>)"
    using recv_load [OF m, of w "be16 a @ be16 q @ [k]" p 5] assms(2) by simp
  have g1: "get_2 (load m (be16 a @ be16 q @ [k])) = Some (a, load (emit m (be16 a)) (be16 q @ [k]))"
    using room by simp
  have g2: "get_2 (load (emit m (be16 a)) (be16 q @ [k])) = Some (q, load (emit (emit m (be16 a)) (be16 q)) [k])"
    using room by simp
  have g3: "get_1 (load (emit (emit m (be16 a)) (be16 q)) [k]) = Some (k, emit m (be16 a @ be16 q @ [k]))"
    using room e by simp
  show thesis by (rule that [OF r g1 g2 g3])
qed

lemma payload_wire:
  assumes "request_begun n u fc m" "length hs + length bs \<le> 254" "length bs = unat k" "length ck = 2"
  shows "recv (emit m hs) (ucast (k :: u8)) (w\<lparr>rx := bs @ ck @ rest\<rparr>) =
      Some (NMBS_ERROR_NONE, load (emit m hs) bs, w\<lparr>rx := ck @ rest\<rparr>)"
    and "emit (emit m hs) bs = emit m (hs @ bs)"
    and "room (emit m hs) (length bs)"
    and "recv_msg_footer (emit m (hs @ bs)) (w\<lparr>rx := ck @ rest\<rparr>) =
      Some (checksum_error (u # fc # hs @ bs) ck, emit m ((hs @ bs) @ ck), w\<lparr>rx := rest\<rparr>)"
    and "consumed n u fc (emit m ((hs @ bs) @ ck))"
proof -
  have m: "at m [u, fc]" using assms(1) by (simp add: request_begun_def)
  have room: "room m (length hs + length bs)" by (rule at_room [OF m]) (use assms(2) in simp)
  have a: "at (emit m hs) (u # fc # hs)" using at_emit [OF m, of hs] assms(2) by simp
  show "recv (emit m hs) (ucast k) (w\<lparr>rx := bs @ ck @ rest\<rparr>) =
      Some (NMBS_ERROR_NONE, load (emit m hs) bs, w\<lparr>rx := ck @ rest\<rparr>)"
    using recv_load [OF a, of "w\<lparr>rx := bs @ ck @ rest\<rparr>" bs "ck @ rest" "ucast k"] assms(2,3)
      unsigned_less [of k, where ?'a = nat] by (simp add: unat_ucast)
  show "emit (emit m hs) bs = emit m (hs @ bs)" "room (emit m hs) (length bs)"
    using room by simp_all
  show "recv_msg_footer (emit m (hs @ bs)) (w\<lparr>rx := ck @ rest\<rparr>) =
      Some (checksum_error (u # fc # hs @ bs) ck, emit m ((hs @ bs) @ ck), w\<lparr>rx := rest\<rparr>)"
    using footer_wire [OF m, of "hs @ bs" "w\<lparr>rx := ck @ rest\<rparr>" ck rest] assms(2,4) by simp
  show "consumed n u fc (emit m ((hs @ bs) @ ck))"
    by (rule consumed_emit [OF assms(1)]) (use assms(2,4) in simp)
qed

lemma write_coils_wire:
  assumes "request_begun n u fc m" "unat k = length bs" "length bs \<le> 246"
    and "rx w = be16 a @ be16 q @ k # bs @ ck @ rest" "length ck = 2"
  obtains m1 m2 m3 m4 m5 m6 m7 w1 w2 where "recv m 5 w = Some (NMBS_ERROR_NONE, m1, w1)" "get_2 m1 = Some (a, m2)"
    "get_2 m2 = Some (q, m3)" "get_1 m3 = Some (k, m4)" "recv m4 (ucast k) w1 = Some (NMBS_ERROR_NONE, m5, w2)"
    "get_bytes_loop (length bs) 0 m5 (Some (replicate 250 0)) = Some (m6, Some (bs @ replicate (250 - length bs) 0))"
    "recv_msg_footer m6 w2 = Some (checksum_error (u # fc # be16 a @ be16 q @ k # bs) ck, m7, w\<lparr>rx := rest\<rparr>)"
    "consumed n u fc m7"
proof -
  let ?hd = "be16 a @ be16 q @ [k]"
  obtain n1 n2 n3 where 1: "recv m 5 w = Some (NMBS_ERROR_NONE, n1, w\<lparr>rx := bs @ ck @ rest\<rparr>)" "get_2 n1 = Some (a, n2)"
      "get_2 n2 = Some (q, n3)" "get_1 n3 = Some (k, emit m ?hd)"
    by (rule payload_head_wire [OF assms(1,4)])
  have "length ?hd + length bs \<le> 254" using assms(3) by simp
  note 2 = payload_wire [OF assms(1) this assms(2) [symmetric] assms(5)]
  have loop: "get_bytes_loop (length bs) 0 (load (emit m ?hd) bs) (Some (replicate 250 0)) =
      Some (emit m (?hd @ bs), Some (bs @ replicate (250 - length bs) 0))"
    using get_bytes_load [OF 2(3), of 0 "replicate 250 0"] 2(2) assms(3) by simp
  have "recv_msg_footer (emit m (?hd @ bs)) (w\<lparr>rx := ck @ rest\<rparr>) =
      Some (checksum_error (u # fc # be16 a @ be16 q @ k # bs) ck, emit m ((?hd @ bs) @ ck), w\<lparr>rx := rest\<rparr>)"
    using 2(4) by simp
  then show thesis by (rule that [OF 1 2(1) loop _ 2(5)])
qed

lemma handle_write_multiple_coils_serves:
  assumes "request_begun n u fc m" "u = 0 \<or> u = address_rtu n" "unat k = length bs" "length bs \<le> 246"
    and "rx w = be16 a @ be16 q @ k # bs @
      crc_bytes (u # fc # be16 a @ be16 q @ k # bs) @ rest"
  shows "ends n (handle_write_multiple_coils m w)
    (transmit u fc (serve (callbacks n) u (Write_Coils a q bs) (w\<lparr>rx := rest\<rparr>)))"
proof -
  have "unat k \<le> unat (246 :: u8)" using assms(3,4) by simp
  then have k': "\<not> 246 < k" by (simp only: word_less_nat_alt not_less)
  obtain m1 m2 m3 m4 m5 m6 m7 w1 w2 where 3: "recv m 5 w = Some (NMBS_ERROR_NONE, m1, w1)" "get_2 m1 = Some (a, m2)"
    "get_2 m2 = Some (q, m3)" "get_1 m3 = Some (k, m4)" "recv m4 (ucast k) w1 = Some (NMBS_ERROR_NONE, m5, w2)"
    "get_bytes_loop (length bs) 0 m5 (Some (replicate 250 0)) = Some (m6, Some (bs @ replicate (250 - length bs) 0))"
    "recv_msg_footer m6 w2 = Some (NMBS_ERROR_NONE, m7, w\<lparr>rx := rest\<rparr>)"
      and "consumed n u fc m7"
    by (rule write_coils_wire [OF assms(1,3,4,5) length_crc_bytes]) simp
  then have m7: "parsed n u fc m7" using consumed_parsed assms(2) by blast
  have m7': "\<not> ignored (msg m7)" "unit_id (msg m7) = u" "callbacks m7 = callbacks n"
    using m7 by (simp_all add: parsed_def)
  have k0: "k = 0 \<longleftrightarrow> length bs = 0" using assms(3) by (metis unat_eq_0)
  note parse = handle_write_multiple_coils_def 3 assms(3) k' k0 m7'
  show ?thesis
  proof (cases "range_fault 0x7B0 a q")
    case (Some err)
    then have "handle_write_multiple_coils m w = refuse m7 err (w\<lparr>rx := rest\<rparr>)"
      using assms(4) by (auto simp: parse range_faults split: if_splits)
    then show ?thesis using Some refuse_ends [OF m7] by simp
  next
    case None
    then have q: "\<not> q < 1" "\<not> q > 0x7B0" "\<not> beyond_address_space a q" "1 \<le> unat q"
      by (auto simp: range_faults split: if_splits)
    show ?thesis
    proof (cases "length bs = (unat q + 7) div 8")
      case False
      then have "handle_write_multiple_coils m w = refuse m7 NMBS_EXCEPTION_ILLEGAL_DATA_VALUE (w\<lparr>rx := rest\<rparr>)"
        using q by (simp add: parse)
      then show ?thesis using None False refuse_ends [OF m7] by simp
    next
      case True
      then have "length bs \<noteq> 0" using q(4) by simp
      then show ?thesis
        using None True [symmetric] q refuse_ends [OF m7] acknowledge_ends [OF m7, where a = a and v = q and
          r = "the (cb_write_multiple_coils (callbacks n)) a q (bs @ replicate (250 - length bs) 0) u (cb_arg (callbacks n)) (w\<lparr>rx := rest\<rparr>)"]
        by (auto simp: parse split: option.split)
    qed
  qed
qed

lemma write_registers_wire:
  assumes "request_begun n u fc m" "unat k = 2 * length ws" "length ws \<le> 123"
    and "rx w = be16 a @ be16 q @ k # be16s ws @ ck @ rest" "length ck = 2"
  obtains m1 m2 m3 m4 m5 m6 m7 w1 w2 where "recv m 5 w = Some (NMBS_ERROR_NONE, m1, w1)" "get_2 m1 = Some (a, m2)"
    "get_2 m2 = Some (q, m3)" "get_1 m3 = Some (k, m4)" "recv m4 (ucast k) w1 = Some (NMBS_ERROR_NONE, m5, w2)"
    "get_words_loop (length ws) 0 m5 (Some (replicate 123 0)) = Some (m6, Some (ws @ replicate (123 - length ws) 0))"
    "recv_msg_footer m6 w2 = Some (checksum_error (u # fc # be16 a @ be16 q @ k # be16s ws) ck, m7, w\<lparr>rx := rest\<rparr>)"
    "consumed n u fc m7"
proof -
  let ?hd = "be16 a @ be16 q @ [k]"
  obtain n1 n2 n3 where 1: "recv m 5 w = Some (NMBS_ERROR_NONE, n1, w\<lparr>rx := be16s ws @ ck @ rest\<rparr>)" "get_2 n1 = Some (a, n2)"
      "get_2 n2 = Some (q, n3)" "get_1 n3 = Some (k, emit m ?hd)"
    by (rule payload_head_wire [OF assms(1,4)])
  have k: "length ?hd + length (be16s ws) \<le> 254" "length (be16s ws) = unat k" using assms(2,3) by simp_all
  note 2 = payload_wire [OF assms(1) k assms(5)]
  have loop: "get_words_loop (length ws) 0 (load (emit m ?hd) (be16s ws)) (Some (replicate 123 0)) =
      Some (emit m (?hd @ be16s ws), Some (ws @ replicate (123 - length ws) 0))"
    using get_words_load [of "emit m ?hd" ws 0 "replicate 123 0"] 2(2,3) assms(3) by simp
  have "recv_msg_footer (emit m (?hd @ be16s ws)) (w\<lparr>rx := ck @ rest\<rparr>) =
      Some (checksum_error (u # fc # be16 a @ be16 q @ k # be16s ws) ck, emit m ((?hd @ be16s ws) @ ck), w\<lparr>rx := rest\<rparr>)"
    using 2(4) by simp
  then show thesis by (rule that [OF 1 2(1) loop _ 2(5)])
qed

lemma handle_write_multiple_registers_serves:
  assumes "request_begun n u fc m" "u = 0 \<or> u = address_rtu n" "unat k = 2 * length ws" "length ws \<le> 123"
    and "rx w = be16 a @ be16 q @ k # be16s ws @
      crc_bytes (u # fc # be16 a @ be16 q @ k # be16s ws) @ rest"
  shows "ends n (handle_write_multiple_registers m w)
    (transmit u fc (serve (callbacks n) u (Write_Registers a q ws) (w\<lparr>rx := rest\<rparr>)))"
proof -
  have "unat k \<le> unat (246 :: u8)" using assms(3,4) by simp
  then have k': "\<not> 246 < k" by (simp only: word_less_nat_alt not_less)
  obtain m1 m2 m3 m4 m5 m6 m7 w1 w2 where 3: "recv m 5 w = Some (NMBS_ERROR_NONE, m1, w1)" "get_2 m1 = Some (a, m2)"
    "get_2 m2 = Some (q, m3)" "get_1 m3 = Some (k, m4)" "recv m4 (ucast k) w1 = Some (NMBS_ERROR_NONE, m5, w2)"
    "get_words_loop (length ws) 0 m5 (Some (replicate 123 0)) = Some (m6, Some (ws @ replicate (123 - length ws) 0))"
    "recv_msg_footer m6 w2 = Some (NMBS_ERROR_NONE, m7, w\<lparr>rx := rest\<rparr>)"
      and "consumed n u fc m7"
    by (rule write_registers_wire [OF assms(1,3,4,5) length_crc_bytes]) simp
  then have m7: "parsed n u fc m7" using consumed_parsed assms(2) by blast
  have m7': "\<not> ignored (msg m7)" "unit_id (msg m7) = u" "callbacks m7 = callbacks n"
    using m7 by (simp_all add: parsed_def)
  have k0: "k = 0 \<longleftrightarrow> length ws = 0" using assms(3) by (metis unat_eq_0 mult_eq_0_iff zero_neq_numeral)
  note parse = handle_write_multiple_registers_def 3 assms(3) k' k0 m7'
  show ?thesis
  proof (cases "range_fault 0x7B a q")
    case (Some err)
    then have "handle_write_multiple_registers m w = refuse m7 err (w\<lparr>rx := rest\<rparr>)"
      using assms(4) by (auto simp: parse range_faults split: if_splits)
    then show ?thesis using Some refuse_ends [OF m7] by simp
  next
    case None
    then have q: "\<not> q < 1" "\<not> q > 0x7B" "\<not> beyond_address_space a q" "1 \<le> unat q"
      by (auto simp: range_faults split: if_splits)
    show ?thesis
    proof (cases "length ws = unat q")
      case False
      then have "handle_write_multiple_registers m w = refuse m7 NMBS_EXCEPTION_ILLEGAL_DATA_VALUE (w\<lparr>rx := rest\<rparr>)"
        using q by (simp add: parse)
      then show ?thesis using None False refuse_ends [OF m7] by simp
    next
      case True
      then have "length ws \<noteq> 0" using q(4) by simp
      then show ?thesis
        using None True [symmetric] q refuse_ends [OF m7] acknowledge_ends [OF m7, where a = a and v = q and
          r = "the (cb_write_multiple_registers (callbacks n)) a q (ws @ replicate (123 - length ws) 0) u (cb_arg (callbacks n)) (w\<lparr>rx := rest\<rparr>)"]
        by (auto simp: parse split: option.split)
    qed
  qed
qed

lemma read_write_head_wire:
  assumes "request_begun n u fc m"
    and "rx w = be16 ra @ be16 rq @ be16 wa @ be16 wq @ k # p"
  obtains m' m1 m2 m3 m4 where "recv m 9 w = Some (NMBS_ERROR_NONE, m', w\<lparr>rx := p\<rparr>)" "get_2 m' = Some (ra, m1)"
    "get_2 m1 = Some (rq, m2)" "get_2 m2 = Some (wa, m3)" "get_2 m3 = Some (wq, m4)"
    "get_1 m4 = Some (k, emit m (be16 ra @ be16 rq @ be16 wa @ be16 wq @ [k]))"
proof -
  let ?m1 = "emit m (be16 ra)"
  let ?m2 = "emit ?m1 (be16 rq)"
  let ?m3 = "emit ?m2 (be16 wa)"
  have m: "at m [u, fc]" using assms(1) by (simp add: request_begun_def)
  then have room: "room m 9" by (rule at_room) simp
  have e: "emit (emit ?m3 (be16 wq)) [k] = emit m (be16 ra @ be16 rq @ be16 wa @ be16 wq @ [k])"
    using room by (simp add: room_mono)
  have r: "recv m 9 w = Some (NMBS_ERROR_NONE, load m (be16 ra @ be16 rq @ be16 wa @ be16 wq @ [k]), w\<lparr>rx := p\<rparr>)"
    using recv_load [OF m, of w "be16 ra @ be16 rq @ be16 wa @ be16 wq @ [k]" p 9] assms(2) by simp
  have g: "get_2 (load m (be16 ra @ be16 rq @ be16 wa @ be16 wq @ [k])) = Some (ra, load ?m1 (be16 rq @ be16 wa @ be16 wq @ [k]))"
    "get_2 (load ?m1 (be16 rq @ be16 wa @ be16 wq @ [k])) = Some (rq, load ?m2 (be16 wa @ be16 wq @ [k]))"
    "get_2 (load ?m2 (be16 wa @ be16 wq @ [k])) = Some (wa, load ?m3 (be16 wq @ [k]))"
    "get_2 (load ?m3 (be16 wq @ [k])) = Some (wq, load (emit ?m3 (be16 wq)) [k])"
    using room by simp_all
  have g3: "get_1 (load (emit ?m3 (be16 wq)) [k]) = Some (k, emit m (be16 ra @ be16 rq @ be16 wa @ be16 wq @ [k]))"
    using room e by simp
  show thesis by (rule that [OF r g g3])
qed

lemma read_write_registers_wire:
  assumes "request_begun n u fc m" "unat k = 2 * length ws" "length ws \<le> 121"
    and "rx w = be16 ra @ be16 rq @ be16 wa @ be16 wq @ k # be16s ws @ ck @ rest" "length ck = 2"
  obtains m1 m2 m3 m4 m5 m6 m7 m8 m9 w1 w2 where "recv m 9 w = Some (NMBS_ERROR_NONE, m1, w1)" "get_2 m1 = Some (ra, m2)"
    "get_2 m2 = Some (rq, m3)" "get_2 m3 = Some (wa, m4)" "get_2 m4 = Some (wq, m5)" "get_1 m5 = Some (k, m6)"
    "recv m6 (ucast k) w1 = Some (NMBS_ERROR_NONE, m7, w2)"
    "get_words_loop (length ws) 0 m7 (Some (replicate (length ws) 0)) = Some (m8, Some ws)"
    "recv_msg_footer m8 w2 = Some (checksum_error (u # fc # be16 ra @ be16 rq @ be16 wa @ be16 wq @ k # be16s ws) ck,
       m9, w\<lparr>rx := rest\<rparr>)"
    "consumed n u fc m9"
proof -
  let ?hd = "be16 ra @ be16 rq @ be16 wa @ be16 wq @ [k]"
  obtain n1 n2 n3 n4 n5 where 1: "recv m 9 w = Some (NMBS_ERROR_NONE, n1, w\<lparr>rx := be16s ws @ ck @ rest\<rparr>)" "get_2 n1 = Some (ra, n2)"
      "get_2 n2 = Some (rq, n3)" "get_2 n3 = Some (wa, n4)" "get_2 n4 = Some (wq, n5)" "get_1 n5 = Some (k, emit m ?hd)"
    by (rule read_write_head_wire [OF assms(1,4)])
  have k: "length ?hd + length (be16s ws) \<le> 254" "length (be16s ws) = unat k" using assms(2,3) by simp_all
  note 2 = payload_wire [OF assms(1) k assms(5)]
  have loop: "get_words_loop (length ws) 0 (load (emit m ?hd) (be16s ws)) (Some (replicate (length ws) 0)) =
      Some (emit m (?hd @ be16s ws), Some ws)"
    using get_words_load [of "emit m ?hd" ws 0 "replicate (length ws) 0"] 2(2,3) assms(3) by simp
  have "recv_msg_footer (emit m (?hd @ be16s ws)) (w\<lparr>rx := ck @ rest\<rparr>) =
      Some (checksum_error (u # fc # be16 ra @ be16 rq @ be16 wa @ be16 wq @ k # be16s ws) ck,
        emit m ((?hd @ be16s ws) @ ck), w\<lparr>rx := rest\<rparr>)"
    using 2(4) by simp
  then show thesis by (rule that [OF 1 2(1) loop _ 2(5)])
qed

lemma handle_read_write_registers_serves:
  assumes "request_begun n u fc m" "u = 0 \<or> u = address_rtu n" "unat k = 2 * length ws" "length ws \<le> 121"
    and "rx w = be16 ra @ be16 rq @ be16 wa @ be16 wq @ k # be16s ws @
      crc_bytes (u # fc # be16 ra @ be16 rq @ be16 wa @ be16 wq @ k # be16s ws) @ rest"
    and cb: "\<And>f a q xs u p w. cb_read_holding_registers (callbacks n) = Some f \<Longrightarrow> length (fst (snd (f a q xs u p w))) = length xs"
  shows "ends n (handle_read_write_registers m w)
    (transmit u fc (serve (callbacks n) u (Read_Write_Registers ra rq wa wq ws) (w\<lparr>rx := rest\<rparr>)))"
proof -
  have "unat k \<le> unat (242 :: u8)" using assms(3,4) by simp
  then have k': "\<not> 242 < k" by (simp only: word_less_nat_alt not_less)
  obtain m1 m2 m3 m4 m5 m6 m7 m8 m9 w1 w2 where 3: "recv m 9 w = Some (NMBS_ERROR_NONE, m1, w1)" "get_2 m1 = Some (ra, m2)"
    "get_2 m2 = Some (rq, m3)" "get_2 m3 = Some (wa, m4)" "get_2 m4 = Some (wq, m5)" "get_1 m5 = Some (k, m6)"
    "recv m6 (ucast k) w1 = Some (NMBS_ERROR_NONE, m7, w2)"
    "get_words_loop (length ws) 0 m7 (Some (replicate (length ws) 0)) = Some (m8, Some ws)"
    "recv_msg_footer m8 w2 = Some (NMBS_ERROR_NONE, m9, w\<lparr>rx := rest\<rparr>)"
      and "consumed n u fc m9"
    by (rule read_write_registers_wire [OF assms(1,3,4,5) length_crc_bytes]) simp
  then have m9: "parsed n u fc m9" using consumed_parsed assms(2) by blast
  have m9': "\<not> ignored (msg m9)" "unit_id (msg m9) = u" "callbacks m9 = callbacks n" "broadcast (msg m9) \<longleftrightarrow> u = 0" "config m9 = config n" "wf_nmbs m9"
    using m9 by (simp_all add: parsed_def)
  note parse = handle_read_write_registers_def 3 assms(3) k' m9'
  let ?w' = "w\<lparr>rx := rest\<rparr>"
  let ?v = "unat rq < 1 \<or> 125 < unat rq \<or> unat wq < 1 \<or> 0x7B < unat wq \<or> length ws \<noteq> unat wq"
  let ?a = "65536 < unat ra + unat rq \<or> 65536 < unat wa + unat wq"
  have v: "?v \<longleftrightarrow> rq < 1 \<or> rq > 0x7D \<or> wq < 1 \<or> wq > 0x7B \<or> unat k \<noteq> unat wq * 2"
    using assms(3) by (simp add: word_less_nat_alt)
  have a: "?a \<longleftrightarrow> beyond_address_space ra rq \<or> beyond_address_space wa wq"
    by (simp add: beyond_address_space_iff)
  show ?thesis
  proof (cases "?v \<or> ?a")
    case True
    then have "handle_read_write_registers m w =
        refuse m9 (if ?v then NMBS_EXCEPTION_ILLEGAL_DATA_VALUE else NMBS_EXCEPTION_ILLEGAL_DATA_ADDRESS) ?w'"
      unfolding v a by (auto simp: parse)
    then show ?thesis using True refuse_ends [OF m9] by auto
  next
    case False
    then have q: "\<not> rq < 1" "\<not> rq > 0x7D" "\<not> wq < 1" "\<not> wq > 0x7B" "unat wq = length ws"
        "\<not> beyond_address_space ra rq" "\<not> beyond_address_space wa wq"
      using v a assms(3) by simp_all
    then have range: "\<not> unat rq < 1" "\<not> 125 < unat rq" "\<not> length ws < 1" "\<not> 0x7B < length ws"
        "\<not> 65536 < unat ra + unat rq" "\<not> 65536 < unat wa + length ws"
      using False by simp_all
    show ?thesis
    proof (cases "cb_write_multiple_registers (callbacks n) = None \<or> cb_read_holding_registers (callbacks n) = None")
      case True
      then show ?thesis
        using range q refuse_ends [OF m9] by (auto simp: parse split: option.split)
    next
      case cbs: False
      then obtain f g where fg: "cb_write_multiple_registers (callbacks n) = Some f" "cb_read_holding_registers (callbacks n) = Some g"
        by auto
      obtain err w3 where f: "f wa wq ws u (cb_arg (callbacks n)) ?w' = (err, w3)"
        by (cases "f wa wq ws u (cb_arg (callbacks n)) ?w'")
      obtain err' regs w4 where g: "g ra rq (replicate (unat rq) 0) u (cb_arg (callbacks n)) w3 = (err', regs, w4)"
        by (cases "g ra rq (replicate (unat rq) 0) u (cb_arg (callbacks n)) w3")
      have "length regs = unat rq"
        using cb [OF fg(2), of ra rq "replicate (unat rq) 0" u _ w3] g by (metis fst_conv snd_conv length_replicate)
      then show ?thesis
        using range q fg f g callback_failed_ends [OF m9, of err w3] callback_failed_ends [OF m9, of err' w4]
          registers_response_ends [OF m9, of rq regs w4]
        by (simp add: parse Let_def serve_registers_def range_fault_def transmit_def)
    qed
  qed
qed

section \<open>The server\<close>

text \<open>The requests whose handler is chosen by their function code.\<close>

lemma handle_req_fc_simps:
  "msg_fc (msg m) = 1 \<Longrightarrow> handle_req_fc m w = handle_read_discrete m (cb_read_coils (callbacks m)) w"
  "msg_fc (msg m) = 2 \<Longrightarrow> handle_req_fc m w = handle_read_discrete m (cb_read_discrete_inputs (callbacks m)) w"
  "msg_fc (msg m) = 3 \<Longrightarrow> handle_req_fc m w = handle_read_registers m (cb_read_holding_registers (callbacks m)) w"
  "msg_fc (msg m) = 4 \<Longrightarrow> handle_req_fc m w = handle_read_registers m (cb_read_input_registers (callbacks m)) w"
  "msg_fc (msg m) = 5 \<Longrightarrow> handle_req_fc m w = handle_write_single_coil m w"
  "msg_fc (msg m) = 6 \<Longrightarrow> handle_req_fc m w = handle_write_single_register m w"
  "msg_fc (msg m) = 15 \<Longrightarrow> handle_req_fc m w = handle_write_multiple_coils m w"
  "msg_fc (msg m) = 16 \<Longrightarrow> handle_req_fc m w = handle_write_multiple_registers m w"
  "msg_fc (msg m) = 23 \<Longrightarrow> handle_req_fc m w = handle_read_write_registers m w"
  by (simp_all add: handle_req_fc_def handle_read_coils_def handle_read_discrete_inputs_def
      handle_read_holding_registers_def handle_read_input_registers_def)

lemma callbacks_okD:
  assumes "callbacks_ok c"
  shows "cb_read_coils c = Some f \<or> cb_read_discrete_inputs c = Some f \<Longrightarrow> length (fst (snd (f a q bs u p w))) = length bs"
    and "cb_read_holding_registers c = Some g \<or> cb_read_input_registers c = Some g \<Longrightarrow>
      length (fst (snd (g a q xs u p w))) = length xs"
  using assms by (auto simp: callbacks_ok_def)

lemma handle_req_fc_serves:
  assumes n: "callbacks_ok (callbacks n)" and m: "request_begun n u (request_fc r) m"
    and u: "u = 0 \<or> u = address_rtu n" and r: "request_ok r"
    and w: "rx w = request_data r @ crc_bytes (u # request_fc r # request_data r) @ rest"
  shows "ends n (handle_req_fc m w) (transmit u (request_fc r) (serve (callbacks n) u r (w\<lparr>rx := rest\<rparr>)))"
proof -
  have fc: "msg_fc (msg m) = request_fc r" and c: "callbacks m = callbacks n"
    using m configD(5) [of m n] by (simp_all add: request_begun_def)
  note cb = callbacks_okD [OF n]
  show ?thesis
  proof (cases r)
    case [simp]: (Read_Coils a q)
    show ?thesis
      using handle_read_discrete_serves [OF m u, of w a q rest "cb_read_coils (callbacks n)"] fc c cb(1) w
      by (simp add: handle_req_fc_simps)
  next
    case [simp]: (Read_Discrete_Inputs a q)
    show ?thesis
      using handle_read_discrete_serves [OF m u, of w a q rest "cb_read_discrete_inputs (callbacks n)"] fc c cb(1) w
      by (simp add: handle_req_fc_simps)
  next
    case [simp]: (Read_Holding_Registers a q)
    show ?thesis
      using handle_read_registers_serves [OF m u, of w a q rest "cb_read_holding_registers (callbacks n)"] fc c cb(2) w
      by (simp add: handle_req_fc_simps)
  next
    case [simp]: (Read_Input_Registers a q)
    show ?thesis
      using handle_read_registers_serves [OF m u, of w a q rest "cb_read_input_registers (callbacks n)"] fc c cb(2) w
      by (simp add: handle_req_fc_simps)
  next
    case [simp]: (Write_Coil a v)
    show ?thesis
      using handle_write_single_coil_serves [OF m u, of w a v rest] fc c w by (simp add: handle_req_fc_simps)
  next
    case [simp]: (Write_Register a v)
    show ?thesis
      using handle_write_single_register_serves [OF m u, of w a v rest] fc c w by (simp add: handle_req_fc_simps)
  next
    case [simp]: (Write_Coils a q bs)
    have "unat (of_nat (length bs) :: u8) = length bs" using r by (intro unat_of_nat_less) simp
    then show ?thesis
      using handle_write_multiple_coils_serves [OF m u, of _ bs w a q rest] r fc c w by (simp add: handle_req_fc_simps)
  next
    case [simp]: (Write_Registers a q ws)
    have "unat (of_nat (2 * length ws) :: u8) = 2 * length ws" using r by (intro unat_of_nat_less) simp
    from handle_write_multiple_registers_serves [OF m u this, of w a q rest] show ?thesis
      using r fc c w by (simp add: handle_req_fc_simps)
  next
    case [simp]: (Read_Write_Registers ra rq wa wq ws)
    have "unat (of_nat (2 * length ws) :: u8) = 2 * length ws" using r by (intro unat_of_nat_less) simp
    from handle_read_write_registers_serves [OF m u this, of w ra rq wa wq rest] show ?thesis
      using r fc c w cb(2) by (simp add: handle_req_fc_simps)
  qed
qed

end
