(* ===== verification/Server_Checksum.thy ===== *)
theory Server_Checksum
  imports Server_Reference
begin

text \<open>
  Requests with a wrong checksum, for every function code that the server knows: each handler
  reads the data of its request and the checksum before it does anything else, and gives up when
  the checksum is wrong.
\<close>

section \<open>The requests of the reference server\<close>

lemma two_words_rejects:
  fixes w :: "'a wire" and rest :: "u8 list"
  assumes "request_begun n u fc m" "rx w = be16 a @ be16 q @ ck @ rest" "length ck = 2"
    and "ck \<noteq> crc_bytes (u # fc # be16 a @ be16 q)"
  defines "P \<equiv> (\<lambda>(err, n', w'). err = NMBS_ERROR_CRC \<and> config n' = config n \<and> wf_nmbs n' \<and> w' = w\<lparr>rx := rest\<rparr>)"
  shows "returns (handle_read_discrete m bits_cb w) P" "returns (handle_read_registers m regs_cb w) P"
    and "returns (handle_write_single_coil m w) P" "returns (handle_write_single_register m w) P"
proof -
  obtain m1 m2 m3 m4 w1 where 1: "recv m 4 w = Some (NMBS_ERROR_NONE, m1, w1)" "get_2 m1 = Some (a, m2)"
      "get_2 m2 = Some (q, m3)" "recv_msg_footer m3 w1 = Some (NMBS_ERROR_CRC, m4, w\<lparr>rx := rest\<rparr>)"
      and "consumed n u fc m4"
    by (rule two_words_wire [OF assms(1-3)]) (use assms(4) in \<open>simp add: checksum_error_def\<close>)
  then show "returns (handle_read_discrete m bits_cb w) P" "returns (handle_read_registers m regs_cb w) P"
    "returns (handle_write_single_coil m w) P" "returns (handle_write_single_register m w) P"
    by (simp_all add: handle_read_discrete_def handle_read_registers_def handle_write_single_coil_def
        handle_write_single_register_def 1 P_def consumed_def)
qed

lemma payload_rejects:
  fixes w :: "'a wire" and rest :: "u8 list"
  assumes m: "request_begun n u fc m" and ck: "length ck = 2" "ck \<noteq> crc_bytes (u # fc # body)"
  defines "P \<equiv> (\<lambda>(err, n', w'). err = NMBS_ERROR_CRC \<and> config n' = config n \<and> wf_nmbs n' \<and> w' = w\<lparr>rx := rest\<rparr>)"
  shows "body = be16 a @ be16 q @ k # bs \<Longrightarrow> unat k = length bs \<Longrightarrow> length bs \<le> 246 \<Longrightarrow>
      rx w = body @ ck @ rest \<Longrightarrow> returns (handle_write_multiple_coils m w) P"
    and "body = be16 a @ be16 q @ k # be16s ws \<Longrightarrow> unat k = 2 * length ws \<Longrightarrow> length ws \<le> 123 \<Longrightarrow>
      rx w = body @ ck @ rest \<Longrightarrow> returns (handle_write_multiple_registers m w) P"
    and "body = be16 a @ be16 q @ be16 wa @ be16 wq @ k # be16s ws \<Longrightarrow> unat k = 2 * length ws \<Longrightarrow>
      length ws \<le> 121 \<Longrightarrow> rx w = body @ ck @ rest \<Longrightarrow> returns (handle_read_write_registers m w) P"
proof goal_cases
  case 1
  then have rx: "rx w = be16 a @ be16 q @ k # bs @ ck @ rest" by simp
  have "unat k \<le> unat (246 :: u8)" using 1 by simp
  then have k': "\<not> 246 < k" by (simp only: word_less_nat_alt not_less)
  show ?case
    by (rule write_coils_wire [OF m 1(2,3) rx ck(1)])
      (use ck(2) 1(1,2) k' in \<open>simp add: handle_write_multiple_coils_def checksum_error_def P_def consumed_def\<close>)
next
  case 2
  then have rx: "rx w = be16 a @ be16 q @ k # be16s ws @ ck @ rest" by simp
  have "unat k \<le> unat (246 :: u8)" using 2 by simp
  then have k': "\<not> 246 < k" by (simp only: word_less_nat_alt not_less)
  show ?case
    by (rule write_registers_wire [OF m 2(2,3) rx ck(1)])
      (use ck(2) 2(1,2) k' in \<open>simp add: handle_write_multiple_registers_def checksum_error_def P_def consumed_def\<close>)
next
  case 3
  then have rx: "rx w = be16 a @ be16 q @ be16 wa @ be16 wq @ k # be16s ws @ ck @ rest" by simp
  have "unat k \<le> unat (242 :: u8)" using 3 by simp
  then have k': "\<not> 242 < k" by (simp only: word_less_nat_alt not_less)
  show ?case
    by (rule read_write_registers_wire [OF m 3(2,3) rx ck(1)])
      (use ck(2) 3(1,2) k' in \<open>simp add: handle_read_write_registers_def checksum_error_def P_def consumed_def\<close>)
qed

lemma request_rejects:
  assumes m: "request_begun n u (request_fc r) m" and r: "request_ok r"
    and ck: "length ck = 2" "ck \<noteq> crc_bytes (u # request_fc r # request_data r)"
    and w: "rx w = request_data r @ ck @ rest"
  shows "returns (handle_req_fc m w)
    (\<lambda>(err, n', w'). err = NMBS_ERROR_CRC \<and> config n' = config n \<and> wf_nmbs n' \<and> w' = w\<lparr>rx := rest\<rparr>)"
proof -
  have fc: "msg_fc (msg m) = request_fc r" using m by (simp add: request_begun_def)
  note two = two_words_rejects [OF m _ ck(1), where w = w] and more = payload_rejects [OF m ck, where w = w]
  show ?thesis
  proof (cases r)
    case [simp]: (Write_Coils a q bs)
    have "unat (of_nat (length bs) :: u8) = length bs" using r by (intro unat_of_nat_less) simp
    from more(1) [OF _ this] show ?thesis using r fc w by (simp add: handle_req_fc_simps)
  next
    case [simp]: (Write_Registers a q ws)
    have "unat (of_nat (2 * length ws) :: u8) = 2 * length ws" using r by (intro unat_of_nat_less) simp
    from more(2) [OF _ this] show ?thesis using r fc w by (simp add: handle_req_fc_simps)
  next
    case [simp]: (Read_Write_Registers ra rq wa wq ws)
    have "unat (of_nat (2 * length ws) :: u8) = 2 * length ws" using r by (intro unat_of_nat_less) simp
    from more(3) [OF _ this] show ?thesis using r fc w by (simp add: handle_req_fc_simps)
  qed (use two fc ck(2) w in \<open>simp_all add: handle_req_fc_simps\<close>)
qed

section \<open>File records and identification\<close>

lemma discard_load: "discard_n (load n p) (of_nat (length p)) = emit n p"
  by (simp add: discard_n_def load_def emit_def advance_def set_buf_def)

lemma get_subreqs_load:
  assumes "room n (length p)" "7 * c \<le> length p"
  shows "\<exists>rs sz'. get_subreqs c (load n p) sz = Some (rs, sz', load (emit n (take (7 * c) p)) (drop (7 * c) p))"
  using assms
proof (induction c arbitrary: n p sz)
  case 0
  have "emit n [] = n" by (simp add: emit_def set_buf_def advance_def)
  then show ?case by simp
next
  case (Suc c)
  have "7 \<le> length p" using Suc.prems(2) by simp
  then obtain b0 b1 b2 b3 b4 b5 b6 q where p: "p = b0 # b1 # b2 # b3 # b4 # b5 # b6 # q"
    by (auto simp: Suc_le_length_iff eval_nat_numeral)
  have "length p = 7 + length q" by (simp add: p)
  then have room: "room n (7 + length q)" using Suc.prems(1) by (simp only:)
  then have "room (emit n [b0, b1, b2, b3, b4, b5, b6]) (length q)" by (intro room_emit) (simp add: room_def)
  moreover have "7 * c \<le> length q" using Suc.prems(2) p by simp
  ultimately obtain rs sz' where rest: "get_subreqs c (load (emit n [b0, b1, b2, b3, b4, b5, b6]) q)
      (sz + (2 + ucast (word_of_bytes b5 b6 * 2))) =
      Some (rs, sz', load (emit (emit n [b0, b1, b2, b3, b4, b5, b6]) (take (7 * c) q)) (drop (7 * c) q))"
    using Suc.IH by blast
  have "p = [b0, b1, b2, b3, b4, b5, b6] @ q" by (simp add: p)
  then have cut: "take (7 * Suc c) p = [b0, b1, b2, b3, b4, b5, b6] @ take (7 * c) q" "drop (7 * Suc c) p = drop (7 * c) q"
    by (simp_all only: take_append drop_append) simp_all
  have whole: "emit (emit n [b0, b1, b2, b3, b4, b5, b6]) (take (7 * c) q) = emit n (take (7 * Suc c) p)"
    unfolding cut using room by (intro emit_emit) (auto simp: room_def min_def)
  have "room n (Suc (Suc (Suc (Suc (Suc (Suc (Suc (length q))))))))" "room n (Suc 0)" "room n (Suc (Suc (Suc 0)))"
    "room n (Suc (Suc (Suc (Suc (Suc 0)))))" "room n (Suc (Suc (Suc (Suc (Suc (Suc (Suc 0)))))))"
    using room by (simp_all add: room_def)
  then have "get_subreqs (Suc c) (load n p) sz = do {
      (rs, sz', n) \<leftarrow> get_subreqs c (load (emit n [b0, b1, b2, b3, b4, b5, b6]) q) (sz + (2 + ucast (word_of_bytes b5 b6 * 2)));
      Some (\<lparr>reference_type = b0, file_number = word_of_bytes b1 b2, record_number = word_of_bytes b3 b4,
        record_length = word_of_bytes b5 b6\<rparr> # rs, sz', n) }"
    by (simp add: p)
  then show ?case using rest whole cut(2) by simp
qed

text \<open>A request that begins with the length of its data.\<close>

lemma length_byte_wire:
  assumes m: "request_begun n u fc m" and len: "unat k = length bs" "length bs \<le> 251" and ck: "length ck = 2"
    and w: "rx w = k # bs @ ck @ rest"
  obtains m1 where "recv m 1 w = Some (NMBS_ERROR_NONE, m1, w\<lparr>rx := bs @ ck @ rest\<rparr>)" "get_1 m1 = Some (k, emit m [k])"
    "recv (emit m [k]) (ucast k) (w\<lparr>rx := bs @ ck @ rest\<rparr>) = Some (NMBS_ERROR_NONE, load (emit m [k]) bs, w\<lparr>rx := ck @ rest\<rparr>)"
    "room (emit m [k]) (length bs)" "emit (emit m [k]) bs = emit m (k # bs)"
    "recv_msg_footer (emit m (k # bs)) (w\<lparr>rx := ck @ rest\<rparr>) =
      Some (checksum_error (u # fc # k # bs) ck, emit m ((k # bs) @ ck), w\<lparr>rx := rest\<rparr>)"
    "consumed n u fc (emit m ((k # bs) @ ck))"
proof -
  have at: "at m [u, fc]" using m by (simp add: request_begun_def)
  have r: "recv m 1 w = Some (NMBS_ERROR_NONE, load m [k], w\<lparr>rx := bs @ ck @ rest\<rparr>)"
    using recv_load [OF at, of w "[k]" "bs @ ck @ rest" 1] w by simp
  have g: "get_1 (load m [k]) = Some (k, emit m [k])"
    using at_room [OF at, of 1] by simp
  have "length [k] + length bs \<le> 254" using len(2) by simp
  note p = payload_wire [OF m this len(1) [symmetric] ck]
  show thesis
    by (rule that [OF r g p(1,3)]) (use p(2,4,5) in simp_all)
qed

lemma record_requests_reject:
  fixes w :: "'a wire" and rest :: "u8 list"
  assumes m: "request_begun n u fc m" and ck: "length ck = 2" "ck \<noteq> crc_bytes (u # fc # k # bs)"
    and len: "unat k = length bs" and w: "rx w = k # bs @ ck @ rest"
  defines "P \<equiv> (\<lambda>(err, n', w'). err = NMBS_ERROR_CRC \<and> config n' = config n \<and> wf_nmbs n' \<and> w' = w\<lparr>rx := rest\<rparr>)"
  shows "length bs \<le> 245 \<Longrightarrow> returns (handle_read_file_record m w) P"
    and "length bs \<le> 251 \<Longrightarrow> returns (handle_write_file_record m w) P"
proof -
  assume short: "length bs \<le> 245"
  then have "length bs \<le> 251" by simp
  from length_byte_wire [OF m len this ck(1) w]
  obtain m1 where 1: "recv m 1 w = Some (NMBS_ERROR_NONE, m1, w\<lparr>rx := bs @ ck @ rest\<rparr>)" "get_1 m1 = Some (k, emit m [k])"
    "recv (emit m [k]) (ucast k) (w\<lparr>rx := bs @ ck @ rest\<rparr>) = Some (NMBS_ERROR_NONE, load (emit m [k]) bs, w\<lparr>rx := ck @ rest\<rparr>)"
    "room (emit m [k]) (length bs)" "emit (emit m [k]) bs = emit m (k # bs)"
    "recv_msg_footer (emit m (k # bs)) (w\<lparr>rx := ck @ rest\<rparr>) =
      Some (checksum_error (u # fc # k # bs) ck, emit m ((k # bs) @ ck), w\<lparr>rx := rest\<rparr>)"
    "consumed n u fc (emit m ((k # bs) @ ck))"
    by metis
  have "unat k \<le> unat (245 :: u8)" using short len by simp
  then have k: "\<not> 245 < k" by (simp only: word_less_nat_alt not_less)
  let ?c = "length bs div 7"
  have c: "unat (k div 7) = ?c" "7 * ?c \<le> length bs" using len by (simp_all add: unat_div)
  obtain rs sz where subs: "get_subreqs (unat (k div 7)) (load (emit m [k]) bs) 0 =
      Some (rs, sz, load (emit (emit m [k]) (take (7 * ?c) bs)) (drop (7 * ?c) bs))"
    using get_subreqs_load [OF 1(4) c(2), of 0] c(1) by auto
  have "length (drop (7 * ?c) bs) = length bs mod 7" by (simp add: minus_mult_div_eq_mod)
  also have "\<dots> = unat (k mod 7)" by (simp add: unat_mod len)
  finally have "length (drop (7 * ?c) bs) = unat (k mod 7)" .
  then have odd: "ucast (k mod 7) = (of_nat (length (drop (7 * ?c) bs)) :: u16)"
    by (simp only: of_nat_unat)
  have "emit (emit (emit m [k]) (take (7 * ?c) bs)) (drop (7 * ?c) bs) = emit (emit m [k]) bs"
    using 1(4) c(2) by (subst emit_emit) simp_all
  then have rest_read: "discard_n (load (emit (emit m [k]) (take (7 * ?c) bs)) (drop (7 * ?c) bs)) (ucast (k mod 7)) = emit m (k # bs)"
    by (simp only: odd discard_load 1(5))
  show "returns (handle_read_file_record m w) P"
    using ck(2) 1(7) by (simp add: handle_read_file_record_def 1(1,2,3,6) k subs rest_read checksum_error_def P_def consumed_def Let_def)
next
  assume short: "length bs \<le> 251"
  from length_byte_wire [OF m len this ck(1) w]
  obtain m1 where 1: "recv m 1 w = Some (NMBS_ERROR_NONE, m1, w\<lparr>rx := bs @ ck @ rest\<rparr>)" "get_1 m1 = Some (k, emit m [k])"
    "recv (emit m [k]) (ucast k) (w\<lparr>rx := bs @ ck @ rest\<rparr>) = Some (NMBS_ERROR_NONE, load (emit m [k]) bs, w\<lparr>rx := ck @ rest\<rparr>)"
    "room (emit m [k]) (length bs)" "emit (emit m [k]) bs = emit m (k # bs)"
    "recv_msg_footer (emit m (k # bs)) (w\<lparr>rx := ck @ rest\<rparr>) =
      Some (checksum_error (u # fc # k # bs) ck, emit m ((k # bs) @ ck), w\<lparr>rx := rest\<rparr>)"
    "consumed n u fc (emit m ((k # bs) @ ck))"
    by metis
  have "unat k \<le> unat (251 :: u8)" using short len by simp
  then have k: "\<not> 251 < k" by (simp only: word_less_nat_alt not_less)
  have "ucast k = (of_nat (length bs) :: u16)" by (simp only: len [symmetric] of_nat_unat)
  then have all_read: "discard_n (load (emit m [k]) bs) (ucast k) = emit m (k # bs)"
    by (simp only: discard_load 1(5))
  show "returns (handle_write_file_record m w) P"
    using ck(2) 1(7) by (simp add: handle_write_file_record_def 1(1,2,3,6) k all_read checksum_error_def P_def consumed_def Let_def)
qed

lemma identification_rejects:
  fixes w :: "'a wire" and rest :: "u8 list"
  assumes m: "request_begun n u fc m" and ck: "length ck = 2" "ck \<noteq> crc_bytes [u, fc, a, b, c]"
    and w: "rx w = [a, b, c] @ ck @ rest"
  shows "returns (handle_read_device_identification m w)
    (\<lambda>(err, n', w'). err = NMBS_ERROR_CRC \<and> config n' = config n \<and> wf_nmbs n' \<and> w' = w\<lparr>rx := rest\<rparr>)"
proof -
  have at: "at m [u, fc]" using m by (simp add: request_begun_def)
  then have room: "room m 3" by (rule at_room) simp
  have r: "recv m 3 w = Some (NMBS_ERROR_NONE, load m [a, b, c], w\<lparr>rx := ck @ rest\<rparr>)"
    using recv_load [OF at, of w "[a, b, c]" "ck @ rest" 3] w by simp
  have rooms: "room m (Suc (Suc (Suc 0)))" "room (emit m [a]) (Suc (Suc 0))" "room (emit (emit m [a]) [b]) (Suc 0)"
    using room room_emit [of m "[a]" 2] room_emit [of m "[a, b]" 1] emit_emit [of m "[a]" "[b]"] room_mono [OF room, of 2]
    by (simp_all add: numeral_2_eq_2 numeral_3_eq_3)
  have e: "emit (emit (emit m [a]) [b]) [c] = emit m [a, b, c]"
    using room by (simp add: room_mono)
  have g: "get_1 (load m [a, b, c]) = Some (a, load (emit m [a]) [b, c])"
    "get_1 (load (emit m [a]) [b, c]) = Some (b, load (emit (emit m [a]) [b]) [c])"
    "get_1 (load (emit (emit m [a]) [b]) [c]) = Some (c, emit m [a, b, c])"
    using rooms e by simp_all
  have f: "recv_msg_footer (emit m [a, b, c]) (w\<lparr>rx := ck @ rest\<rparr>) =
      Some (NMBS_ERROR_CRC, emit m ([a, b, c] @ ck), w\<lparr>rx := rest\<rparr>)"
    using footer_wire [OF at, of "[a, b, c]" "w\<lparr>rx := ck @ rest\<rparr>" ck rest] ck by (simp add: checksum_error_def)
  have "consumed n u fc (emit m ([a, b, c] @ ck))"
    by (rule consumed_emit [OF m]) (use ck(1) in simp)
  then show ?thesis
    by (simp add: handle_read_device_identification_def r g f consumed_def)
qed

section \<open>All requests\<close>

text \<open>
  The data of a request with the length that the server expects, for each of the function codes
  that it knows.
\<close>

definition delimited :: "u8 \<Rightarrow> u8 list \<Rightarrow> bool" where
  "delimited fc data \<longleftrightarrow> (\<exists>r. request_ok r \<and> fc = request_fc r \<and> data = request_data r) \<or>
     fc = 20 \<and> (\<exists>bs. length bs \<le> 245 \<and> data = of_nat (length bs) # bs) \<or>
     fc = 21 \<and> (\<exists>bs. length bs \<le> 251 \<and> data = of_nat (length bs) # bs) \<or>
     fc = 43 \<and> length data = 3"

lemma handle_req_fc_rejects:
  assumes m: "request_begun n u fc m" and d: "delimited fc data"
    and ck: "length ck = 2" "ck \<noteq> crc_bytes (u # fc # data)" and w: "rx w = data @ ck @ rest"
  shows "returns (handle_req_fc m w)
    (\<lambda>(err, n', w'). err = NMBS_ERROR_CRC \<and> config n' = config n \<and> wf_nmbs n' \<and> w' = w\<lparr>rx := rest\<rparr>)"
proof -
  have fc: "msg_fc (msg m) = fc" using m by (simp add: request_begun_def)
  consider (request) r where "request_ok r" "fc = request_fc r" "data = request_data r"
    | (reading) bs where "fc = 20" "length bs \<le> 245" "data = of_nat (length bs) # bs"
    | (writing) bs where "fc = 21" "length bs \<le> 251" "data = of_nat (length bs) # bs"
    | (identify) "fc = 43" "length data = 3"
    using d by (auto simp: delimited_def)
  then show ?thesis
  proof cases
    case request
    then show ?thesis using request_rejects [of n u r m ck w rest] m ck w by simp
  next
    case reading
    have "unat (of_nat (length bs) :: u8) = length bs" using reading by (intro unat_of_nat_less) simp
    with record_requests_reject(1) [OF m ck(1) _ this] reading ck(2) w fc show ?thesis
      by (simp add: handle_req_fc_def Let_def)
  next
    case writing
    have "unat (of_nat (length bs) :: u8) = length bs" using writing by (intro unat_of_nat_less) simp
    with record_requests_reject(2) [OF m ck(1) _ this] writing ck(2) w fc show ?thesis
      by (simp add: handle_req_fc_def Let_def)
  next
    case identify
    then obtain a b c where "data = [a, b, c]" by (auto simp: length_Suc_conv numeral_3_eq_3)
    with identification_rejects [OF m ck(1), of a b c w rest] identify ck(2) w fc show ?thesis
      by (simp add: handle_req_fc_def Let_def)
  qed
qed

end
