(* ===== verification/Server_Properties.thy ===== *)
theory Server_Properties
  imports Server_Checksum
begin

text \<open>
  The properties of the server on a wire, and a concrete server as their witness: a bank of
  registers behind the library's callbacks.
\<close>

section \<open>Polling\<close>

lemma poll_request:
  assumes n: "rtu_wire n" and w: "rx w = u # fc # p"
    and h: "\<And>m. request_begun n u fc m \<Longrightarrow>
      returns (handle_req_fc m (w\<lparr>rx := p\<rparr>)) (\<lambda>(err, n', w'). err = NMBS_ERROR_NONE \<and> Q (err, n', w'))"
  shows "returns (nmbs_server_poll n w) Q"
  using recv_req_header_wire [OF n w] h
  by (fastforce simp: nmbs_server_poll_def elim!: returnsE)

lemma flush_wire:
  assumes "rtu_wire n"
  shows "returns (flush n w) (\<lambda>(n', w'). config n' = config n \<and> wf_nmbs n' \<and> unit_id (msg n') = unit_id (msg n) \<and>
    msg_fc (msg n') = msg_fc (msg n) \<and> ignored (msg n') = ignored (msg n) \<and>
    broadcast (msg n') = broadcast (msg n) \<and> w' = w\<lparr>rx := drop 260 (rx w)\<rparr>)"
  using assms
  by (simp add: flush_def platform_read_def rtu_conf_def wire_read_def wf_nmbs_def min_def Let_def)

lemma poll_failed:
  assumes n: "rtu_wire n" and w: "rx w = u # fc # p"
    and h: "\<And>m. request_begun n u fc m \<Longrightarrow>
      returns (handle_req_fc m (w\<lparr>rx := p\<rparr>)) (\<lambda>(err, n', w'). err = e \<and> config n' = config n \<and> wf_nmbs n' \<and> w' = w1)"
    and e: "e \<noteq> NMBS_ERROR_NONE" "e \<noteq> NMBS_ERROR_TIMEOUT"
  shows "returns (nmbs_server_poll n w) (\<lambda>(err, n', w'). err = e \<and> config n' = config n \<and> wf_nmbs n' \<and>
    w' = w1\<lparr>rx := drop 260 (rx w1)\<rparr>)"
proof -
  obtain first m where m: "recv_req_header (msg_state_reset n) w = Some (NMBS_ERROR_NONE, first, m, w\<lparr>rx := p\<rparr>)"
      "request_begun n u fc m"
    using recv_req_header_wire [OF n w] by (auto elim!: returnsE)
  obtain n1 where n1: "handle_req_fc m (w\<lparr>rx := p\<rparr>) = Some (e, n1, w1)" "config n1 = config n" "wf_nmbs n1"
    using h [OF m(2)] by (auto elim!: returnsE)
  moreover have "rtu_wire n1" using n n1 configD(1) [OF n1(2)] by simp
  ultimately show ?thesis
    using m(1) e flush_wire [of n1 w1] by (auto simp: nmbs_server_poll_def elim!: returnsE)
qed

lemma poll_serves:
  assumes n: "rtu_wire n" "callbacks_ok (callbacks n)" and r: "request_ok r" and u: "u = 0 \<or> u = address_rtu n"
    and w: "rx w = rtu_frame u (request_fc r) (request_data r) @ rest"
  shows "ends n (nmbs_server_poll n w) (transmit u (request_fc r) (serve (callbacks n) u r (w\<lparr>rx := rest\<rparr>)))"
proof (rule poll_request [OF n(1)])
  let ?p = "request_data r @ crc_bytes (u # request_fc r # request_data r) @ rest"
  show "rx w = u # request_fc r # ?p" using w by (simp add: rtu_frame_def)
  fix m assume "request_begun n u (request_fc r) m"
  from handle_req_fc_serves [OF n(2) this u r, of "w\<lparr>rx := ?p\<rparr>" rest]
  show "returns (handle_req_fc m (w\<lparr>rx := ?p\<rparr>)) (\<lambda>(err, n', w'). err = NMBS_ERROR_NONE \<and> (case (err, n', w') of
     (err, n', w') \<Rightarrow> err = NMBS_ERROR_NONE \<and> config n' = config n \<and> wf_nmbs n' \<and>
       w' = transmit u (request_fc r) (serve (callbacks n) u r (w\<lparr>rx := rest\<rparr>))))"
    by simp
qed

section \<open>A server with a bank of registers\<close>

definition bank_read :: "u16 list wire read_regs_cb" where
  "bank_read a q regs u p w =
     (if unat q \<le> length regs \<and> unat a + unat q \<le> length (app w)
      then (NMBS_ERROR_NONE, take (unat q) (drop (unat a) (app w)) @ drop (unat q) regs, w)
      else (NMBS_EXCEPTION_ILLEGAL_DATA_ADDRESS, regs, w))"

definition bank_write :: "u16 list wire write_regs_cb" where
  "bank_write a q regs u p w =
     (if unat q \<le> length regs \<and> unat a + unat q \<le> length (app w)
      then (NMBS_ERROR_NONE, w\<lparr>app := take (unat a) (app w) @ take (unat q) regs @ drop (unat a + unat q) (app w)\<rparr>)
      else (NMBS_EXCEPTION_ILLEGAL_DATA_ADDRESS, w))"

definition bank_callbacks :: "u16 list wire nmbs_callbacks" where
  "bank_callbacks = nmbs_callbacks_create\<lparr>cb_read_holding_registers := Some bank_read,
     cb_write_multiple_registers := Some bank_write\<rparr>"

definition wire_conf :: "'a wire nmbs_platform_conf" where
  "wire_conf = nmbs_platform_conf_create\<lparr>transport := NMBS_TRANSPORT_RTU, conf_read := Some wire_read,
     conf_write := Some wire_write\<rparr>"

definition bank_server :: "u8 \<Rightarrow> u16 list wire nmbs_t" where
  "bank_server address = (case nmbs_server_create (Some zero_nmbs) address (Some wire_conf) (Some bank_callbacks) of
     Some (_, Some n) \<Rightarrow> n | _ \<Rightarrow> zero_nmbs)"

lemma bank_server_create:
  "address \<noteq> 0 \<Longrightarrow> nmbs_server_create (Some zero_nmbs) address (Some wire_conf) (Some bank_callbacks) =
    Some (NMBS_ERROR_NONE, Some (bank_server address))"
  by (simp add: bank_server_def nmbs_server_create_def nmbs_create_def wire_conf_def nmbs_platform_conf_create_def
      bank_callbacks_def nmbs_callbacks_create_def zero_conf_def zero_callbacks_def INITIALIZED_def)

lemma bank_server [simp]:
  assumes "address \<noteq> 0"
  shows "rtu_conf wire_read wire_write (platform (bank_server address))" "wf_nmbs (bank_server address)"
    "callbacks_ok (callbacks (bank_server address))" "address_rtu (bank_server address) = address"
    "callbacks (bank_server address) = bank_callbacks"
  using assms
  by (auto simp: bank_server_def nmbs_server_create_def nmbs_create_def wire_conf_def nmbs_platform_conf_create_def
      bank_callbacks_def nmbs_callbacks_create_def zero_conf_def zero_callbacks_def INITIALIZED_def rtu_conf_def
      wf_nmbs_def zero_nmbs_def zero_msg_def callbacks_ok_def bank_read_def)

section \<open>The properties\<close>

text \<open>
  C5. The server implements the reference server: it answers every well-formed request for its
  unit, and every broadcast, as \<open>serve\<close> says, with exactly one frame or none, and leaves the bytes
  after the request unread.
\<close>

theorem server_serves:
  assumes "rtu_conf wire_read wire_write (platform n)" "wf_nmbs n" "callbacks_ok (callbacks n)"
    and "request_ok r" "u = 0 \<or> u = address_rtu n"
    and "rx w = rtu_frame u (request_fc r) (request_data r) @ rest"
  shows "returns (nmbs_server_poll n w) (\<lambda>(err, n', w'). err = NMBS_ERROR_NONE \<and> config n' = config n \<and>
    wf_nmbs n' \<and> w' = transmit u (request_fc r) (serve (callbacks n) u r (w\<lparr>rx := rest\<rparr>)))"
  using poll_serves [OF _ assms(3-6)] assms(1,2) by simp

definition bank_wire :: "u8 list \<Rightarrow> u16 list wire" where
  "bank_wire frame = \<lparr>rx = frame, tx = [], app = [10, 20, 30, 40]\<rparr>"

theorem server_serves_witness:
  "returns (nmbs_server_poll (bank_server 7) (bank_wire (rtu_frame 7 3 [0, 1, 0, 2])))
    (\<lambda>(err, n', w'). err = NMBS_ERROR_NONE \<and> config n' = config (bank_server 7) \<and> wf_nmbs n' \<and>
      w' = \<lparr>rx = [], tx = [rtu_frame 7 3 [4, 0, 20, 0, 30]], app = [10, 20, 30, 40]\<rparr>)"
  using server_serves [OF bank_server(1-3), of 7 "Read_Holding_Registers 1 2" 7 "bank_wire (rtu_frame 7 3 [0, 1, 0, 2])" "[]"]
  by (simp add: bank_wire_def be16_def hi_byte_def lo_byte_def transmit_def serve_registers_def range_fault_def
      bank_callbacks_def nmbs_callbacks_create_def zero_callbacks_def bank_read_def)

text \<open>
  C19. A request for one of the twelve function codes that the server knows, with data of the length that it
  expects but a wrong checksum, is neither executed nor answered, whatever unit it is for: the server reports the
  CRC error, calls no callback, sends nothing and flushes the line.  For other function codes
  this does not hold, see C33.
\<close>

theorem server_drops_corrupted:
  assumes "rtu_conf wire_read wire_write (platform n)" "wf_nmbs n" "delimited fc data"
    and "length ck = 2" "ck \<noteq> crc_bytes (u # fc # data)"
    and "rx w = u # fc # data @ ck @ rest"
  shows "returns (nmbs_server_poll n w) (\<lambda>(err, n', w'). err = NMBS_ERROR_CRC \<and> config n' = config n \<and>
    wf_nmbs n' \<and> w' = w\<lparr>rx := drop 260 rest\<rparr>)"
  using poll_failed [of n w u fc "data @ ck @ rest" NMBS_ERROR_CRC "w\<lparr>rx := rest\<rparr>"]
    handle_req_fc_rejects [OF _ assms(3-5), of n _ "w\<lparr>rx := data @ ck @ rest\<rparr>" rest] assms(1,2,6)
  by simp

lemma bank_checksum: "crc_bytes [7, 20, 7, 6, 0, 1, 0, 0, 0, 1] \<noteq> [0, 0]"
  by code_simp

text \<open>A request to read one record of file 1.\<close>

theorem server_drops_corrupted_witness:
  "returns (nmbs_server_poll (bank_server 7) (bank_wire [7, 20, 7, 6, 0, 1, 0, 0, 0, 1, 0, 0]))
    (\<lambda>(err, n', w'). err = NMBS_ERROR_CRC \<and> config n' = config (bank_server 7) \<and> wf_nmbs n' \<and> w' = bank_wire [])"
proof -
  have "delimited 20 (7 # [6, 0, 1, 0, 0, 0, 1])"
    unfolding delimited_def by (rule disjI2, rule disjI1, rule conjI, simp, rule exI [of _ "[6, 0, 1, 0, 0, 0, 1]"]) simp
  then show ?thesis
    using server_drops_corrupted [of "bank_server 7" 20 "7 # [6, 0, 1, 0, 0, 0, 1]" "[0, 0]" 7
        "bank_wire [7, 20, 7, 6, 0, 1, 0, 0, 0, 1, 0, 0]" "[]"] bank_checksum
    by (simp add: bank_wire_def)
qed

text \<open>
  C33. A function code that the library does not know is answered with the exception ILLEGAL FUNCTION
  when the request names the unit; a broadcast or a request to another unit is dropped.  The
  rest of the message is flushed.
\<close>

theorem server_unknown_function:
  assumes "rtu_conf wire_read wire_write (platform n)" "wf_nmbs n"
    and "fc \<notin> {1, 2, 3, 4, 5, 6, 15, 16, 20, 21, 23, 43}" "rx w = u # fc # p"
  shows "returns (nmbs_server_poll n w) (\<lambda>(err, n', w'). err = NMBS_ERROR_NONE \<and> config n' = config n \<and> wf_nmbs n' \<and>
    w' = w\<lparr>rx := drop 260 p, tx := tx w @
      (if u = address_rtu n \<and> u \<noteq> 0 then [rtu_frame u (fc + 0x80) [1]] else [])\<rparr>)"
proof (rule poll_request [OF _ assms(4)])
  show "rtu_wire n" using assms(1,2) by simp
next
  fix m assume m: "request_begun n u fc m"
  then have "rtu_wire m" by (simp add: request_begun_def at_def inst_ok_def)
  from flush_wire [OF this, of "w\<lparr>rx := p\<rparr>"] obtain m1 where m1: "flush m (w\<lparr>rx := p\<rparr>) = Some (m1, w\<lparr>rx := drop 260 p\<rparr>)"
      "config m1 = config m" "wf_nmbs m1" "unit_id (msg m1) = unit_id (msg m)" "msg_fc (msg m1) = msg_fc (msg m)"
      "ignored (msg m1) = ignored (msg m)" "broadcast (msg m1) = broadcast (msg m)"
    by (auto elim!: returnsE)
  have f: "handle_req_fc m (w\<lparr>rx := p\<rparr>) = (if \<not> ignored (msg m1) \<and> \<not> broadcast (msg m1)
      then refuse m1 NMBS_EXCEPTION_ILLEGAL_FUNCTION (w\<lparr>rx := drop 260 p\<rparr>) else Some (NMBS_ERROR_NONE, m1, w\<lparr>rx := drop 260 p\<rparr>))"
    using assms(3) m m1(1) by (simp add: handle_req_fc_def request_begun_def)
  have "rtu_wire m1" using m m1(2,3) configD(1) [OF m1(2)] by (simp add: request_begun_def at_def)
  from refuse_wire [OF this, of NMBS_EXCEPTION_ILLEGAL_FUNCTION "w\<lparr>rx := drop 260 p\<rparr>"]
  show "returns (handle_req_fc m (w\<lparr>rx := p\<rparr>)) (\<lambda>(err, n', w'). err = NMBS_ERROR_NONE \<and>
     (case (err, n', w') of (err, n', w') \<Rightarrow> err = NMBS_ERROR_NONE \<and> config n' = config n \<and> wf_nmbs n' \<and>
      w' = w\<lparr>rx := drop 260 p, tx := tx w @
      (if u = address_rtu n \<and> u \<noteq> 0 then [rtu_frame u (fc + 0x80) [1]] else [])\<rparr>))"
    using m m1(2-7) unfolding f by (auto simp: request_begun_def exception_code_def)
qed

theorem server_unknown_function_witness:
  "returns (nmbs_server_poll (bank_server 7) (bank_wire [7, 8, 0, 0]))
    (\<lambda>(err, n', w'). err = NMBS_ERROR_NONE \<and> config n' = config (bank_server 7) \<and> wf_nmbs n' \<and>
      w' = (bank_wire [])\<lparr>tx := [rtu_frame 7 0x88 [1]]\<rparr>)"
  using server_unknown_function [of "bank_server 7" 8 "bank_wire [7, 8, 0, 0]" 7 "[0, 0]"]
  by (simp add: bank_wire_def)

text \<open>
  C34. A request to write 127 registers overflows the message buffer of the server, whoever it is
  addressed to: \<open>handle_write_multiple_registers\<close> receives the announced 254 or 255 bytes before it
  compares their number with the limit of 246, and the buffer has room for 253.
\<close>

theorem server_write_registers_overflow:
  assumes "rtu_conf wire_read wire_write (platform n)" "wf_nmbs n"
    and "rx w = [u, 16, a1, a2, q1, q2, k] @ p" "254 \<le> unat k" "254 \<le> length p"
  shows "nmbs_server_poll n w = None"
proof -
  obtain first m where m: "recv_req_header (msg_state_reset n) w = Some (NMBS_ERROR_NONE, first, m, w\<lparr>rx := [a1, a2, q1, q2, k] @ p\<rparr>)"
      "request_begun n u 16 m"
    using recv_req_header_wire [of n w u 16 "[a1, a2, q1, q2, k] @ p"] assms(1-3) by (auto elim!: returnsE)
  let ?a = "word_of_bytes a1 a2" and ?q = "word_of_bytes q1 q2"
  let ?w = "w\<lparr>rx := [a1, a2, q1, q2, k] @ p\<rparr>"
  have "rx ?w = be16 ?a @ be16 ?q @ k # p" by (simp add: be16_def)
  then obtain m1 m2 m3 where 1: "recv m 5 ?w = Some (NMBS_ERROR_NONE, m1, w\<lparr>rx := p\<rparr>)" "get_2 m1 = Some (?a, m2)"
      "get_2 m2 = Some (?q, m3)" "get_1 m3 = Some (k, emit m (be16 ?a @ be16 ?q @ [k]))"
    using payload_head_wire [OF m(2), of ?w ?a ?q k p] by auto
  let ?m = "emit m (be16 ?a @ be16 ?q @ [k])"
  have a: "at ?m [u, 16, a1, a2, q1, q2, k]"
    using at_emit [of m "[u, 16]" "be16 ?a @ be16 ?q @ [k]"] m(2) by (simp add: request_begun_def be16_def)
  then have c: "cursor ?m = 7" "length (mbuf ?m) = 260"
    using length_seen [of ?m] by (auto simp: at_def inst_ok_def wf_nmbs_def)
  have "unat (ucast k :: u16) = unat k"
    using unsigned_less [of k, where ?'a = nat] by (simp add: unat_ucast)
  then have "recv ?m (ucast k) (w\<lparr>rx := p\<rparr>) = None"
    using a assms(4,5)
    by (simp add: recv_def at_def platform_read_def rtu_conf_def wire_read_def buf_splice_def c Let_def del: emit_fields)
  then show ?thesis
    using m(1) m(2) 1 by (simp add: nmbs_server_poll_def handle_req_fc_simps request_begun_def handle_write_multiple_registers_def)
qed

theorem server_write_registers_overflow_witness:
  "nmbs_server_poll (bank_server 7) (bank_wire ([9, 16, 0, 0, 0, 127, 254] @ replicate 256 0)) = None"
  by (rule server_write_registers_overflow [where u = 9 and k = 254 and p = "replicate 256 0"])
    (simp_all add: bank_wire_def)

end
