(* ===== verification/Client_Server.thy ===== *)
theory Client_Server
  imports Server_Properties
begin

text \<open>
  A client of the library that talks to a server of the library over an ideal link: what the
  client's \<open>write\<close> hands over is polled by the server, and what the server sends is what the
  client reads.
\<close>

section \<open>The link\<close>

record 'a link =
  server :: "'a wire nmbs_t"
  bus :: "'a wire"
  heard :: "u8 list"

text \<open>The server's side of one message: its state afterwards and the bytes that it sent.\<close>

definition exchange :: "'a wire nmbs_t \<Rightarrow> 'a wire \<Rightarrow> u8 list \<Rightarrow> ('a wire nmbs_t \<times> 'a wire \<times> u8 list) option" where
  "exchange s b frame = do {
     (_, s, b) \<leftarrow> nmbs_server_poll s (b\<lparr>rx := frame, tx := []\<rparr>);
     Some (s, b\<lparr>tx := []\<rparr>, concat (tx b))
   }"

definition link_read :: "'a link transport_read" where
  "link_read buf count timeout a l = do {
     b \<leftarrow> buf;
     let k = min (unat count) (length (heard l));
     b \<leftarrow> buf_splice b 0 (take k (heard l));
     Some (of_nat k, Some b, l\<lparr>heard := drop k (heard l)\<rparr>)
   }"

definition link_write :: "'a link transport_write" where
  "link_write buf count timeout a l = do {
     b \<leftarrow> buf;
     frame \<leftarrow> buf_slice b 0 (unat count);
     (s', b', bytes) \<leftarrow> exchange (server l) (bus l) frame;
     Some (ucast count, l\<lparr>server := s', bus := b', heard := heard l @ bytes\<rparr>)
   }"

section \<open>The link is a half-duplex line\<close>

text \<open>For the exchange of one frame \<open>F\<close> with a server in a known state.\<close>

definition link_at :: "'a wire nmbs_t \<Rightarrow> 'a wire \<Rightarrow> 'a link \<Rightarrow> bool" where
  "link_at s b l \<longleftrightarrow> server l = s \<and> bus l = b"

definition link_after :: "'a wire nmbs_t \<Rightarrow> 'a wire \<Rightarrow> u8 list \<Rightarrow> 'a link \<Rightarrow> bool" where
  "link_after s b frame l \<longleftrightarrow> returns (exchange s b frame) (\<lambda>(s', b', _). server l = s' \<and> bus l = b')"

definition link_answer :: "'a wire nmbs_t \<Rightarrow> 'a wire \<Rightarrow> u8 list \<Rightarrow> u8 list \<Rightarrow> u8 list" where
  "link_answer s b expected frame =
     (if frame = expected then case exchange s b frame of None \<Rightarrow> [] | Some (_, _, bytes) \<Rightarrow> bytes else [])"

lemma link_at_heard [simp]: "link_at s b (l\<lparr>heard := x\<rparr>) = link_at s b l"
  and link_after_heard [simp]: "link_after s b frame (l\<lparr>heard := x\<rparr>) = link_after s b frame l"
  by (simp_all add: link_at_def link_after_def)

interpretation link: half_duplex_line link_read link_write
  "\<lambda>l. length (heard l) \<le> 260 \<and> link_at s b l" "\<lambda>l. heard l = [] \<and> link_at s b l"
  "\<lambda>l bs. heard l = bs \<and> link_after s b frame l" "\<lambda>l bs. heard l = bs \<and> link_after s b frame l"
  "\<lambda>_. link_answer s b frame" read_to byte_to
  for s b frame read_to byte_to
proof (unfold_locales, goal_cases)
  case (1 l buf a)
  then show ?case by (simp add: link_read_def Let_def buf_splice_def)
next
  case (2 l count buf a)
  then obtain s' b' bytes where e: "exchange s b frame = Some (s', b', bytes)" "take (unat count) buf = frame"
    by (auto simp: link_answer_def split: if_splits option.splits)
  then show ?case using 2 by (simp add: link_write_def link_at_def link_answer_def link_after_def buf_slice_def)
next
  case (3 l x bs buf a)
  then show ?case by (cases buf) (simp_all add: link_read_def buf_splice_def)
next
  case (4 l bs count buf a)
  have "(of_nat (unat count) :: i32) = ucast count" by (simp only: of_nat_unat)
  then show ?case using 4 by (simp add: link_read_def min_absorb1 buf_splice_def Let_def)
qed

section \<open>Round trips\<close>

definition answer_frame :: "u8 \<Rightarrow> u8 \<Rightarrow> answer \<Rightarrow> u8 list" where
  "answer_frame u fc ans =
     (case ans of Inl err \<Rightarrow> rtu_frame u (fc + 0x80) [exception_code err] | Inr data \<Rightarrow> rtu_frame u fc data)"

lemma exchange_serves:
  assumes s: "rtu_wire s" "callbacks_ok (callbacks s)" "address_rtu s \<noteq> 0" and r: "request_ok r"
    and serve: "serve (callbacks s) (address_rtu s) r (b\<lparr>tx := [], rx := []\<rparr>) = (ans, b')" "tx b' = []"
  shows "returns (exchange s b (rtu_frame (address_rtu s) (request_fc r) (request_data r)))
    (\<lambda>(s', b'', bytes). config s' = config s \<and> wf_nmbs s' \<and> b'' = b' \<and> bytes = answer_frame (address_rtu s) (request_fc r) ans)"
proof -
  let ?frame = "rtu_frame (address_rtu s) (request_fc r) (request_data r)"
  have "b'\<lparr>tx := []\<rparr> = b'" using serve(2) by (cases b') simp
  then show ?thesis
    using poll_serves [OF s(1,2) r, of "address_rtu s" "b\<lparr>rx := ?frame, tx := []\<rparr>" "[]"] s(3) serve
    by (auto simp: exchange_def transmit_def answer_frame_def split: sum.split elim!: returnsE)
qed

text \<open>The requirements on both ends of the link.\<close>

definition connected :: "'a link nmbs_t \<Rightarrow> 'a link \<Rightarrow> bool" where
  "connected c l \<longleftrightarrow> rtu_conf link_read link_write (platform c) \<and> wf_nmbs c \<and> rtu_wire (server l) \<and>
     callbacks_ok (callbacks (server l)) \<and> dest_address_rtu c = address_rtu (server l) \<and>
     dest_address_rtu c \<noteq> 0 \<and> heard l = []"

abbreviation serves :: "'a link \<Rightarrow> request \<Rightarrow> answer \<Rightarrow> 'a wire \<Rightarrow> bool" where
  "serves l r ans b' \<equiv>
     serve (callbacks (server l)) (address_rtu (server l)) r ((bus l)\<lparr>tx := [], rx := []\<rparr>) = (ans, b') \<and> tx b' = []"

lemma serves_answer:
  assumes "connected c l" "request_ok r" "serves l r ans b'"
    and "frame = rtu_frame (dest_address_rtu c) (request_fc r) (request_data r)"
  shows "link_answer (server l) (bus l) frame frame = answer_frame (dest_address_rtu c) (request_fc r) ans"
    and "link_after (server l) (bus l) frame l' \<Longrightarrow>
      config (server l') = config (server l) \<and> wf_nmbs (server l') \<and> bus l' = b'"
  using exchange_serves [of "server l" r "bus l" ans b'] assms
  by (auto simp: connected_def link_answer_def link_after_def elim!: returnsE)

lemma connected_after:
  assumes "connected c l" "config c' = config c" "wf_nmbs c'" "heard l' = []"
    and "config (server l') = config (server l)" "wf_nmbs (server l')"
  shows "connected c' l'"
  using assms(1,3,4,6) configD [OF assms(2)] configD [OF assms(5)] by (auto simp: connected_def)

lemma exception_code_roundtrip:
  assumes "nmbs_error_is_exception e"
  shows "1 \<le> exception_code e" "exception_code e \<le> 4" "nmbs_error_of_exception (exception_code e) = e"
  using assms by (cases e; simp add: exception_code_def nmbs_error_of_exception_def)+

lemma failure_is_exception [simp]: "nmbs_error_is_exception (failure err)"
  by (simp add: failure_def)

lemma serve_registers_cases:
  assumes "serve_registers cb u p 125 a q w = (ans, w')" "range_fault 125 a q = None"
    and cb: "\<And>f xs u p w. cb = Some f \<Longrightarrow> length (fst (snd (f a q xs u p w))) = length xs"
  obtains e where "ans = Inl e" "nmbs_error_is_exception e"
  | regs where "ans = Inr (of_nat (2 * unat q) # be16s regs)" "length regs = unat q"
proof (cases cb)
  case None
  then show ?thesis using assms(1,2) that(1) [of NMBS_EXCEPTION_ILLEGAL_FUNCTION] by (auto simp: serve_registers_def)
next
  case (Some f)
  obtain err regs w1 where f: "f a q (replicate 125 0) u p w = (err, regs, w1)"
    by (cases "f a q (replicate 125 0) u p w")
  have "length regs = 125" using cb [OF Some, of "replicate 125 0" u p w] f by simp
  moreover have "unat q \<le> 125" using assms(2) by (auto simp: range_fault_def split: if_splits)
  ultimately show ?thesis
    using assms(1,2) Some f that(1) [of "failure err"] that(2) [of "take (unat q) regs"]
    by (auto simp: serve_registers_def split: if_splits)
qed

lemma read_registers_on_link:
  assumes c: "connected c l" and q: "1 \<le> unat q" "unat q \<le> 125" "unat a + unat q \<le> 65536" "unat q \<le> length xs"
    and serve: "serves l (Read_Holding_Registers a q) ans b'"
  shows "returns (nmbs_read_holding_registers c a q (Some xs) l) (\<lambda>(err, out, c', l').
    connected c' l' \<and> callbacks (server l') = callbacks (server l) \<and> bus l' = b' \<and>
    (case ans of Inl e \<Rightarrow> err = e \<and> out = Some xs
     | Inr data \<Rightarrow> err = NMBS_ERROR_NONE \<and> out = Some (words_of (tl data) @ drop (unat q) xs)))"
proof -
  let ?u = "dest_address_rtu c" and ?frame = "rtu_frame (dest_address_rtu c) 3 (be16 a @ be16 q)"
  have listening: "link.listening (read_timeout_ms c) (byte_timeout_ms c) c"
    using c by (simp add: connected_def link.listening_def)
  have idle: "length (heard l) \<le> 260 \<and> link_at (server l) (bus l) l"
    using c by (simp add: connected_def link_at_def)
  note ans = serves_answer [OF c _ serve, of ?frame, simplified]
  have after: "connected c' l' \<and> callbacks (server l') = callbacks (server l) \<and> bus l' = b'"
    if "config c' = config c" "wf_nmbs c'" "heard l' = [] \<and> link_after (server l) (bus l) ?frame l'" for c' l'
    using ans(2) [of l'] that connected_after [OF c] configD(5) [of "server l'" "server l"] by auto
  have "range_fault 125 a q = None" using q by (simp add: range_fault_def)
  moreover have "serve_registers (cb_read_holding_registers (callbacks (server l))) (address_rtu (server l))
      (cb_arg (callbacks (server l))) 125 a q ((bus l)\<lparr>tx := [], rx := []\<rparr>) = (ans, b')"
    using serve by simp
  moreover have "callbacks_ok (callbacks (server l))" using c by (simp add: connected_def)
  note callbacks_okD(2) [OF this]
  ultimately consider e where "ans = Inl e" "nmbs_error_is_exception e"
    | regs where "ans = Inr (of_nat (2 * unat q) # be16s regs)" "length regs = unat q"
    by (metis serve_registers_cases)
  then show ?thesis
  proof cases
    case 1
    note code = exception_code_roundtrip [OF 1(2)]
    have "link_answer (server l) (bus l) ?frame ?frame = rtu_frame ?u (3 + 0x80) [exception_code e]"
      using ans(1) 1(1) by (simp add: answer_frame_def)
    from link.read_registers_exception [OF listening idle q(1-3) this _ code(1,2), of "Some xs"] show ?thesis
      unfolding nmbs_read_holding_registers_def
      by (rule returns_mono) (use 1 code(3) after in auto)
  next
    case 2
    have nb: "unat (of_nat (2 * unat q) :: u8) = 2 * unat q" using q(2) by (intro unat_of_nat_less) simp
    have nb': "0 < (of_nat (2 * unat q) :: u8)" "\<not> 250 < (of_nat (2 * unat q) :: u8)"
      using q unfolding word_less_nat_alt nb by simp_all
    have "link_answer (server l) (bus l) ?frame ?frame =
        ?u # 3 # of_nat (2 * unat q) # be16s regs @ crc_bytes (?u # 3 # of_nat (2 * unat q) # be16s regs)"
      using ans(1) 2(1) by (simp add: answer_frame_def rtu_frame_def)
    from link.read_registers_exact [OF listening idle q(1-3) this, of xs] show ?thesis
      unfolding nmbs_read_holding_registers_def
      by (rule returns_mono) (use 2 q nb nb' after in \<open>auto simp: registers_verdict_def\<close>)
  qed
qed

lemma write_registers_on_link:
  assumes c: "connected c l" and q: "1 \<le> unat q" "unat q \<le> 123" "unat a + unat q \<le> 65536" "unat q \<le> length ws"
    and serve: "serves l (Write_Registers a q (take (unat q) ws)) (Inr (be16 a @ be16 q)) b'"
  shows "returns (nmbs_write_multiple_registers c a q ws l) (\<lambda>(err, c', l').
    connected c' l' \<and> callbacks (server l') = callbacks (server l) \<and> bus l' = b' \<and> err = NMBS_ERROR_NONE)"
proof -
  let ?data = "be16 a @ be16 q @ of_nat (2 * length (take (unat q) ws)) # be16s (take (unat q) ws)"
  let ?frame = "rtu_frame (dest_address_rtu c) 16 ?data"
  have listening: "link.listening (read_timeout_ms c) (byte_timeout_ms c) c"
    using c by (simp add: connected_def link.listening_def)
  have idle: "length (heard l) \<le> 260 \<and> link_at (server l) (bus l) l" and u: "dest_address_rtu c \<noteq> 0"
    using c by (auto simp: connected_def link_at_def)
  have "request_ok (Write_Registers a q (take (unat q) ws))" using q(2) by simp
  note ans = serves_answer [OF c this serve, of ?frame]
  have after: "connected c' l' \<and> callbacks (server l') = callbacks (server l) \<and> bus l' = b'"
    if "config c' = config c" "wf_nmbs c'" "heard l' = [] \<and> link_after (server l) (bus l) ?frame l'" for c' l'
    using ans(2) [of l'] that connected_after [OF c] configD(5) [of "server l'" "server l"] by auto
  have "(of_nat (2 * length (take (unat q) ws)) :: u8) = ucast (q * 2)"
    by (rule word_unat_eq_iff [THEN iffD2])
      (use q(2,4) in \<open>simp add: unat_ucast unat_word_ariths unsigned_of_nat take_bit_eq_mod min_absorb2\<close>)
  then have frame: "?frame = rtu_frame (dest_address_rtu c) 16 (be16 a @ be16 q @
      ucast (q * 2) # be16s (take (unat q) ws))" by simp
  have "link_answer (server l) (bus l) ?frame (rtu_frame (dest_address_rtu c) 16 (be16 a @ be16 q @
      ucast (q * 2) # be16s (take (unat q) ws))) = rtu_frame (dest_address_rtu c) 16 (be16 a @ be16 q)"
    unfolding frame [symmetric] using ans(1) by (simp add: answer_frame_def)
  from link.write_multiple_registers_exact [OF listening idle q(1-3) q(4) u this] show ?thesis
    by (rule returns_mono) (use after in auto)
qed

section \<open>The properties\<close>

text \<open>
  C6. Reading over the link: the client reports what the server's callback answered, the registers
  that it stored or the exception that it raised, and both ends are ready for the next request.
\<close>

theorem client_reads_server:
  assumes "connected c l" "1 \<le> unat q" "unat q \<le> 125" "unat a + unat q \<le> 65536" "unat q \<le> length xs"
    and "serve (callbacks (server l)) (address_rtu (server l)) (Read_Holding_Registers a q) ((bus l)\<lparr>tx := [], rx := []\<rparr>) = (ans, b')"
    and "tx b' = []"
  shows "returns (nmbs_read_holding_registers c a q (Some xs) l) (\<lambda>(err, out, c', l').
    connected c' l' \<and> callbacks (server l') = callbacks (server l) \<and> bus l' = b' \<and>
    (case ans of Inl e \<Rightarrow> err = e \<and> out = Some xs
     | Inr data \<Rightarrow> err = NMBS_ERROR_NONE \<and> out = Some (words_of (tl data) @ drop (unat q) xs)))"
  using read_registers_on_link assms by blast

definition link_conf :: "'a link nmbs_platform_conf" where
  "link_conf = nmbs_platform_conf_create\<lparr>transport := NMBS_TRANSPORT_RTU, conf_read := Some link_read,
     conf_write := Some link_write\<rparr>"

definition bank_client :: "u8 \<Rightarrow> u16 list link nmbs_t" where
  "bank_client address = zero_nmbs\<lparr>platform := link_conf, dest_address_rtu := address\<rparr>"

definition bank_link :: "u8 \<Rightarrow> u16 list link" where
  "bank_link address = \<lparr>server = bank_server address, bus = bank_wire [], heard = []\<rparr>"

lemma bank_connected:
  assumes "address \<noteq> 0"
  shows "connected (bank_client address) (bank_link address)"
proof -
  have "rtu_conf link_read link_write (platform (bank_client address))" "wf_nmbs (bank_client address)"
    by (simp_all add: bank_client_def link_conf_def nmbs_platform_conf_create_def rtu_conf_def zero_nmbs_def
        zero_msg_def wf_nmbs_def)
  then show ?thesis
    using assms bank_server(1-4) [OF assms] by (simp add: connected_def bank_link_def) (simp add: bank_client_def)
qed

lemma bank_link_simps [simp]:
  "address \<noteq> 0 \<Longrightarrow> callbacks (server (bank_link address)) = bank_callbacks"
  "address \<noteq> 0 \<Longrightarrow> address_rtu (server (bank_link address)) = address"
  "bus (bank_link address) = bank_wire []"
  by (simp_all add: bank_link_def)

lemma bank_callbacks [simp]:
  "cb_read_holding_registers bank_callbacks = Some bank_read"
  "cb_write_multiple_registers bank_callbacks = Some bank_write" "cb_arg bank_callbacks = 0"
  by (simp_all add: bank_callbacks_def nmbs_callbacks_create_def zero_callbacks_def)

theorem client_reads_server_witness:
  "returns (nmbs_read_holding_registers (bank_client 7) 1 2 (Some [0, 0, 0]) (bank_link 7)) (\<lambda>(err, out, c', l').
    err = NMBS_ERROR_NONE \<and> out = Some [20, 30, 0])"
  by (rule returns_mono [OF client_reads_server [OF bank_connected, of 7 2 1 "[0, 0, 0]"]])
    (auto simp: serve_registers_def range_fault_def bank_read_def bank_wire_def be16_def)

text \<open>
  C12. A client that writes registers to a server with a register bank and reads them back over the
  same link gets the values that it wrote.
\<close>

theorem client_server_write_read:
  assumes "connected c l" "callbacks (server l) = bank_callbacks" "unat a + unat q \<le> length (app (bus l))"
    and "1 \<le> unat q" "unat q \<le> 123" "unat a + unat q \<le> 65536" "length ws = unat q" "unat q \<le> length xs"
  shows "returns (do {
      (err, c', l') \<leftarrow> nmbs_write_multiple_registers c a q ws l;
      (err', out, _) \<leftarrow> nmbs_read_holding_registers c' a q (Some xs) l';
      Some (err, err', out) })
    (\<lambda>(err, err', out). err = NMBS_ERROR_NONE \<and> err' = NMBS_ERROR_NONE \<and> out = Some (ws @ drop (unat q) xs))"
proof -
  let ?app = "app (bus l)"
  let ?b = "(bus l)\<lparr>tx := [], rx := [], app := take (unat a) ?app @ ws @ drop (unat a + unat q) ?app\<rparr>"
  have written: "serves l (Write_Registers a q (take (unat q) ws)) (Inr (be16 a @ be16 q)) ?b"
    using assms by (simp add: range_fault_def bank_write_def acknowledge_def)
  obtain c1 l1 where 1: "nmbs_write_multiple_registers c a q ws l = Some (NMBS_ERROR_NONE, c1, l1)" "connected c1 l1"
      "callbacks (server l1) = bank_callbacks" "bus l1 = ?b"
    using write_registers_on_link [OF assms(1,4,5,6) _ written] assms(2,7) by (auto elim!: returnsE)
  have "length ?app = length (app (bus l1))" using 1(4) assms(3,7) by simp
  then have read: "serves l1 (Read_Holding_Registers a q) (Inr (of_nat (2 * unat q) # be16s ws)) ?b"
    using 1(3,4) assms by (simp add: serve_registers_def range_fault_def bank_read_def)
  have "unat q \<le> 125" using assms(5) by simp
  from read_registers_on_link [OF 1(2) assms(4) this assms(6,8) read]
  show ?thesis using 1(1) by (auto simp: elim!: returns_mono)
qed

theorem client_server_write_read_witness:
  "returns (do {
      (err, c', l') \<leftarrow> nmbs_write_multiple_registers (bank_client 7) 1 2 [5, 6] (bank_link 7);
      (err', out, _) \<leftarrow> nmbs_read_holding_registers c' 1 2 (Some [0, 0]) l';
      Some (err, err', out) })
    (\<lambda>(err, err', out). err = NMBS_ERROR_NONE \<and> err' = NMBS_ERROR_NONE \<and> out = Some [5, 6])"
  using client_server_write_read [OF bank_connected, of 7 1 2 "[5, 6]" "[0, 0]"] by (simp add: bank_wire_def)

end
