(* ===== verification/Serial_Control.thy ===== *)
theory Serial_Control
  imports Hash_Heap Modbus_Ioctl
begin

text \<open>
  The daemon of \<^verbatim>\<open>serial_control/serial_control.c\<close>: it reads a file that maps names to Modbus
  addresses and then executes the commands \<^verbatim>\<open>!name=value\<close> and \<^verbatim>\<open>?name\<close> from its standard input on
  the driver's device.  The system and the C library are the parameter \<open>m\<close>; the conversions of
  \<^verbatim>\<open>sscanf\<close> that the code uses are defined here.  \<^verbatim>\<open>LOG_DEBUG\<close> is compiled out.
\<close>

section \<open>System and state\<close>

text \<open>
  A fresh block has arbitrary contents, \<open>contents p n\<close>.  \<open>getline\<close> takes the pointer \<^verbatim>\<open>line_buf\<close> and
  returns the new one with the line, \<open>None\<close> for a negative result.  \<open>sys_read\<close> returns its result and
  the bytes that it stored.
\<close>

record 'e system =
  lib :: "'e libc"
  contents :: "address \<Rightarrow> nat \<Rightarrow> 'e \<Rightarrow> u8 list"
  fopen :: "cstring \<Rightarrow> 'e \<Rightarrow> bool \<times> 'e"
  fclose :: "'e \<Rightarrow> 'e"
  getline :: "address option \<Rightarrow> 'e \<Rightarrow> u8 list option \<times> address option \<times> 'e"
  sys_open :: "'e \<Rightarrow> i32 \<times> 'e"
  sys_close :: "i32 \<Rightarrow> 'e \<Rightarrow> 'e"
  sys_read :: "i32 \<Rightarrow> nat \<Rightarrow> 'e \<Rightarrow> i32 \<times> u8 list \<times> 'e"
  sys_write :: "i32 \<Rightarrow> u8 list \<Rightarrow> 'e \<Rightarrow> i32 \<times> 'e"
  sys_ioctl :: "i32 \<Rightarrow> u32 \<Rightarrow> u64 \<Rightarrow> 'e \<Rightarrow> i32 \<times> 'e"

definition MAX_NAME_LENGTH :: nat where "MAX_NAME_LENGTH = 30"
definition MAX_VALUE_LENGTH :: nat where "MAX_VALUE_LENGTH = 20"
definition MAX_CMD_LENGTH :: nat where "MAX_CMD_LENGTH = MAX_NAME_LENGTH + MAX_VALUE_LENGTH + 1"
definition BUFFER_SIZE :: nat where "BUFFER_SIZE = MAX_CMD_LENGTH + 1"

lemmas size_defs = MAX_NAME_LENGTH_def MAX_VALUE_LENGTH_def MAX_CMD_LENGTH_def BUFFER_SIZE_def

datatype command_type_t = COMMAND_INVALID | COMMAND_READ | COMMAND_WRITE

text \<open>The lines that the program prints.\<close>

datatype message =
    Hello | Specify_File | Driver_Not_Open | No_Table | No_Map_File | Line_Too_Long nat nat | Invalid_Line cstring
  | Out_Of_Memory | Terminating_Error | Command_Too_Long | Invalid_Start | Invalid_Value | Not_Found cstring
  | Writing u32 cstring u64 | Invalid_Format | Name_Too_Long | Reading cstring u64 | Value_Is cstring u16
  | Read_Failed i32 | Read_Done i32 | Write_Failed i32 | Write_Done i32 | Address_Failed u64 i32 | Address_Set u64

text \<open>
  An element of the list with its own address.  \<open>addr\<close> has the type of a pointer, 64 bits, but
  holds a register address.
\<close>

record data_t =
  item_block :: address
  addr :: u64

text \<open>
  The globals: \<open>d_items\<close> is the chain from \<open>list_head\<close> to before \<open>list_root\<close>.  \<open>d_buffer\<close> is the
  pointer with the contents of its block, \<open>None\<close> for NULL.
\<close>

record 'e daemon =
  d_buffer :: "(address \<times> u8 list) option"
  d_table :: "ht option"
  d_items :: "data_t list"
  d_fd :: i32
  d_env :: 'e
  d_out :: "message list"

definition say :: "message \<Rightarrow> 'e daemon \<Rightarrow> 'e daemon" where
  "say msg d = d\<lparr>d_out := d_out d @ [msg]\<rparr>"

text \<open>An operation goes on, or the program has exited with a code.\<close>

datatype control = Continue | Exit nat

section \<open>Ending\<close>

definition free_opt :: "'e libc \<Rightarrow> address option \<Rightarrow> 'e \<Rightarrow> 'e" where
  "free_opt m p e = (case p of None \<Rightarrow> e | Some p \<Rightarrow> free m p e)"

definition cleanup :: "'e system \<Rightarrow> 'e daemon \<Rightarrow> 'e daemon option" where
  "cleanup m d = do {
     let e = free_opt (lib m) (map_option fst (d_buffer d)) (d_env d);
     e \<leftarrow> (case d_table d of None \<Rightarrow> Some e | Some t \<Rightarrow> ht_destroy (lib m) t e);
     let e = fold (\<lambda>item. free (lib m) (item_block item)) (d_items d) e;
     let e = (if d_fd d \<noteq> 0 then sys_close m (d_fd d) e else e);
     Some (d\<lparr>d_env := e\<rparr>)
   }"

definition terminate_normally :: "'e system \<Rightarrow> 'e daemon \<Rightarrow> (control \<times> 'e daemon) option" where
  "terminate_normally m d = do { d \<leftarrow> cleanup m d; Some (Exit 0, d) }"

definition terminate_with_error :: "'e system \<Rightarrow> 'e daemon \<Rightarrow> (control \<times> 'e daemon) option" where
  "terminate_with_error m d = do { d \<leftarrow> cleanup m (say Terminating_Error d); Some (Exit 1, d) }"

definition SIGINT :: i32 where "SIGINT = 2"
definition SIGTERM :: i32 where "SIGTERM = 15"

definition handle_signal :: "'e system \<Rightarrow> i32 \<Rightarrow> 'e daemon \<Rightarrow> (control \<times> 'e daemon) option" where
  "handle_signal m signal d =
     (if signal = SIGINT \<or> signal = SIGTERM then terminate_normally m d else Some (Continue, d))"

section \<open>Input\<close>

abbreviation ascii :: "char \<Rightarrow> u8" where
  "ascii c \<equiv> of_char c"

text \<open>\<open>length\<close> is a signed \<^verbatim>\<open>int\<close>.\<close>

definition validate_and_prepare_input ::
  "u8 list \<Rightarrow> i32 \<Rightarrow> (command_type_t \<times> u8 list \<times> message list) option" where
  "validate_and_prepare_input input len =
     (if int MAX_CMD_LENGTH < sint len \<or> sint len \<le> 0 then Some (COMMAND_INVALID, input, [])
      else do {
        last_char \<leftarrow> buf_get_int input (len - 1);
        first_char \<leftarrow> buf_get_int input 0;
        let (cmd_type, out) =
          (if last_char \<noteq> ascii (CHR 0x0A) then (COMMAND_INVALID, [Command_Too_Long])
           else if first_char = ascii (CHR ''!'') then (COMMAND_WRITE, [])
           else if first_char = ascii (CHR ''?'') then (COMMAND_READ, [])
           else (COMMAND_INVALID, [Invalid_Start]));
        if cmd_type \<noteq> COMMAND_INVALID then do {
          input \<leftarrow> buf_set_int input (len - 1) 0;
          Some (cmd_type, input, out)
        }
        else Some (cmd_type, input, out)
      })"

text \<open>The C string at the start of a piece of memory.\<close>

definition c_string :: "u8 list \<Rightarrow> cstring option" where
  "c_string mem = (if 0 \<in> set mem then Some (takeWhile (\<lambda>c. c \<noteq> 0) mem) else None)"

definition is_space :: "u8 \<Rightarrow> bool" where
  "is_space c \<longleftrightarrow> c = 32 \<or> 9 \<le> c \<and> c \<le> 13"

definition is_digit :: "u8 \<Rightarrow> bool" where
  "is_digit c \<longleftrightarrow> 48 \<le> c \<and> c \<le> 57"

definition decimal :: "u8 list \<Rightarrow> nat" where
  "decimal ds = foldl (\<lambda>n c. 10 * n + unat (c - 48)) 0 ds"

text \<open>
  \<^verbatim>\<open>%u\<close>: white space, a sign, digits.  \<open>Some None\<close> is a matching failure; a number that is no
  \<^verbatim>\<open>unsigned int\<close> is undefined behaviour of \<^verbatim>\<open>sscanf\<close>.
\<close>

definition scan_unsigned :: "cstring \<Rightarrow> u32 option option" where
  "scan_unsigned str = (
     let str = dropWhile is_space str;
         (negative, str) = (case str of
            c # rest \<Rightarrow> if c = ascii (CHR ''-'') then (True, rest)
              else if c = ascii (CHR ''+'') then (False, rest) else (False, str)
          | [] \<Rightarrow> (False, []));
         ds = takeWhile is_digit str
     in if ds = [] then Some None
        else if decimal ds < 2 ^ 32 then Some (Some (if negative then - of_nat (decimal ds) else of_nat (decimal ds)))
        else None)"

text \<open>
  \<^verbatim>\<open>sscanf(str, "%30[^s]s%u", name, &value)\<close> for the separator \<open>s\<close>: the name, when the first
  conversion succeeded, and the value.  The name and its NUL are stored in the 30 bytes of \<^verbatim>\<open>name\<close>.
\<close>

definition sscanf_pair :: "u8 \<Rightarrow> cstring \<Rightarrow> (cstring option \<times> u32 option) option" where
  "sscanf_pair sep str = (
     let name = takeWhile (\<lambda>c. c \<noteq> sep) (take 30 str) in
     if name = [] then Some (None, None)
     else if length name + 1 > MAX_NAME_LENGTH then None
     else (case drop (length name) str of
        [] \<Rightarrow> Some (Some name, None)
      | c # rest \<Rightarrow> if c = sep then do { v \<leftarrow> scan_unsigned rest; Some (Some name, v) } else Some (Some name, None)))"

section \<open>Host memory\<close>

text \<open>Eight bytes as a 64-bit integer of the little-endian host.\<close>

definition host_u64 :: "u8 list \<Rightarrow> u64" where
  "host_u64 bs = foldr (\<lambda>b x. push_bit 8 x OR ucast b) bs 0"

section \<open>The device\<close>

text \<open>A \<^verbatim>\<open>uint16_t\<close> of the little-endian host in memory.\<close>

definition u16_bytes :: "u16 \<Rightarrow> u8 list" where
  "u16_bytes x = [ucast x, ucast (drop_bit 8 x)]"

definition bytes_u16 :: "u8 list \<Rightarrow> u16" where
  "bytes_u16 bs = push_bit 8 (ucast (bs ! 1)) OR ucast (bs ! 0)"

text \<open>Both functions are called for one register; \<open>buf\<close> is the variable \<^verbatim>\<open>value\<close>.\<close>

definition read_from_modbus :: "'e system \<Rightarrow> i32 \<Rightarrow> u16 \<Rightarrow> 'e daemon \<Rightarrow> (i32 \<times> u16 \<times> 'e daemon) option" where
  "read_from_modbus m fd buf d = (case sys_read m fd 2 (d_env d) of (res, bytes, e) \<Rightarrow> do {
     mem \<leftarrow> buf_splice (u16_bytes buf) 0 bytes;
     Some (res, bytes_u16 mem, say (if res <s 0 then Read_Failed res else Read_Done res) (d\<lparr>d_env := e\<rparr>))
   })"

definition write_to_modbus :: "'e system \<Rightarrow> i32 \<Rightarrow> u16 \<Rightarrow> 'e daemon \<Rightarrow> i32 \<times> 'e daemon" where
  "write_to_modbus m fd buf d = (case sys_write m fd (u16_bytes buf) (d_env d) of (res, e) \<Rightarrow>
     (res, say (if res <s 0 then Write_Failed res else Write_Done res) (d\<lparr>d_env := e\<rparr>)))"

definition set_modbus_address :: "'e system \<Rightarrow> i32 \<Rightarrow> u64 \<Rightarrow> 'e daemon \<Rightarrow> i32 \<times> 'e daemon" where
  "set_modbus_address m fd address d = (case sys_ioctl m fd SERIAL_MODBUSCHAR_IOCSETADDR address (d_env d) of (res, e) \<Rightarrow>
     (res, say (if res <s 0 then Address_Failed address res else Address_Set address) (d\<lparr>d_env := e\<rparr>)))"

section \<open>Commands\<close>

text \<open>\<open>hash_table_entry->addr\<close> for a pointer that \<open>ht_get\<close> returned.\<close>

definition item_addr :: "'e daemon \<Rightarrow> address \<Rightarrow> u64 option" where
  "item_addr d p = map_option addr (find (\<lambda>item. item_block item = p) (d_items d))"

definition handle_write_command :: "'e system \<Rightarrow> 'e daemon \<Rightarrow> 'e daemon option" where
  "handle_write_command m d = do {
     (_, mem) \<leftarrow> d_buffer d;
     write_command \<leftarrow> c_string (drop 1 mem);
     matches \<leftarrow> sscanf_pair (ascii (CHR ''='')) write_command;
     (case matches of
        (Some name, Some v) \<Rightarrow>
          if v > 65535 then Some (say Invalid_Value d)
          else do {
            table \<leftarrow> d_table d;
            entry \<leftarrow> ht_get table name;
            if entry = 0 then Some (say (Not_Found name) d)
            else do {
              a \<leftarrow> item_addr d entry;
              let d = say (Writing v name a) d;
              let (res, d) = set_modbus_address m (d_fd d) a d;
              if 0 \<le>s res then Some (snd (write_to_modbus m (d_fd d) (ucast v) d)) else Some d
            }
          }
      | _ \<Rightarrow> Some (say Invalid_Format d))
   }"

definition handle_read_command :: "'e system \<Rightarrow> 'e daemon \<Rightarrow> 'e daemon option" where
  "handle_read_command m d = do {
     (_, mem) \<leftarrow> d_buffer d;
     name \<leftarrow> c_string (drop 1 mem);
     if length name > MAX_NAME_LENGTH then Some (say Name_Too_Long d)
     else do {
       table \<leftarrow> d_table d;
       entry \<leftarrow> ht_get table name;
       if entry = 0 then Some (say (Not_Found name) d)
       else do {
         a \<leftarrow> item_addr d entry;
         let d = say (Reading name a) d;
         let (res, d) = set_modbus_address m (d_fd d) a d;
         if 0 \<le>s res then do {
           (_, v, d) \<leftarrow> read_from_modbus m (d_fd d) 0 d;
           Some (say (Value_Is name v) d)
         }
         else Some d
       }
     }
   }"

section \<open>The map file\<close>

text \<open>The end of the function on an error in the file.\<close>

definition reject_file :: "'e system \<Rightarrow> message \<Rightarrow> address option \<Rightarrow> 'e daemon \<Rightarrow> (control \<times> 'e daemon) option" where
  "reject_file m msg line_buf d =
     terminate_with_error m ((say msg d)\<lparr>d_env := fclose m (free_opt (lib m) line_buf (d_env d))\<rparr>)"

text \<open>
  The branch for a line of acceptable length.  The second conversion stores four bytes, the lower
  half of \<open>addr\<close>.  \<open>None\<close> as a control is the end of a pass.
\<close>

definition read_map_line :: "'e system \<Rightarrow> u8 list \<Rightarrow> address option \<Rightarrow> 'e daemon \<Rightarrow> (control \<times> 'e daemon) option" where
  "read_map_line m line line_buf d = (case malloc (lib m) 16 (d_env d) of
     (None, _) \<Rightarrow> None
   | (Some p, e) \<Rightarrow> do {
       let garbage = host_u64 (take 8 (contents m p 16 e));
       str \<leftarrow> c_string (line @ [0]);
       matches \<leftarrow> sscanf_pair (ascii (CHR '','')) str;
       (case matches of
          (Some name, Some a) \<Rightarrow> do {
            let item = \<lparr>item_block = p, addr = garbage AND NOT 0xFFFFFFFF OR ucast a\<rparr>;
            table \<leftarrow> d_table d;
            (r, table, e) \<leftarrow> ht_set (lib m) table name p e;
            let d = d\<lparr>d_items := item # d_items d, d_table := Some table, d_env := e\<rparr>;
            if r = None then reject_file m Out_Of_Memory line_buf d else Some (Continue, d)
          }
        | _ \<Rightarrow> reject_file m (Invalid_Line str) line_buf
                (d\<lparr>d_items := \<lparr>item_block = p, addr = garbage\<rparr> # d_items d, d_env := e\<rparr>))
     })"

partial_function (option) map_file_loop ::
  "'e system \<Rightarrow> nat \<times> address option \<times> 'e daemon \<Rightarrow> (control \<times> address option \<times> 'e daemon) option" where
  "map_file_loop m vars = (case vars of (line_nr, line_buf, d) \<Rightarrow>
     (case getline m line_buf (d_env d) of
        (None, line_buf, e) \<Rightarrow> Some (Continue, line_buf, d\<lparr>d_env := e\<rparr>)
      | (Some line, line_buf, e) \<Rightarrow> do {
          let line_nr = line_nr + 1;
          let d = d\<lparr>d_env := e\<rparr>;
          (c, d) \<leftarrow> (if length line > MAX_NAME_LENGTH + MAX_VALUE_LENGTH
             then reject_file m (Line_Too_Long line_nr (length line)) line_buf d
             else read_map_line m line line_buf d);
          if c = Continue \<and> line \<noteq> [] then map_file_loop m (line_nr, line_buf, d)
          else Some (c, line_buf, d)
        }))"

definition read_map_file :: "'e system \<Rightarrow> cstring \<Rightarrow> 'e daemon \<Rightarrow> (control \<times> 'e daemon) option" where
  "read_map_file m filename d = (case ht_create (lib m) (d_env d) of
     (None, e) \<Rightarrow> terminate_with_error m (say No_Table (d\<lparr>d_table := None, d_env := e\<rparr>))
   | (Some t, e) \<Rightarrow>
       (case fopen m filename e of (ok, e) \<Rightarrow>
          let d = d\<lparr>d_table := Some t, d_env := e\<rparr> in
          if \<not> ok then terminate_with_error m (say No_Map_File d)
          else do {
            (c, line_buf, d) \<leftarrow> map_file_loop m (0, None, d);
            if c = Continue
            then Some (Continue, d\<lparr>d_env := fclose m (free_opt (lib m) line_buf (d_env d))\<rparr>)
            else Some (c, d)
          }))"

section \<open>The program\<close>

text \<open>
  One pass of the command loop.  At its end the block of \<^verbatim>\<open>buffer\<close> is freed and the pointer keeps
  its value.
\<close>

definition main_pass :: "'e system \<Rightarrow> 'e daemon \<Rightarrow> (control \<times> 'e daemon) option" where
  "main_pass m d = (case malloc (lib m) (of_nat BUFFER_SIZE) (d_env d) of
     (None, e) \<Rightarrow> terminate_with_error m (d\<lparr>d_buffer := None, d_env := e\<rparr>)
   | (Some p, e) \<Rightarrow> (case sys_read m 0 MAX_CMD_LENGTH e of (read_length, bytes, e') \<Rightarrow> do {
       mem \<leftarrow> buf_splice (contents m p BUFFER_SIZE e) 0 bytes;
       let d = d\<lparr>d_buffer := Some (p, mem), d_env := e'\<rparr>;
       d \<leftarrow> (if read_length <s 0 then Some d
            else do {
              (cmd_type, mem, out) \<leftarrow> validate_and_prepare_input mem read_length;
              let d = d\<lparr>d_buffer := Some (p, mem), d_out := d_out d @ out\<rparr>;
              (case cmd_type of
                 COMMAND_INVALID \<Rightarrow> Some d
               | COMMAND_WRITE \<Rightarrow> handle_write_command m d
               | COMMAND_READ \<Rightarrow> handle_read_command m d)
            });
       Some (Continue, d\<lparr>d_env := free (lib m) p (d_env d)\<rparr>)
     }))"

definition loop_pass :: "'e system \<Rightarrow> 'e daemon \<Rightarrow> ('e daemon + control \<times> 'e daemon) option" where
  "loop_pass m d = do {
     (c, d) \<leftarrow> main_pass m d;
     Some (if c = Continue then Inl d else Inr (c, d))
   }"

definition main_loop :: "'e system \<Rightarrow> 'e daemon \<Rightarrow> (control \<times> 'e daemon) option" where
  "main_loop m = loop (loop_pass m)"

text \<open>\<open>argv1\<close> is \<^verbatim>\<open>argv[1]\<close>, \<open>None\<close> when \<^verbatim>\<open>argc < 2\<close>; \<open>e\<close> is the environment the program starts in.\<close>

definition main :: "'e system \<Rightarrow> cstring option \<Rightarrow> 'e \<Rightarrow> (control \<times> 'e daemon) option" where
  "main m argv1 e = (
     let d = say Hello \<lparr>d_buffer = None, d_table = None, d_items = [], d_fd = 0, d_env = e, d_out = []\<rparr> in
     (case argv1 of
        None \<Rightarrow> Some (Exit 0, say Specify_File d)
      | Some filename \<Rightarrow> (case sys_open m (d_env d) of (fd, e) \<Rightarrow>
          let d = d\<lparr>d_fd := fd, d_env := e\<rparr> in
          if fd <s 0 then Some (Exit 1, say Driver_Not_Open d)
          else do {
            (c, d) \<leftarrow> read_map_file m filename d;
            if c = Continue then main_loop m d else Some (c, d)
          })))"

end
