(* ===== verification/Daemon_Memory.thy ===== *)
theory Daemon_Memory
  imports Serial_Control
begin

text \<open>
  The state of the daemon between two operations, and its memory: which blocks it owns, what the
  map file leaves in the table, and that every way to end frees everything.
\<close>

section \<open>The mapping\<close>

abbreviation item_blocks :: "'e daemon \<Rightarrow> address list" where
  "item_blocks d \<equiv> map item_block (d_items d)"

text \<open>The table exists and its values are pointers to items.\<close>

definition mapping_ok :: "'e daemon \<Rightarrow> bool" where
  "mapping_ok d \<longleftrightarrow> (\<exists>t. d_table d = Some t \<and> ht_ok t \<and> 0 \<notin> set (item_blocks d) \<and>
     ran (ht_map (entries t)) \<subseteq> set (item_blocks d))"

text \<open>The address that the daemon has for a name.\<close>

definition register_of :: "'e daemon \<Rightarrow> cstring \<Rightarrow> u64 option" where
  "register_of d name = do { t \<leftarrow> d_table d; p \<leftarrow> ht_map (entries t) name; item_addr d p }"

lemma item_addr_in: "p \<in> set (item_blocks d) \<Longrightarrow> \<exists>a. item_addr d p = Some a"
  by (cases "find (\<lambda>item. item_block item = p) (d_items d)") (auto simp: item_addr_def find_None_iff)

lemma mapping_lookup:
  assumes "mapping_ok d"
  obtains t p where "d_table d = Some t" "ht_get t name = Some p"
    "register_of d name = None \<Longrightarrow> p = 0" "\<And>a. register_of d name = Some a \<Longrightarrow> p \<noteq> 0 \<and> item_addr d p = Some a"
proof -
  obtain t where t: "d_table d = Some t" "ht_ok t" "0 \<notin> set (item_blocks d)"
    "ran (ht_map (entries t)) \<subseteq> set (item_blocks d)"
    using assms by (auto simp: mapping_ok_def)
  show thesis
  proof (cases "ht_map (entries t) name")
    case None
    then have r: "register_of d name = None" "ht_get t name = Some 0"
      using t by (simp_all add: ht_get_spec register_of_def)
    show ?thesis by (rule that [OF t(1) r(2)]) (use r(1) in simp_all)
  next
    case (Some p)
    then have p: "p \<in> set (item_blocks d)" using t(4) by (auto intro: ranI)
    have r: "register_of d name = item_addr d p" "ht_get t name = Some p"
      using t Some by (simp_all add: ht_get_spec register_of_def)
    have p0: "p \<noteq> 0" using p t(3) by metis
    obtain a where a: "item_addr d p = Some a" using item_addr_in [OF p] by metis
    show ?thesis by (rule that [OF t(1) r(2)]) (use r(1) a p0 in simp_all)
  qed
qed

text \<open>The part of an address that the map file determines.\<close>

definition registers :: "'e daemon \<Rightarrow> cstring \<Rightarrow> u32 option" where
  "registers d name = map_option ucast (register_of d name)"

text \<open>
  The rest of an address is what the block of its item contained: the conversion stores only the
  lower half.
\<close>

definition uninitialised_half :: "'e system \<Rightarrow> u64 \<Rightarrow> bool" where
  "uninitialised_half m x \<longleftrightarrow> (\<exists>p e. drop_bit 32 x = drop_bit 32 (host_u64 (take 8 (contents m p 16 e))))"

text \<open>
  What a line of the file means: a name with its address, or nothing; \<open>None\<close> when the conversion
  of the line is undefined.
\<close>

definition line_entry :: "u8 list \<Rightarrow> (cstring \<times> u32) option option" where
  "line_entry line = do {
     str \<leftarrow> c_string (line @ [0]);
     matches \<leftarrow> sscanf_pair (ascii (CHR '','')) str;
     Some (case matches of (Some name, Some a) \<Rightarrow> Some (name, a) | _ \<Rightarrow> None)
   }"

text \<open>The entries of a file, \<open>None\<close> when a line is too long or has none.\<close>

primrec file_entries :: "u8 list list \<Rightarrow> (cstring \<times> u32) list option" where
  "file_entries [] = Some []"
| "file_entries (line # lines) = (if length line > MAX_NAME_LENGTH + MAX_VALUE_LENGTH then None
     else do { r \<leftarrow> line_entry line; entry \<leftarrow> r; es \<leftarrow> file_entries lines; Some (entry # es) })"

text \<open>Every line that is not too long can be converted.\<close>

definition file_defined :: "u8 list list \<Rightarrow> bool" where
  "file_defined lines \<longleftrightarrow> (\<forall>line\<in>set lines. MAX_NAME_LENGTH + MAX_VALUE_LENGTH < length line \<or> line_entry line \<noteq> None)"

text \<open>
  A file whose conversions are defined, with memory for its items, its table and its line buffer: the
  code does not check the item's \<^verbatim>\<open>malloc\<close>.
\<close>

definition loadable :: "nat \<Rightarrow> u8 list list \<Rightarrow> bool" where
  "loadable available lines \<longleftrightarrow> file_defined lines \<and> 4 * length lines + 4 \<le> available"

lemma line_entry_Nil: "line_entry [] = Some None"
  by (simp add: line_entry_def c_string_def sscanf_pair_def)

section \<open>Memory\<close>

text \<open>The state of the daemon next to other live blocks \<open>B\<close>.\<close>

definition daemon_inv :: "('e \<Rightarrow> address set) \<Rightarrow> address set \<Rightarrow> 'e daemon \<Rightarrow> bool" where
  "daemon_inv blocks B d \<longleftrightarrow> mapping_ok d \<and> distinct (item_blocks d) \<and> set (item_blocks d) \<inter> B = {} \<and>
     owns blocks (B \<union> set (item_blocks d)) (the (d_table d)) (d_env d)"

lemma say_simps [simp]:
  "d_buffer (say msg d) = d_buffer d" "d_table (say msg d) = d_table d" "d_items (say msg d) = d_items d"
  "d_fd (say msg d) = d_fd d" "d_env (say msg d) = d_env d" "d_out (say msg d) = d_out d @ [msg]"
  "daemon_inv blocks B (say msg d) = daemon_inv blocks B d" "register_of (say msg d) = register_of d"
  by (simp_all add: say_def daemon_inv_def mapping_ok_def register_of_def item_addr_def fun_eq_iff)

lemma daemon_inv_env:
  "blocks e = blocks (d_env d) \<Longrightarrow> daemon_inv blocks B (d\<lparr>d_env := e\<rparr>) = daemon_inv blocks B d"
  by (simp add: daemon_inv_def mapping_ok_def owns_def)

lemma register_of_env [simp]: "register_of (d\<lparr>d_env := e\<rparr>) = register_of d"
  by (simp add: register_of_def item_addr_def fun_eq_iff)

lemma registers_env [simp]: "registers (d\<lparr>d_env := e\<rparr>) = registers d"
  by (simp add: registers_def fun_eq_iff)

text \<open>
  What the daemon relies on: the allocator's laws; \<open>getline\<close> manages the block of \<^verbatim>\<open>line_buf\<close>;
  files and devices do not touch the daemon's blocks, and nothing but \<open>getline\<close> moves the position in the file,
  whose remaining lines are \<open>pending\<close>.  \<open>memory\<close> is a number of blocks that are certainly still
  available, each request takes at most one of them.
\<close>

locale daemon_host = c_heap "lib m" blocks for m :: "'e system" and blocks :: "'e \<Rightarrow> address set" +
  fixes pending :: "'e \<Rightarrow> u8 list list" and file_lines :: "cstring \<Rightarrow> u8 list list" and memory :: "'e \<Rightarrow> nat"
  assumes fopen_law: "fopen m name e = (ok, e') \<Longrightarrow>
      blocks e' = blocks e \<and> memory e \<le> memory e' + 1 \<and> (ok \<longrightarrow> pending e' = file_lines name)"
    and fclose_law: "blocks (fclose m e) = blocks e"
    and getline_law: "getline m p e = (line, p', e') \<Longrightarrow> set_option p \<subseteq> blocks e \<Longrightarrow>
      blocks e' = (blocks e - set_option p) \<union> set_option p' \<and> set_option p' \<inter> (blocks e - set_option p) = {} \<and>
      memory e \<le> memory e' + 1 \<and>
      line = (case pending e of [] \<Rightarrow> None | l # _ \<Rightarrow> Some l) \<and> pending e' = tl (pending e)"
    and read_law: "sys_read m fd len e = (res, bytes, e') \<Longrightarrow> blocks e' = blocks e \<and> length bytes \<le> len"
    and write_law: "sys_write m fd bytes e = (res, e') \<Longrightarrow> blocks e' = blocks e"
    and ioctl_law: "sys_ioctl m fd cmd a e = (res, e') \<Longrightarrow> blocks e' = blocks e"
    and open_law: "sys_open m e = (res, e') \<Longrightarrow> blocks e' = blocks e \<and> memory e \<le> memory e' + 1"
    and close_law: "blocks (sys_close m fd e) = blocks e"
    and malloc_frame: "malloc (lib m) n e = (r, e') \<Longrightarrow>
      pending e' = pending e \<and> memory e \<le> memory e' + 1 \<and> (0 < memory e \<longrightarrow> r \<noteq> None)"
    and calloc_frame: "calloc (lib m) n k e = (r, e') \<Longrightarrow> pending e' = pending e \<and> memory e \<le> memory e' + 1"
    and strdup_frame: "strdup (lib m) str e = (r, e') \<Longrightarrow> pending e' = pending e \<and> memory e \<le> memory e' + 1"
    and free_frame: "pending (free (lib m) q e) = pending e \<and> memory e \<le> memory (free (lib m) q e)"
begin

lemma fold_free:
  "distinct ps \<Longrightarrow> set ps \<subseteq> blocks e \<Longrightarrow> blocks (fold (free (lib m)) ps e) = blocks e - set ps"
proof (induction ps arbitrary: e)
  case (Cons p ps)
  then have "blocks (fold (free (lib m)) ps (free (lib m) p e)) = blocks (free (lib m) p e) - set ps"
    by (intro Cons.IH) (auto simp: free_law)
  then show ?case using Cons.prems by (auto simp: free_law)
qed simp

text \<open>\<open>cleanup\<close> frees the table, the items and the buffer.\<close>

lemma cleanup_frees:
  assumes "daemon_inv blocks B d" "set_option (map_option fst (d_buffer d)) \<subseteq> B"
  shows "returns (cleanup m d) (\<lambda>d'. blocks (d_env d') = B - set_option (map_option fst (d_buffer d)) \<and> d_out d' = d_out d)"
proof -
  obtain t where t: "d_table d = Some t" "ht_ok t" using assms(1) by (auto simp: daemon_inv_def mapping_ok_def)
  let ?S = "set_option (map_option fst (d_buffer d))" and ?I = "set (item_blocks d)"
  let ?e = "free_opt (lib m) (map_option fst (d_buffer d)) (d_env d)"
  have inv: "distinct (item_blocks d)" "?I \<inter> B = {}" "owns blocks (B \<union> ?I) t (d_env d)"
    using assms(1) t by (auto simp: daemon_inv_def)
  have "blocks ?e = blocks (d_env d) - ?S"
    using assms(2) inv(3) by (auto simp: free_opt_def owns_def free_law split: option.split)
  then have "owns blocks (B - ?S \<union> ?I) t ?e"
    using assms(2) inv(2,3) unfolding owns_def by blast
  from destroy_frees [OF t(2) this] obtain e1 where e1: "ht_destroy (lib m) t ?e = Some e1" "blocks e1 = B - ?S \<union> ?I"
    by (auto elim!: returnsE)
  have "fold (\<lambda>item. free (lib m) (item_block item)) (d_items d) = fold (free (lib m)) (item_blocks d)"
    by (simp add: fold_map comp_def)
  moreover have "blocks (fold (free (lib m)) (item_blocks d) e1) = B - ?S"
    using fold_free [OF inv(1), of e1] e1(2) inv(2) by auto
  ultimately show ?thesis
    using t(1) e1(1) by (simp add: cleanup_def Let_def close_law)
qed

lemma free_opt_inv:
  assumes "daemon_inv blocks B d" "set_option p \<subseteq> B"
  shows "daemon_inv blocks (B - set_option p) (d\<lparr>d_env := free_opt (lib m) p (d_env d)\<rparr>)"
proof -
  have "blocks (free_opt (lib m) p (d_env d)) = blocks (d_env d) - set_option p"
    using assms by (auto simp: free_opt_def daemon_inv_def owns_def free_law split: option.split)
  then show ?thesis
    using assms unfolding daemon_inv_def mapping_ok_def owns_def by auto
qed

lemma terminate_frees:
  assumes "daemon_inv blocks B d" "d_buffer d = None"
  shows "returns (terminate_with_error m d) (\<lambda>(c, d'). c = Exit 1 \<and> blocks (d_env d') = B \<and> d_out d' = d_out d @ [Terminating_Error])"
  using cleanup_frees [of B "say Terminating_Error d"] assms
  by (auto simp: terminate_with_error_def elim!: returns_mono)

lemma reject_frees:
  assumes "daemon_inv blocks B d" "d_buffer d = None" "set_option p \<subseteq> B"
  shows "returns (reject_file m msg p d) (\<lambda>(c, d'). c = Exit 1 \<and> blocks (d_env d') = B - set_option p \<and>
    d_out d' = d_out d @ [msg, Terminating_Error])"
proof -
  let ?d = "(say msg d)\<lparr>d_env := fclose m (free_opt (lib m) p (d_env d))\<rparr>"
  have "daemon_inv blocks (B - set_option p) ((say msg d)\<lparr>d_env := free_opt (lib m) p (d_env (say msg d))\<rparr>)"
    by (rule free_opt_inv) (use assms in simp_all)
  then have "daemon_inv blocks (B - set_option p) ?d"
    using daemon_inv_env [of blocks "fclose m (free_opt (lib m) p (d_env d))" "(say msg d)\<lparr>d_env := free_opt (lib m) p (d_env d)\<rparr>"]
    by (simp add: fclose_law)
  from terminate_frees [OF this] show ?thesis using assms(2) by (simp add: reject_file_def)
qed

section \<open>The map file\<close>

lemma ht_expand_frame:
  assumes "ht_ok t" "ht_expand (lib m) t e = Some (s, t', e')"
  shows "pending e' = pending e \<and> memory e \<le> memory e' + 1"
proof (cases s)
  case True
  then obtain q e1 where e1: "calloc (lib m) (capacity t * 2) 16 e = (Some q, e1)" "e' = free (lib m) (entries_block t) e1"
    using ht_expand_spec [OF assms(1), of "lib m" e] assms(2) by auto
  then show ?thesis using calloc_frame [OF e1(1)] free_frame [of "entries_block t" e1] by simp
next
  case False
  then have "e' = e \<or> calloc (lib m) (capacity t * 2) 16 e = (None, e')"
    using ht_expand_spec [OF assms(1), of "lib m" e] assms(2) by simp
  then show ?thesis using calloc_frame [of "capacity t * 2" 16 e None e'] by auto
qed

lemma ht_set_frame:
  assumes "ht_ok t" "v \<noteq> 0"
  shows "returns (ht_set (lib m) t key v e) (\<lambda>(r, t', e'). pending e' = pending e \<and> memory e \<le> memory e' + 2)"
proof (rule ht_set_rule [OF assms], goal_cases)
  case (1 e')
  from ht_expand_frame [OF assms(1) 1] show ?case by simp
next
  case (2 t1 e1)
  then have e1: "pending e1 = pending e \<and> memory e \<le> memory e1 + 1"
    using ht_expand_frame [OF assms(1)] by auto
  show ?case
  proof (rule returns_mono4 [OF ht_set_entry_table [OF 2(1) assms(2), of "lib m" 0 key e1]], goal_cases)
    case (1 r es l e')
    then have "e' = e1 \<or> (\<exists>r. strdup (lib m) key e1 = (r, e'))"
      by (auto simp: Let_def split: option.splits if_splits)
    then have "pending e' = pending e1 \<and> memory e1 \<le> memory e' + 1"
      using strdup_frame by fastforce
    then show ?case using e1 1 by auto
  qed
qed

text \<open>A new item for \<open>name\<close>, at the front of the list and in the table.\<close>

lemma register_of_new:
  fixes a :: u64 and e :: 'e
  assumes "mapping_ok d" "d_table d = Some t" "p \<notin> set (item_blocks d)" "p \<noteq> 0"
    and "ht_ok t'" "ht_map (entries t') = (ht_map (entries t))(name \<mapsto> p)"
  defines "d' \<equiv> d\<lparr>d_items := \<lparr>item_block = p, addr = a\<rparr> # d_items d, d_table := Some t', d_env := e\<rparr>"
  shows "mapping_ok d'" "register_of d' = (register_of d)(name \<mapsto> a)"
proof -
  have t: "0 \<notin> set (item_blocks d)" "ran (ht_map (entries t)) \<subseteq> set (item_blocks d)"
    using assms(1,2) by (auto simp: mapping_ok_def)
  have "ran (ht_map (entries t')) \<subseteq> insert p (ran (ht_map (entries t)))"
    unfolding assms(6) by (auto simp: ran_def)
  then show "mapping_ok d'" using t assms(4,5) by (auto simp: mapping_ok_def d'_def)
  have item: "item_addr d' q = (if q = p then Some a else item_addr d q)" for q
    by (simp add: item_addr_def d'_def)
  have d': "d_table d' = Some t'" by (simp add: d'_def)
  have "register_of d' k = ((register_of d)(name \<mapsto> a)) k" for k
  proof (cases "k = name")
    case True
    then show ?thesis by (simp add: register_of_def d' assms(6) item)
  next
    case False
    have "q \<noteq> p" if "ht_map (entries t) k = Some q" for q
      using that t(2) assms(3) by (auto intro: ranI)
    then show ?thesis
      using False assms(2,6) by (cases "ht_map (entries t) k") (auto simp: register_of_def item d')
  qed
  then show "register_of d' = (register_of d)(name \<mapsto> a)" by (rule ext)
qed

text \<open>\<open>getline\<close> replaces one block.\<close>

lemma getline_inv:
  assumes "daemon_inv blocks (B \<union> set_option q) d" "set_option q \<inter> B = {}" "getline m q (d_env d) = (r, q', e)"
  shows "daemon_inv blocks (B \<union> set_option q') (d\<lparr>d_env := e\<rparr>)" "set_option q' \<inter> B = {}"
proof -
  let ?I = "set (item_blocks d)" and ?T = "set (owned (the (d_table d)))"
  have o: "set_option q \<subseteq> blocks (d_env d)" "?I \<inter> (B \<union> set_option q) = {}" "distinct (owned (the (d_table d)))"
    "?T \<inter> (B \<union> set_option q \<union> ?I) = {}" "blocks (d_env d) = B \<union> set_option q \<union> ?I \<union> ?T"
    using assms(1) by (auto simp: daemon_inv_def owns_def)
  note law = getline_law [OF assms(3) o(1)]
  have rest: "blocks (d_env d) - set_option q = B \<union> ?I \<union> ?T" using o assms(2) by blast
  then have e: "blocks e = B \<union> ?I \<union> ?T \<union> set_option q'" "set_option q' \<inter> (B \<union> ?I \<union> ?T) = {}"
    using law by simp_all
  show "set_option q' \<inter> B = {}" using e(2) by blast
  have "?I \<inter> (B \<union> set_option q') = {}" "?T \<inter> (B \<union> set_option q' \<union> ?I) = {}"
    "blocks e = B \<union> set_option q' \<union> ?I \<union> ?T"
    using o e by blast+
  then show "daemon_inv blocks (B \<union> set_option q') (d\<lparr>d_env := e\<rparr>)"
    using assms(1) o(3) by (simp add: daemon_inv_def mapping_ok_def owns_def)
qed

text \<open>One line.\<close>

lemma low_half: "ucast (g AND NOT 0xFFFFFFFF OR ucast a :: u64) = (a :: u32)"
proof -
  have m: "(0xFFFFFFFF :: u64) = mask 32" by (simp add: mask_eq_exp_minus_1)
  have "ucast (g AND NOT (mask 32) OR ucast a :: u64) = (a :: u32)"
    by (rule bit_word_eqI) (simp add: bit_simps del: mask_numeral)
  then show ?thesis by (simp only: m)
qed

lemma high_half: "drop_bit 32 (g AND NOT 0xFFFFFFFF OR ucast (a :: u32)) = drop_bit 32 (g :: u64)"
proof -
  have m: "(0xFFFFFFFF :: u64) = mask 32" by (simp add: mask_eq_exp_minus_1)
  have "drop_bit 32 (g AND NOT (mask 32) OR ucast a) = drop_bit 32 g"
    by (rule bit_word_eqI) (auto simp: bit_simps simp del: mask_numeral dest: bit_imp_le_length)
  then show ?thesis by (simp only: m)
qed

lemma new_item_inv:
  assumes "daemon_inv blocks B d" "malloc (lib m) 16 (d_env d) = (Some p, e)"
  shows "p \<notin> set (item_blocks d)" "p \<noteq> 0" "p \<notin> B" "owns blocks (B \<union> insert p (set (item_blocks d))) (the (d_table d)) e"
proof -
  have a: "p \<noteq> 0" "p \<notin> blocks (d_env d)" "blocks e = insert p (blocks (d_env d))"
    using malloc_law [OF assms(2)] by (simp_all add: allocated_def)
  moreover have o: "owns blocks (B \<union> set (item_blocks d)) (the (d_table d)) (d_env d)"
    using assms(1) by (simp add: daemon_inv_def)
  ultimately show "p \<notin> set (item_blocks d)" "p \<noteq> 0" "p \<notin> B"
    by (auto simp: owns_def)
  show "owns blocks (B \<union> insert p (set (item_blocks d))) (the (d_table d)) e"
    using o a unfolding owns_def by blast
qed

lemma read_map_line_spec:
  assumes inv: "daemon_inv blocks B d" and d: "d_buffer d = None" and q: "set_option q \<subseteq> B"
    and entry: "line_entry line = Some r" and p: "malloc (lib m) 16 (d_env d) = (Some p, e)"
  shows "returns (read_map_line m line q d) (\<lambda>(c, d').
    if c = Continue then \<exists>n a. r = Some (n, a) \<and> daemon_inv blocks B d' \<and> d_buffer d' = None \<and>
      pending (d_env d') = pending (d_env d) \<and> memory (d_env d) \<le> memory (d_env d') + 3 \<and>
      registers d' = (registers d)(n \<mapsto> a) \<and> d_out d' = d_out d \<and>
      (\<forall>x\<in>ran (register_of d'). x \<in> ran (register_of d) \<or> uninitialised_half m x)
    else c = Exit 1 \<and> blocks (d_env d') = B - set_option q \<and> (r = None \<or> Out_Of_Memory \<in> set (d_out d')))"
proof -
  have frame: "pending e = pending (d_env d)" "memory (d_env d) \<le> memory e + 1"
    using malloc_frame [OF p] by simp_all
  note new = new_item_inv [OF inv p]
  obtain t where t: "d_table d = Some t" "ht_ok t" and map_ok: "mapping_ok d" using inv by (auto simp: daemon_inv_def mapping_ok_def)
  let ?g = "host_u64 (take 8 (contents m p 16 e))"
  obtain str matches where str: "c_string (line @ [0]) = Some str" "sscanf_pair (ascii (CHR '','')) str = Some matches"
      "r = (case matches of (Some name, Some a) \<Rightarrow> Some (name, a) | _ \<Rightarrow> None)"
    using entry by (auto simp: line_entry_def split: bind_splits)
  show ?thesis
  proof (cases r)
    case None
    let ?d = "d\<lparr>d_items := \<lparr>item_block = p, addr = ?g\<rparr> # d_items d, d_env := e\<rparr>"
    have "mapping_ok ?d" using map_ok new(2) by (auto simp: mapping_ok_def)
    then have "daemon_inv blocks B ?d"
      using inv new by (auto simp: daemon_inv_def)
    from reject_frees [OF this _ q, of "Invalid_Line str"] d
    have "returns (reject_file m (Invalid_Line str) q ?d) (\<lambda>(c, d'). c = Exit 1 \<and> blocks (d_env d') = B - set_option q)"
      by (auto elim!: returnsE)
    moreover have "read_map_line m line q d = reject_file m (Invalid_Line str) q ?d"
      using None str by (auto simp: read_map_line_def p Let_def split: prod.splits option.splits)
    ultimately show ?thesis using None by (auto elim!: returnsE)
  next
    case (Some na)
    obtain n a where na: "na = (n, a)" by fastforce
    have matches: "matches = (Some n, Some a)"
      using Some na str(3) by (auto split: prod.splits option.splits)
    have own: "owns blocks (B \<union> insert p (set (item_blocks d))) t e" using new(4) t(1) by simp
    obtain r' t' e' where set: "ht_set (lib m) t n p e = Some (r', t', e')" "ht_ok t'"
        "case r' of None \<Rightarrow> ht_map (entries t') = ht_map (entries t)
         | Some (p', k) \<Rightarrow> k = n \<and> ht_map (entries t') = (ht_map (entries t))(n \<mapsto> p)"
        "owns blocks (B \<union> insert p (set (item_blocks d))) t' e'" "pending e' = pending e \<and> memory e \<le> memory e' + 2"
      using returns_conj [OF ht.store_law [OF t(2) new(2), of "lib m" n e]
          returns_conj [OF set_owns [OF t(2) new(2) own, of n] ht_set_frame [OF t(2) new(2), of n e]]]
      by (auto elim!: returnsE)
    let ?item = "\<lparr>item_block = p, addr = ?g AND NOT 0xFFFFFFFF OR ucast a\<rparr>"
    let ?d = "d\<lparr>d_items := ?item # d_items d, d_table := Some t', d_env := e'\<rparr>"
    have line: "read_map_line m line q d = (if r' = None then reject_file m Out_Of_Memory q ?d else Some (Continue, ?d))"
      using str(1,2) matches t(1) set(1) by (simp add: read_map_line_def p Let_def)
    have inv': "daemon_inv blocks B ?d" if "mapping_ok ?d"
      using inv new set(4) that by (auto simp: daemon_inv_def)
    show ?thesis
    proof (cases "r' = None")
      case True
      then have "mapping_ok ?d" using map_ok t(1) set(2,3) new(2) by (auto simp: mapping_ok_def)
      from reject_frees [OF inv' [OF this] _ q, of Out_Of_Memory] d show ?thesis
        unfolding line using True by (auto elim!: returnsE)
    next
      case False
      then have "ht_map (entries t') = (ht_map (entries t))(n \<mapsto> p)" using set(3) by auto
      note reg = register_of_new [OF map_ok t(1) new(1,2) set(2) this,
          where a = "?g AND NOT 0xFFFFFFFF OR ucast a" and e = e']
      have "registers ?d = (registers d)(n \<mapsto> a)"
        unfolding registers_def reg(2) by (rule ext) (simp add: low_half [of ?g a, simplified])
      moreover have "uninitialised_half m (?g AND NOT 0xFFFFFFFF OR ucast a)"
        unfolding uninitialised_half_def high_half by blast
      then have "\<forall>x\<in>ran (register_of ?d). x \<in> ran (register_of d) \<or> uninitialised_half m x"
        unfolding reg(2) by (auto simp: ran_def)
      ultimately show ?thesis
        unfolding line using False Some na d inv' [OF reg(1)] set(5) frame by auto
    qed
  qed
qed

text \<open>A line that was read in a defined way has its block and can be converted.\<close>

lemma read_map_line_defined:
  assumes "read_map_line m line q d = Some x"
  obtains r p e where "line_entry line = Some r" "malloc (lib m) 16 (d_env d) = (Some p, e)"
  using assms that by (auto simp: read_map_line_def line_entry_def Let_def split: prod.splits option.splits bind_splits)

text \<open>
  What the loop over the lines leaves, from the addresses \<open>regs\<close> and the messages \<open>out\<close>: every
  line is entered, or the program has ended with nothing left but \<open>B\<close>.
\<close>

definition loaded where
  "loaded B regs out lines = (\<lambda>(c, q', d').
     if c = Continue then \<exists>es. file_entries lines = Some es \<and> daemon_inv blocks (B \<union> set_option q') d' \<and>
       set_option q' \<inter> B = {} \<and> d_buffer d' = None \<and> registers d' = regs ++ map_of (rev es) \<and> d_out d' = out \<and>
       Ball (ran (register_of d')) (uninitialised_half m)
     else c = Exit 1 \<and> blocks (d_env d') = B \<and> (file_entries lines = None \<or> Out_Of_Memory \<in> set (d_out d')))"

lemma map_file_loop_spec:
  assumes "daemon_inv blocks (B \<union> set_option q) d" "set_option q \<inter> B = {}" "d_buffer d = None"
    and "Ball (ran (register_of d)) (uninitialised_half m)"
  shows "case map_file_loop m (nr, q, d) of
      None \<Rightarrow> \<not> loadable (memory (d_env d) + 3) (pending (d_env d))
    | Some r \<Rightarrow> loaded B (registers d) (d_out d) (pending (d_env d)) r"
  using assms
proof (induction "pending (d_env d)" arbitrary: nr q d)
  case Nil
  obtain r q' e where g: "getline m q (d_env d) = (r, q', e)" by (metis prod_cases3)
  have live: "set_option q \<subseteq> blocks (d_env d)"
    using Nil.prems(1) by (auto simp: daemon_inv_def owns_def)
  note law = getline_law [OF g live]
  have "daemon_inv blocks (B \<union> set_option q') (d\<lparr>d_env := e\<rparr>)" "set_option q' \<inter> B = {}"
    using getline_inv [OF Nil.prems(1,2) g] by simp_all
  then show ?case
    using Nil.hyps law g Nil.prems(3,4) by (simp add: map_file_loop.simps loaded_def)
next
  case (Cons line lines)
  obtain r q' e where g: "getline m q (d_env d) = (r, q', e)" by (metis prod_cases3)
  have live: "set_option q \<subseteq> blocks (d_env d)"
    using Cons.prems(1) by (auto simp: daemon_inv_def owns_def)
  note law = getline_law [OF g live]
  let ?d = "d\<lparr>d_env := e\<rparr>"
  have r: "r = Some line" "pending e = lines" "memory (d_env d) \<le> memory e + 1" using law Cons.hyps(2) [symmetric] by simp_all
  have inv: "daemon_inv blocks (B \<union> set_option q') ?d" "set_option q' \<inter> B = {}"
    using getline_inv [OF Cons.prems(1,2) g] by simp_all
  have loop: "map_file_loop m (nr, q, d) = do {
      (c, d) \<leftarrow> (if length line > MAX_NAME_LENGTH + MAX_VALUE_LENGTH
        then reject_file m (Line_Too_Long (Suc nr) (length line)) q' ?d else read_map_line m line q' ?d);
      if c = Continue \<and> line \<noteq> [] then map_file_loop m (Suc nr, q', d) else Some (c, q', d) }"
    by (simp add: map_file_loop.simps [of m "(nr, q, d)"] g r(1))
  have pend: "pending (d_env d) = line # lines" using Cons.hyps(2) by simp
  show ?case
  proof (cases "length line > MAX_NAME_LENGTH + MAX_VALUE_LENGTH")
    case True
    have "B \<union> set_option q' - set_option q' = B" using inv(2) by auto
    with reject_frees [OF inv(1), of q' "Line_Too_Long (Suc nr) (length line)"] Cons.prems(3) show ?thesis
      unfolding loop pend loaded_def using True by (auto elim!: returnsE)
  next
    case short: False
    show ?thesis
    proof (cases "read_map_line m line q' ?d")
      case None
      have "\<not> loadable (memory (d_env d) + 3) (line # lines)"
      proof
        assume ok: "loadable (memory (d_env d) + 3) (line # lines)"
        then obtain r1 where "line_entry line = Some r1" using short by (auto simp: loadable_def file_defined_def)
        moreover obtain p e2 where "malloc (lib m) 16 (d_env ?d) = (Some p, e2)"
          using ok r(3) malloc_frame [of 16 e "fst (malloc (lib m) 16 e)"]
          by (cases "malloc (lib m) 16 e") (auto simp: loadable_def)
        moreover have "d_buffer ?d = None" "set_option q' \<subseteq> B \<union> set_option q'" using Cons.prems(3) by simp_all
        ultimately show False
          using read_map_line_spec [OF inv(1), of q' line r1 p e2] by (simp add: None)
      qed
      then show ?thesis unfolding loop pend using short None by simp
    next
    case some: (Some x0)
    obtain r p e2 where entry: "line_entry line = Some r" and block: "malloc (lib m) 16 (d_env ?d) = (Some p, e2)"
      by (rule read_map_line_defined [OF some])
    have sub: "B \<union> set_option q' - set_option q' = B" using inv(2) by auto
    obtain c d1 where one: "read_map_line m line q' ?d = Some (c, d1)"
      and line: "if c = Continue then \<exists>n a. r = Some (n, a) \<and> daemon_inv blocks (B \<union> set_option q') d1 \<and> d_buffer d1 = None \<and>
        pending (d_env d1) = lines \<and> memory e \<le> memory (d_env d1) + 3 \<and>
        registers d1 = (registers d)(n \<mapsto> a) \<and> d_out d1 = d_out d \<and> Ball (ran (register_of d1)) (uninitialised_half m)
      else c = Exit 1 \<and> blocks (d_env d1) = B \<and> (r = None \<or> Out_Of_Memory \<in> set (d_out d1))"
    proof -
      have "d_buffer ?d = None" "set_option q' \<subseteq> B \<union> set_option q'" using Cons.prems(3) by simp_all
      from read_map_line_spec [OF inv(1) this entry block] obtain x where x: "read_map_line m line q' ?d = Some x"
        and spec: "case x of (c, d1) \<Rightarrow> if c = Continue then \<exists>n a. r = Some (n, a) \<and> daemon_inv blocks (B \<union> set_option q') d1 \<and>
            d_buffer d1 = None \<and> pending (d_env d1) = pending (d_env ?d) \<and> memory (d_env ?d) \<le> memory (d_env d1) + 3 \<and>
            registers d1 = (registers ?d)(n \<mapsto> a) \<and> d_out d1 = d_out ?d \<and>
            (\<forall>x\<in>ran (register_of d1). x \<in> ran (register_of ?d) \<or> uninitialised_half m x)
          else c = Exit 1 \<and> blocks (d_env d1) = B \<union> set_option q' - set_option q' \<and> (r = None \<or> Out_Of_Memory \<in> set (d_out d1))"
        by (rule returnsE)
      obtain c d1 where cd: "x = (c, d1)" by fastforce
      have "Ball (ran (register_of d1)) (uninitialised_half m)" if "c = Continue"
        using spec Cons.prems(4) that unfolding cd by (simp, blast)
      then show thesis using that [of c d1] x spec r(2) sub cd by (simp split: if_split_asm)
    qed
    show ?thesis
    proof (cases "c = Continue")
      case True
      then obtain n a where na: "r = Some (n, a)" "daemon_inv blocks (B \<union> set_option q') d1" "d_buffer d1 = None"
        "pending (d_env d1) = lines" "memory e \<le> memory (d_env d1) + 3" "registers d1 = (registers d)(n \<mapsto> a)" "d_out d1 = d_out d"
        "Ball (ran (register_of d1)) (uninitialised_half m)"
        using line by auto
      have "line \<noteq> []" using entry na(1) by (auto simp: line_entry_Nil)
      have next_lines: "case map_file_loop m (Suc nr, q', d1) of
          None \<Rightarrow> \<not> loadable (memory (d_env d1) + 3) lines
        | Some r \<Rightarrow> loaded B (registers d1) (d_out d1) lines r"
        using Cons.hyps(1) [of d1 q' "Suc nr", unfolded na(4)] na inv(2) by simp
      have same: "map_file_loop m (nr, q, d) = map_file_loop m (Suc nr, q', d1)"
        unfolding loop using short True one \<open>line \<noteq> []\<close> by simp
      have "loadable (memory (d_env d) + 3) (line # lines) \<Longrightarrow> loadable (memory (d_env d1) + 3) lines"
        using na(5) r(3) by (auto simp: loadable_def file_defined_def)
      then show ?thesis
        using next_lines short entry na unfolding pend same
        by (cases "map_file_loop m (Suc nr, q', d1)")
            (auto simp: loaded_def split: if_split_asm, metis option.exhaust surj_pair)
    next
      case exit: False
      then show ?thesis
        unfolding loop pend loaded_def using short one line entry by auto
    qed
    qed
  qed
qed

text \<open>The whole file.\<close>

lemma create_frame:
  assumes "ht_create (lib m) e = (r, e')"
  shows "memory e \<le> memory e' + 2"
proof -
  obtain p e1 where p: "malloc (lib m) 24 e = (p, e1)" by fastforce
  obtain q e2 where q: "calloc (lib m) INITIAL_CAPACITY 16 e1 = (q, e2)" by fastforce
  from malloc_frame [OF p] calloc_frame [OF q] free_frame [of "the p" e2] show ?thesis
    using assms p q by (auto simp: ht_create_def simp del: replicate.simps split: option.splits)
qed

lemma read_map_file_spec:
  assumes d: "d_items d = []" "d_buffer d = None" "blocks (d_env d) = B"
  shows "case read_map_file m name d of
      None \<Rightarrow> \<not> loadable (memory (d_env d)) (file_lines name)
    | Some (c, d') \<Rightarrow>
        if c = Continue then \<exists>es. file_entries (file_lines name) = Some es \<and> daemon_inv blocks B d' \<and>
          d_buffer d' = None \<and> registers d' = map_of (rev es) \<and> d_out d' = d_out d \<and>
          (\<forall>x\<in>ran (register_of d'). uninitialised_half m x)
        else c = Exit 1 \<and> blocks (d_env d') = B \<and> (file_entries (file_lines name) = None \<or>
          set (d_out d') \<inter> {Out_Of_Memory, No_Table, No_Map_File} \<noteq> {})"
proof -
  obtain r e where create: "ht_create (lib m) (d_env d) = (r, e)" by fastforce
  note mem = create_frame [OF create]
  show ?thesis
  proof (cases r)
    case None
    then have "blocks e = B" using create_owns [of "d_env d"] create d(3) by simp
    then show ?thesis
      using create None d by (simp add: read_map_file_def terminate_with_error_def cleanup_def Let_def free_opt_def close_law)
  next
    case (Some t)
    note t = ht_create_spec [OF create [unfolded Some]]
    have own: "owns blocks B t e" using create_owns [of "d_env d"] create d(3) Some by simp
    obtain ok e1 where f: "fopen m name e = (ok, e1)" by fastforce
    note law = fopen_law [OF f]
    let ?d = "d\<lparr>d_table := Some t, d_env := e1\<rparr>"
    have inv: "daemon_inv blocks B ?d"
      using own t law d(1) by (simp add: daemon_inv_def mapping_ok_def owns_def ht_map_def del: replicate.simps)
    have reg: "registers ?d = Map.empty"
      using t(2) by (simp add: registers_def register_of_def ht_map_def fun_eq_iff del: replicate.simps)
    have ran: "Ball (ran (register_of ?d)) (uninitialised_half m)"
      using t(2) by (simp add: ran_def register_of_def ht_map_def del: replicate.simps)
    show ?thesis
    proof (cases ok)
      case False
      then show ?thesis
        using terminate_frees [of B "say No_Map_File ?d"] inv d(2) create Some f
        by (auto simp: read_map_file_def Let_def elim!: returnsE)
    next
      case True
      have pend: "pending (d_env ?d) = file_lines name" using law True by simp
      have mem': "memory (d_env d) \<le> memory (d_env ?d) + 3" using law mem by simp
      have out: "d_out ?d = d_out d" by simp
      have loop_spec: "case map_file_loop m (0, None, ?d) of
          None \<Rightarrow> \<not> loadable (memory (d_env ?d) + 3) (file_lines name)
        | Some r \<Rightarrow> loaded B Map.empty (d_out d) (file_lines name) r"
        using map_file_loop_spec [OF _ _ _ ran, of B None 0, unfolded pend reg out] inv d(2) by simp
      show ?thesis
      proof (cases "map_file_loop m (0, None, ?d)")
        case None
        then have "\<not> loadable (memory (d_env d)) (file_lines name)"
          using loop_spec mem' by (auto simp: loadable_def)
        then show ?thesis using create Some f True None by (simp add: read_map_file_def Let_def)
      next
      case some: (Some x)
      then have x: "map_file_loop m (0, None, ?d) = Some x" "loaded B Map.empty (d_out d) (file_lines name) x"
        using loop_spec by simp_all
      obtain c q' d' where "x = (c, q', d')" by (metis prod_cases3)
      then have run: "map_file_loop m (0, None, ?d) = Some (c, q', d')" and
        res: "loaded B Map.empty (d_out d) (file_lines name) (c, q', d')" using x by simp_all
      let ?d' = "d'\<lparr>d_env := fclose m (free_opt (lib m) q' (d_env d'))\<rparr>"
      have whole: "read_map_file m name d = (if c = Continue then Some (Continue, ?d') else Some (c, d'))"
        using create Some f True run by (simp add: read_map_file_def Let_def)
      show ?thesis
      proof (cases "c = Continue")
        case False
        then show ?thesis unfolding whole using res by (auto simp: loaded_def)
      next
        case c: True
        then have inv': "daemon_inv blocks (B \<union> set_option q') d'" "set_option q' \<inter> B = {}"
          using res by (auto simp: loaded_def)
        have "B \<union> set_option q' - set_option q' = B" using inv'(2) by auto
        then have "daemon_inv blocks B ?d'"
          using free_opt_inv [OF inv'(1), of q']
          by (simp add: daemon_inv_def mapping_ok_def owns_def fclose_law)
        moreover have "registers ?d' = registers d'" by (simp add: registers_def [abs_def])
        ultimately show ?thesis unfolding whole using c res by (auto simp: loaded_def)
      qed
      qed
    qed
  qed
qed

end

end
