(* ===== verification/Daemon_Commands.thy ===== *)
theory Daemon_Commands
  imports Daemon_Memory
begin

text \<open>
  The commands of the daemon: decimal numbers and the lines that a user types, and what one pass
  of the command loop does with its input.
\<close>

section \<open>Numbers\<close>

text \<open>The digits that denote a number.\<close>

fun decimal_digits :: "nat \<Rightarrow> u8 list" where
  "decimal_digits n = (if n < 10 then [48 + of_nat n] else decimal_digits (n div 10) @ [48 + of_nat (n mod 10)])"

declare decimal_digits.simps [simp del]

lemma digit_byte:
  assumes "n < 10"
  shows "unat (48 + of_nat n :: u8) = 48 + n"
proof -
  have "unat (of_nat n :: u8) = n" using assms by (intro unat_of_nat_less) simp
  then show ?thesis using assms by (simp add: unat_word_ariths)
qed

lemma is_digit_unat: "is_digit c \<longleftrightarrow> 48 \<le> unat c \<and> unat c \<le> 57"
  by (simp add: is_digit_def word_le_nat_alt)

lemma is_digit_byte [simp]: "n < 10 \<Longrightarrow> is_digit (48 + of_nat n)"
  by (simp only: is_digit_unat digit_byte) simp

lemma decimal_append: "decimal (ds @ [c]) = 10 * decimal ds + unat (c - 48)"
  by (simp add: decimal_def)

lemma digit_value: "n < 10 \<Longrightarrow> unat (of_nat n :: u8) = n"
  by (intro unat_of_nat_less) simp

lemma decimal_of_digits [simp]: "decimal (decimal_digits n) = n"
proof (induction n rule: decimal_digits.induct)
  case (1 n)
  show ?case
  proof (cases "n < 10")
    case True
    then show ?thesis by (simp add: decimal_digits.simps [of n] decimal_def digit_value)
  next
    case False
    then show ?thesis using 1 by (simp add: decimal_digits.simps [of n] decimal_append digit_value)
  qed
qed

lemma digits_all: "\<forall>c\<in>set (decimal_digits n). is_digit c"
proof (induction n rule: decimal_digits.induct)
  case (1 n)
  then show ?case by (subst decimal_digits.simps) auto
qed

lemma digits_not_Nil [simp]: "decimal_digits n \<noteq> []"
  by (subst decimal_digits.simps) simp

lemma digits_length: "n < 10 ^ k \<Longrightarrow> 0 < k \<Longrightarrow> length (decimal_digits n) \<le> k"
proof (induction k arbitrary: n)
  case (Suc k)
  show ?case
  proof (cases "n < 10")
    case False
    then have "0 < k" using Suc.prems(1) by (cases k) auto
    moreover have "n div 10 < 10 ^ k" using Suc.prems(1) by (simp add: less_mult_imp_div_less mult.commute)
    ultimately show ?thesis using Suc.IH [of "n div 10"] False by (simp add: decimal_digits.simps [of n])
  qed (simp add: decimal_digits.simps [of n])
qed simp

lemma takeWhile_all: "\<forall>x\<in>set xs. P x \<Longrightarrow> takeWhile P xs = xs"
  by (simp add: takeWhile_eq_all_conv)

lemma scan_digits:
  assumes "ds \<noteq> []" "\<forall>c\<in>set ds. is_digit c" "decimal ds < 2 ^ 32"
  shows "scan_unsigned ds = Some (Some (of_nat (decimal ds)))"
proof -
  obtain c cs where ds: "ds = c # cs" using assms(1) by (cases ds) auto
  have "48 \<le> unat c" using assms(2) ds by (auto simp: is_digit_unat)
  then have c: "\<not> is_space c" "c \<noteq> ascii (CHR ''-'')" "c \<noteq> ascii (CHR ''+'')"
    by (auto simp: is_space_def word_le_nat_alt)
  moreover have "takeWhile is_digit cs = cs" using assms(2) ds by (intro takeWhile_all) simp
  ultimately show ?thesis
    using assms by (simp add: scan_unsigned_def ds Let_def del: takeWhile_eq_all_conv)
qed

lemma scan_decimal:
  assumes "n < 2 ^ 32"
  shows "scan_unsigned (decimal_digits n) = Some (Some (of_nat n))"
  using scan_digits [OF digits_not_Nil digits_all, of n] assms by simp

section \<open>Names and lines\<close>

text \<open>A name that fits with its terminator into the 30 bytes, for the separator \<open>sep\<close>.\<close>

definition name_ok :: "u8 \<Rightarrow> cstring \<Rightarrow> bool" where
  "name_ok sep name \<longleftrightarrow> name \<noteq> [] \<and> length name < 30 \<and> 0 \<notin> set name \<and> sep \<notin> set name"

lemma sscanf_pair_decimal:
  assumes "name_ok sep name" "n < 2 ^ 32"
  shows "sscanf_pair sep (name @ sep # decimal_digits n) = Some (Some name, Some (of_nat n))"
proof -
  have "takeWhile (\<lambda>c. c \<noteq> sep) (take 30 (name @ sep # decimal_digits n)) = name"
    using assms(1) by (auto simp: name_ok_def take_Cons' takeWhile_append intro!: takeWhile_all)
  then show ?thesis
    using assms scan_decimal [OF assms(2)] by (simp add: sscanf_pair_def name_ok_def MAX_NAME_LENGTH_def)
qed

lemma c_string_append: "0 \<notin> set str \<Longrightarrow> c_string (str @ 0 # rest) = Some str"
  by (simp add: c_string_def takeWhile_append)

lemma digits_no_nul: "0 \<notin> set (decimal_digits n)"
  using digits_all [of n] by (auto simp: is_digit_unat)

text \<open>A line of the map file for one entry.\<close>

definition map_line :: "cstring \<Rightarrow> nat \<Rightarrow> u8 list" where
  "map_line name a = name @ ascii (CHR '','') # decimal_digits a"

lemma line_entry_map_line:
  assumes "name_ok (ascii (CHR '','')) name" "a < 2 ^ 32"
  shows "line_entry (map_line name a) = Some (Some (name, of_nat a))"
proof -
  have "c_string (map_line name a @ [0]) = Some (map_line name a)"
    by (rule c_string_append) (use assms digits_no_nul in \<open>auto simp: name_ok_def map_line_def\<close>)
  then show ?thesis
    using sscanf_pair_decimal [OF assms] by (simp add: line_entry_def map_line_def)
qed

section \<open>One pass\<close>

text \<open>The kind of an input with what the code prints about it.\<close>

definition classify :: "u8 list \<Rightarrow> command_type_t \<times> message list" where
  "classify bytes = (if bytes = [] then (COMMAND_INVALID, [])
     else if last bytes \<noteq> 10 then (COMMAND_INVALID, [Command_Too_Long])
     else if hd bytes = ascii (CHR ''!'') then (COMMAND_WRITE, [])
     else if hd bytes = ascii (CHR ''?'') then (COMMAND_READ, [])
     else (COMMAND_INVALID, [Invalid_Start]))"

text \<open>The command without its first character and the end of the line.\<close>

definition argument :: "u8 list \<Rightarrow> cstring" where
  "argument bytes = takeWhile (\<lambda>c. c \<noteq> 0) (tl (butlast bytes))"

lemma validate_spec:
  assumes "length bytes \<le> 51"
  shows "validate_and_prepare_input (bytes @ rest) (of_nat (length bytes)) = Some (case classify bytes of (cmd, out) \<Rightarrow>
    (cmd, if cmd = COMMAND_INVALID then bytes @ rest else butlast bytes @ 0 # rest, out))"
proof (cases "bytes = []")
  case True
  then show ?thesis by (simp add: validate_and_prepare_input_def classify_def)
next
  case False
  then obtain bs x where bytes: "bytes = bs @ [x]" by (metis rev_exhaust)
  let ?n = "of_nat (length bytes) :: i32"
  have n: "unat ?n = length bytes" using assms by (intro unat_of_nat_less) simp
  then have s: "sint ?n = int (length bytes)"
    using sint_eq_uint_small [of ?n] assms by (simp add: uint_nat)
  have n1: "unat (?n - 1) = length bs"
    using n by (subst unat_minus_one) (auto simp: unat_eq_zero bytes)
  have neg: "\<not> ?n - 1 <s 0" by (rule int_index) (use n1 assms bytes in simp)
  have get: "buf_get_int (bytes @ rest) (?n - 1) = Some (last bytes)"
    unfolding buf_get_int_def n1 using neg by (simp add: bytes)
  have set: "buf_set_int (bytes @ rest) (?n - 1) 0 = Some (butlast bytes @ 0 # rest)"
    unfolding buf_set_int_def n1 using neg by (simp add: bytes)
  have first: "buf_get_int (bytes @ rest) 0 = Some (hd bytes)"
    using False by (cases bytes) (simp_all add: buf_get_int_def)
  show ?thesis
    using s get set first False assms
    by (auto simp: validate_and_prepare_input_def size_defs classify_def)
qed

text \<open>The lines that write and read a register.\<close>

definition write_line :: "cstring \<Rightarrow> nat \<Rightarrow> u8 list" where
  "write_line name v = ascii (CHR ''!'') # name @ ascii (CHR ''='') # decimal_digits v @ [10]"

definition read_line :: "cstring \<Rightarrow> u8 list" where
  "read_line name = ascii (CHR ''?'') # name @ [10]"

lemma write_line_parts:
  assumes "name_ok (ascii (CHR ''='')) name"
  shows "classify (write_line name v) = (COMMAND_WRITE, [])"
    "argument (write_line name v) = name @ ascii (CHR ''='') # decimal_digits v"
proof -
  show "classify (write_line name v) = (COMMAND_WRITE, [])"
    by (simp add: write_line_def classify_def)
  have "butlast (write_line name v) = ascii (CHR ''!'') # name @ ascii (CHR ''='') # decimal_digits v"
    by (simp add: write_line_def butlast_append)
  then show "argument (write_line name v) = name @ ascii (CHR ''='') # decimal_digits v"
    using assms digits_no_nul [of v] by (auto simp: argument_def name_ok_def)
qed

lemma read_line_parts:
  assumes "0 \<notin> set name"
  shows "classify (read_line name) = (COMMAND_READ, [])" "argument (read_line name) = name"
  using assms by (auto simp: read_line_def classify_def argument_def butlast_append)

text \<open>What the device is asked to do: set the address and, if this succeeds, transfer one register.\<close>

definition device_write :: "'e system \<Rightarrow> i32 \<Rightarrow> u64 \<Rightarrow> u16 \<Rightarrow> 'e \<Rightarrow> 'e" where
  "device_write m fd a v e = (case sys_ioctl m fd SERIAL_MODBUSCHAR_IOCSETADDR a e of (r, e) \<Rightarrow>
     if 0 \<le>s r then snd (sys_write m fd (u16_bytes v) e) else e)"

definition device_read :: "'e system \<Rightarrow> i32 \<Rightarrow> u64 \<Rightarrow> 'e \<Rightarrow> 'e" where
  "device_read m fd a e = (case sys_ioctl m fd SERIAL_MODBUSCHAR_IOCSETADDR a e of (r, e) \<Rightarrow>
     if 0 \<le>s r then snd (snd (sys_read m fd 2 e)) else e)"

text \<open>A change of the state that leaves the mapping alone.\<close>

definition same_mapping :: "'e daemon \<Rightarrow> 'e daemon \<Rightarrow> bool" where
  "same_mapping d d' \<longleftrightarrow> d_table d' = d_table d \<and> d_items d' = d_items d \<and> d_fd d' = d_fd d"

lemma same_mapping_keeps:
  assumes "same_mapping d d'"
  shows "register_of d' = register_of d" "mapping_ok d' = mapping_ok d" "d_fd d' = d_fd d"
  using assms by (simp_all add: same_mapping_def register_of_def mapping_ok_def item_addr_def fun_eq_iff)

text \<open>The effect of a write on the device and on the output.\<close>

definition wrote :: "'e system \<Rightarrow> 'e daemon \<Rightarrow> cstring \<Rightarrow> u32 \<Rightarrow> u64 \<Rightarrow> 'e daemon \<Rightarrow> bool" where
  "wrote m d name v a d' \<longleftrightarrow> d_env d' = device_write m (d_fd d) a (ucast v) (d_env d) \<and>
     (case sys_ioctl m (d_fd d) SERIAL_MODBUSCHAR_IOCSETADDR a (d_env d) of (r, e) \<Rightarrow> 0 \<le>s r \<longrightarrow>
       (case sys_write m (d_fd d) (u16_bytes (ucast v)) e of (r', _) \<Rightarrow>
         d_out d' = d_out d @ [Writing v name a, Address_Set a, if r' <s 0 then Write_Failed r' else Write_Done r']))"

text \<open>The write command on its argument.\<close>

lemma handle_write_spec:
  assumes "mapping_ok d" "d_buffer d = Some (p, mem)" "c_string (drop 1 mem) = Some str"
    "sscanf_pair (ascii (CHR ''='')) str = Some matches"
  shows "returns (handle_write_command m d) (\<lambda>d'. same_mapping d d' \<and> (case matches of
      (Some name, Some v) \<Rightarrow> (case register_of d name of
          Some a \<Rightarrow> if v > 65535 then d' = say Invalid_Value d else wrote m d name v a d'
        | None \<Rightarrow> d' = say (if v > 65535 then Invalid_Value else Not_Found name) d)
    | _ \<Rightarrow> d' = say Invalid_Format d))"
proof (cases "\<exists>name v. matches = (Some name, Some v)")
  case False
  then have "handle_write_command m d = Some (say Invalid_Format d)"
    using assms(2-4) by (cases matches; cases "fst matches"; cases "snd matches") (auto simp: handle_write_command_def)
  then show ?thesis using False by (auto simp: same_mapping_def split: option.splits)
next
  case True
  then obtain name v where v: "matches = (Some name, Some v)" by auto
  obtain t q where t: "d_table d = Some t" "ht_get t name = Some q"
    "register_of d name = None \<Longrightarrow> q = 0" "\<And>a. register_of d name = Some a \<Longrightarrow> q \<noteq> 0 \<and> item_addr d q = Some a"
    using mapping_lookup [OF assms(1), of name] by metis
  have item: "item_addr (say msg d) = item_addr d" for msg by (simp add: item_addr_def fun_eq_iff)
  have signs: "r <s 0 \<longleftrightarrow> \<not> 0 \<le>s r" for r :: i32 by (simp add: word_sless_alt word_sle_eq not_le)
  show ?thesis
  proof (cases "register_of d name")
    case None
    then show ?thesis
      using assms(2-4) v t by (simp add: handle_write_command_def same_mapping_def)
  next
    case (Some a)
    then have q: "q \<noteq> 0" "item_addr d q = Some a" using t(4) by auto
    show ?thesis
      using assms(2-4) v t(1,2) q Some
      by (simp add: handle_write_command_def same_mapping_def set_modbus_address_def write_to_modbus_def device_write_def
          wrote_def signs split: prod.split)
  qed
qed

text \<open>The read command on its argument.\<close>

lemma handle_read_spec:
  assumes "mapping_ok d" "d_buffer d = Some (p, mem)" "c_string (drop 1 mem) = Some name"
    and "\<And>e. length (fst (snd (sys_read m (d_fd d) 2 e))) \<le> 2"
  shows "returns (handle_read_command m d) (\<lambda>d'. same_mapping d d' \<and>
    (if length name > 30 then d' = say Name_Too_Long d
     else case register_of d name of
       None \<Rightarrow> d' = say (Not_Found name) d
     | Some a \<Rightarrow> d_env d' = device_read m (d_fd d) a (d_env d) \<and>
         (case sys_ioctl m (d_fd d) SERIAL_MODBUSCHAR_IOCSETADDR a (d_env d) of (r, e) \<Rightarrow> 0 \<le>s r \<longrightarrow>
           (case sys_read m (d_fd d) 2 e of (r, bytes, _) \<Rightarrow>
             d_out d' = d_out d @ [Reading name a, Address_Set a, if r <s 0 then Read_Failed r else Read_Done r,
               Value_Is name (bytes_u16 (bytes @ drop (length bytes) [0, 0]))]))))"
proof (cases "length name > 30")
  case True
  then show ?thesis
    using assms(2,3) by (simp add: handle_read_command_def MAX_NAME_LENGTH_def same_mapping_def)
next
  case False
  obtain t q where t: "d_table d = Some t" "ht_get t name = Some q"
    "register_of d name = None \<Longrightarrow> q = 0" "\<And>a. register_of d name = Some a \<Longrightarrow> q \<noteq> 0 \<and> item_addr d q = Some a"
    using mapping_lookup [OF assms(1), of name] by metis
  show ?thesis
  proof (cases "register_of d name")
    case None
    then show ?thesis
      using assms(2,3) False t by (simp add: handle_read_command_def MAX_NAME_LENGTH_def same_mapping_def)
  next
    case (Some a)
    then have q: "q \<noteq> 0" "item_addr d q = Some a" using t(4) by auto
    obtain r e where ioctl: "sys_ioctl m (d_fd d) SERIAL_MODBUSCHAR_IOCSETADDR a (d_env d) = (r, e)" by fastforce
    obtain r' bytes e' where read: "sys_read m (d_fd d) 2 e = (r', bytes, e')" by (metis prod_cases3)
    have len: "length bytes \<le> 2" using assms(4) [of e] read by simp
    have signs: "r <s 0 \<longleftrightarrow> \<not> 0 \<le>s r" by (simp add: word_sless_alt word_sle_eq not_le)
    have zero: "u16_bytes 0 = [0, 0]" by (simp add: u16_bytes_def)
    show ?thesis
      using assms(2,3) False t(1,2) q Some ioctl read len signs zero
      by (simp add: handle_read_command_def MAX_NAME_LENGTH_def same_mapping_def set_modbus_address_def read_from_modbus_def
          device_read_def)
  qed
qed

text \<open>What an input asks of the device, given the mapping, and what this does to the environment.\<close>

datatype device_op = No_Access | Read_Register u64 | Write_Register u64 u16

fun perform :: "'e system \<Rightarrow> i32 \<Rightarrow> device_op \<Rightarrow> 'e \<Rightarrow> 'e" where
  "perform m fd No_Access e = e"
| "perform m fd (Read_Register a) e = device_read m fd a e"
| "perform m fd (Write_Register a v) e = device_write m fd a v e"

definition write_op :: "(cstring \<Rightarrow> u64 option) \<Rightarrow> cstring option \<times> u32 option \<Rightarrow> device_op" where
  "write_op regs matches = (case matches of
     (Some name, Some v) \<Rightarrow> (case regs name of
         Some a \<Rightarrow> if v > 65535 then No_Access else Write_Register a (ucast v)
       | None \<Rightarrow> No_Access)
   | _ \<Rightarrow> No_Access)"

definition read_op :: "(cstring \<Rightarrow> u64 option) \<Rightarrow> cstring \<Rightarrow> device_op" where
  "read_op regs name = (if length name > 30 then No_Access
     else case regs name of Some a \<Rightarrow> Read_Register a | None \<Rightarrow> No_Access)"

definition intended :: "(cstring \<Rightarrow> u64 option) \<Rightarrow> u8 list \<Rightarrow> device_op" where
  "intended regs bytes = (case fst (classify bytes) of
     COMMAND_INVALID \<Rightarrow> No_Access
   | COMMAND_WRITE \<Rightarrow> write_op regs (the (sscanf_pair (ascii (CHR ''='')) (argument bytes)))
   | COMMAND_READ \<Rightarrow> read_op regs (argument bytes))"

lemma handle_write_op:
  assumes "mapping_ok d" "d_buffer d = Some (p, mem)" "c_string (drop 1 mem) = Some str"
    "sscanf_pair (ascii (CHR ''='')) str = Some matches"
  shows "returns (handle_write_command m d) (\<lambda>d'. same_mapping d d' \<and>
    d_env d' = perform m (d_fd d) (write_op (register_of d) matches) (d_env d))"
proof (rule returns_mono [OF handle_write_spec [OF assms]], elim conjE, intro conjI)
  fix d'
  assume r: "case matches of
      (Some name, Some v) \<Rightarrow> (case register_of d name of
          Some a \<Rightarrow> if v > 65535 then d' = say Invalid_Value d else wrote m d name v a d'
        | None \<Rightarrow> d' = say (if v > 65535 then Invalid_Value else Not_Found name) d)
    | _ \<Rightarrow> d' = say Invalid_Format d"
  show "d_env d' = perform m (d_fd d) (write_op (register_of d) matches) (d_env d)"
  proof (cases "\<exists>name v a. matches = (Some name, Some v) \<and> register_of d name = Some a \<and> \<not> v > 65535")
    case True
    then show ?thesis using r by (auto simp: wrote_def write_op_def)
  next
    case False
    then have "d_env d' = d_env d" "write_op (register_of d) matches = No_Access"
      using r unfolding write_op_def by (auto split: prod.splits option.splits if_splits)
    then show ?thesis by simp
  qed
qed

lemma handle_read_op:
  assumes "mapping_ok d" "d_buffer d = Some (p, mem)" "c_string (drop 1 mem) = Some name"
    and "\<And>e. length (fst (snd (sys_read m (d_fd d) 2 e))) \<le> 2"
  shows "returns (handle_read_command m d) (\<lambda>d'. same_mapping d d' \<and>
    d_env d' = perform m (d_fd d) (read_op (register_of d) name) (d_env d))"
  by (rule returns_mono [OF handle_read_spec [OF assms]], elim conjE, intro conjI)
    (auto simp: read_op_def split: if_split_asm option.split_asm)

text \<open>What the environment of a pass provides: a block for the buffer and the bytes \<open>bytes\<close> from the terminal.\<close>

definition typed :: "'e system \<Rightarrow> 'e \<Rightarrow> u8 list \<Rightarrow> address \<Rightarrow> 'e \<Rightarrow> bool" where
  "typed m e bytes p e1 \<longleftrightarrow> length bytes \<le> 51 \<and> (\<exists>e0. malloc (lib m) 52 e = (Some p, e0) \<and>
     length (contents m p 52 e0) = 52 \<and> sys_read m 0 51 e0 = (of_nat (length bytes), bytes, e1))"

lemma main_pass_typed:
  assumes "typed m (d_env d) bytes p e1"
  obtains rest where "main_pass m d = do {
      d' \<leftarrow> (case classify bytes of (cmd, out) \<Rightarrow>
        let d' = d\<lparr>d_env := e1, d_buffer := Some (p, if cmd = COMMAND_INVALID then bytes @ rest else butlast bytes @ 0 # rest),
                   d_out := d_out d @ out\<rparr> in
        (case cmd of COMMAND_INVALID \<Rightarrow> Some d' | COMMAND_WRITE \<Rightarrow> handle_write_command m d'
         | COMMAND_READ \<Rightarrow> handle_read_command m d'));
      Some (Continue, d'\<lparr>d_env := free (lib m) p (d_env d')\<rparr>) }"
proof -
  obtain e0 where e0: "malloc (lib m) 52 (d_env d) = (Some p, e0)" "length (contents m p 52 e0) = 52"
    "sys_read m 0 51 e0 = (of_nat (length bytes), bytes, e1)" and len: "length bytes \<le> 51"
    using assms by (auto simp: typed_def)
  have "unat (of_nat (length bytes) :: i32) = length bytes" using len by (intro unat_of_nat_less) simp
  then have sign: "\<not> (of_nat (length bytes) :: i32) <s 0" using len by (intro int_index) simp
  let ?rest = "drop (length bytes) (contents m p 52 e0)"
  obtain cmd out where cmd: "classify bytes = (cmd, out)" by fastforce
  show thesis
    by (rule that [of ?rest])
      (use e0 len sign validate_spec [OF len, of ?rest] cmd in
        \<open>simp add: main_pass_def BUFFER_SIZE_def MAX_CMD_LENGTH_def MAX_NAME_LENGTH_def MAX_VALUE_LENGTH_def
          buf_splice_def Let_def split: command_type_t.split\<close>)
qed

lemma argument_buffer:
  assumes "classify bytes = (cmd, out)" "cmd \<noteq> COMMAND_INVALID"
  shows "c_string (drop 1 (butlast bytes @ 0 # rest)) = Some (argument bytes)"
proof -
  have "bytes \<noteq> []" "last bytes = 10" "hd bytes \<noteq> 10" using assms by (auto simp: classify_def split: if_splits)
  then obtain c cs where "butlast bytes = c # cs"
    by (metis append_butlast_last_id append_self_conv2 list.sel(1) neq_Nil_conv)
  moreover have "takeWhile (\<lambda>c. c \<noteq> 0) (cs @ 0 # rest) = takeWhile (\<lambda>c. c \<noteq> 0) cs"
    by (induction cs) auto
  ultimately show ?thesis by (simp add: c_string_def argument_def)
qed

text \<open>
  One pass on any input: the mapping stays, and the device is asked for what the input means.
\<close>

lemma main_pass_spec:
  assumes d: "mapping_ok d" and input: "typed m (d_env d) bytes p e1"
    and defined: "fst (classify bytes) = COMMAND_WRITE \<longrightarrow> sscanf_pair (ascii (CHR ''='')) (argument bytes) \<noteq> None"
    and device: "\<And>e. length (fst (snd (sys_read m (d_fd d) 2 e))) \<le> 2"
  shows "returns (main_pass m d) (\<lambda>(c, d'). c = Continue \<and> same_mapping d d' \<and>
    d_env d' = free (lib m) p (perform m (d_fd d) (intended (register_of d) bytes) e1))"
proof -
  obtain rest where pass: "main_pass m d = do {
      d' \<leftarrow> (case classify bytes of (cmd, out) \<Rightarrow>
        let d' = d\<lparr>d_env := e1, d_buffer := Some (p, if cmd = COMMAND_INVALID then bytes @ rest else butlast bytes @ 0 # rest),
                   d_out := d_out d @ out\<rparr> in
        (case cmd of COMMAND_INVALID \<Rightarrow> Some d' | COMMAND_WRITE \<Rightarrow> handle_write_command m d'
         | COMMAND_READ \<Rightarrow> handle_read_command m d'));
      Some (Continue, d'\<lparr>d_env := free (lib m) p (d_env d')\<rparr>) }"
    by (rule main_pass_typed [OF input])
  obtain cmd out where cmd: "classify bytes = (cmd, out)" by fastforce
  let ?mem = "butlast bytes @ 0 # rest"
  let ?d = "d\<lparr>d_env := e1, d_buffer := Some (p, ?mem), d_out := d_out d @ out\<rparr>"
  have same: "same_mapping d ?d" by (simp add: same_mapping_def)
  have ok: "mapping_ok ?d" using same_mapping_keeps(2) [OF same] d by simp
  note reg = same_mapping_keeps(1) [OF same]
  have finish: "returns (do { d' \<leftarrow> step; Some (Continue, d'\<lparr>d_env := free (lib m) p (d_env d')\<rparr>) }) (\<lambda>(c, d').
      c = Continue \<and> same_mapping d d' \<and> d_env d' = free (lib m) p (perform m (d_fd d) op e1))"
    if "returns step (\<lambda>d'. same_mapping ?d d' \<and> d_env d' = perform m (d_fd ?d) op (d_env ?d))" for step op
    using that by (auto simp: same_mapping_def elim!: returns_mono)
  show ?thesis
  proof (cases cmd)
    case COMMAND_INVALID
    then show ?thesis using pass cmd by (simp add: same_mapping_def intended_def)
  next
    case COMMAND_READ
    have str: "c_string (drop 1 ?mem) = Some (argument bytes)"
      using argument_buffer [OF cmd] COMMAND_READ by simp
    have "returns (handle_read_command m ?d) (\<lambda>d'. same_mapping ?d d' \<and>
        d_env d' = perform m (d_fd ?d) (read_op (register_of ?d) (argument bytes)) (d_env ?d))"
      by (rule handle_read_op [OF ok _ str]) (use device in simp_all)
    from finish [OF this] show ?thesis using pass cmd COMMAND_READ reg by (simp add: intended_def)
  next
    case COMMAND_WRITE
    have str: "c_string (drop 1 ?mem) = Some (argument bytes)"
      using argument_buffer [OF cmd] COMMAND_WRITE by simp
    obtain matches where matches: "sscanf_pair (ascii (CHR ''='')) (argument bytes) = Some matches"
      using defined cmd COMMAND_WRITE by auto
    have "returns (handle_write_command m ?d) (\<lambda>d'. same_mapping ?d d' \<and>
        d_env d' = perform m (d_fd ?d) (write_op (register_of ?d) matches) (d_env ?d))"
      by (rule handle_write_op [OF ok _ str matches]) simp
    from finish [OF this] show ?thesis using pass cmd COMMAND_WRITE reg matches by (simp add: intended_def)
  qed
qed

text \<open>The effect of the two kinds of lines for a name of the mapping.\<close>

lemma main_pass_write:
  assumes d: "mapping_ok d" and input: "typed m (d_env d) (write_line name v) p e1"
    and name: "name_ok (ascii (CHR ''='')) name" and v: "v \<le> 65535" and a: "register_of d name = Some a"
  shows "returns (main_pass m d) (\<lambda>(c, d'). c = Continue \<and> same_mapping d d' \<and>
    d_env d' = free (lib m) p (device_write m (d_fd d) a (of_nat v) e1) \<and>
    (case sys_ioctl m (d_fd d) SERIAL_MODBUSCHAR_IOCSETADDR a e1 of (r, e) \<Rightarrow> 0 \<le>s r \<longrightarrow>
      (case sys_write m (d_fd d) (u16_bytes (of_nat v)) e of (r', _) \<Rightarrow>
        d_out d' = d_out d @ [Writing (of_nat v) name a, Address_Set a, if r' <s 0 then Write_Failed r' else Write_Done r'])))"
proof -
  obtain rest where pass: "main_pass m d = do {
      d' \<leftarrow> (case classify (write_line name v) of (cmd, out) \<Rightarrow>
        let d' = d\<lparr>d_env := e1, d_buffer := Some (p, if cmd = COMMAND_INVALID then write_line name v @ rest
                     else butlast (write_line name v) @ 0 # rest), d_out := d_out d @ out\<rparr> in
        (case cmd of COMMAND_INVALID \<Rightarrow> Some d' | COMMAND_WRITE \<Rightarrow> handle_write_command m d'
         | COMMAND_READ \<Rightarrow> handle_read_command m d'));
      Some (Continue, d'\<lparr>d_env := free (lib m) p (d_env d')\<rparr>) }"
    by (rule main_pass_typed [OF input])
  let ?mem = "butlast (write_line name v) @ 0 # rest"
  let ?d = "d\<lparr>d_env := e1, d_buffer := Some (p, ?mem), d_out := d_out d @ []\<rparr>"
  note parts = write_line_parts [OF name, of v]
  have same: "same_mapping d ?d" by (simp add: same_mapping_def)
  note keep = same_mapping_keeps [OF same]
  have str: "c_string (drop 1 ?mem) = Some (argument (write_line name v))"
    by (rule argument_buffer [OF parts(1)]) simp
  have matches: "sscanf_pair (ascii (CHR ''='')) (argument (write_line name v)) = Some (Some name, Some (of_nat v))"
    unfolding parts(2) by (rule sscanf_pair_decimal [OF name]) (use v in simp)
  have u: "unat (of_nat v :: u32) = v" using v by (intro unat_of_nat_less) simp
  have "unat (ucast (of_nat v :: u32) :: u16) = v" unfolding unat_ucast u using v by simp
  then have small: "(ucast (of_nat v :: u32) :: u16) = of_nat v" by (simp only: unat_eq_of_nat)
  have le: "\<not> (of_nat v :: u32) > 65535" using v u by (simp add: word_less_nat_alt)
  have "returns (handle_write_command m ?d) (\<lambda>d'. same_mapping d d' \<and> d_env d' = device_write m (d_fd d) a (of_nat v) e1 \<and>
    (case sys_ioctl m (d_fd d) SERIAL_MODBUSCHAR_IOCSETADDR a e1 of (r, e) \<Rightarrow> 0 \<le>s r \<longrightarrow>
      (case sys_write m (d_fd d) (u16_bytes (of_nat v)) e of (r', _) \<Rightarrow>
        d_out d' = d_out d @ [Writing (of_nat v) name a, Address_Set a, if r' <s 0 then Write_Failed r' else Write_Done r'])))"
    by (rule returns_mono [OF handle_write_spec [where d = ?d and p = p and mem = ?mem, OF _ _ str matches]])
      (use d a keep small le same in \<open>simp_all add: same_mapping_def wrote_def\<close>)
  then show ?thesis
    unfolding pass parts(1) by (auto simp: same_mapping_def elim!: returns_mono)
qed

lemma main_pass_read:
  assumes d: "mapping_ok d" and input: "typed m (d_env d) (read_line name) p e1"
    and name: "0 \<notin> set name" "length name \<le> 30" and a: "register_of d name = Some a"
    and ioctl: "sys_ioctl m (d_fd d) SERIAL_MODBUSCHAR_IOCSETADDR a e1 = (r, e2)" "0 \<le>s r"
    and device: "\<And>e. length (fst (snd (sys_read m (d_fd d) 2 e))) \<le> 2"
    and read: "sys_read m (d_fd d) 2 e2 = (r', bytes, e3)"
  shows "returns (main_pass m d) (\<lambda>(c, d'). c = Continue \<and> same_mapping d d' \<and> d_env d' = free (lib m) p e3 \<and>
    d_out d' = d_out d @ [Reading name a, Address_Set a, if r' <s 0 then Read_Failed r' else Read_Done r',
      Value_Is name (bytes_u16 (bytes @ drop (length bytes) [0, 0]))])"
proof -
  obtain rest where pass: "main_pass m d = do {
      d' \<leftarrow> (case classify (read_line name) of (cmd, out) \<Rightarrow>
        let d' = d\<lparr>d_env := e1, d_buffer := Some (p, if cmd = COMMAND_INVALID then read_line name @ rest
                     else butlast (read_line name) @ 0 # rest), d_out := d_out d @ out\<rparr> in
        (case cmd of COMMAND_INVALID \<Rightarrow> Some d' | COMMAND_WRITE \<Rightarrow> handle_write_command m d'
         | COMMAND_READ \<Rightarrow> handle_read_command m d'));
      Some (Continue, d'\<lparr>d_env := free (lib m) p (d_env d')\<rparr>) }"
    by (rule main_pass_typed [OF input])
  let ?mem = "butlast (read_line name) @ 0 # rest"
  let ?d = "d\<lparr>d_env := e1, d_buffer := Some (p, ?mem), d_out := d_out d @ []\<rparr>"
  note parts = read_line_parts [OF name(1)]
  have same: "same_mapping d ?d" by (simp add: same_mapping_def)
  note keep = same_mapping_keeps [OF same]
  have str: "c_string (drop 1 ?mem) = Some name"
    using argument_buffer [OF parts(1), of rest] parts(2) by simp
  have "returns (handle_read_command m ?d) (\<lambda>d'. same_mapping d d' \<and> d_env d' = e3 \<and>
    d_out d' = d_out d @ [Reading name a, Address_Set a, if r' <s 0 then Read_Failed r' else Read_Done r',
      Value_Is name (bytes_u16 (bytes @ drop (length bytes) [0, 0]))])"
    by (rule returns_mono [OF handle_read_spec [where d = ?d and p = p and mem = ?mem, OF _ _ str]])
      (use d a keep same name(2) ioctl read device in \<open>simp_all add: same_mapping_def device_read_def\<close>)
  then show ?thesis
    unfolding pass parts(1) by (auto simp: same_mapping_def elim!: returns_mono)
qed

text \<open>The state between two passes.\<close>

context daemon_host
begin

lemma perform_blocks: "blocks (perform m fd op e) = blocks e"
proof -
  have "blocks (device_read m fd a e0) = blocks e0" for fd a e0
  proof -
    obtain r e1 r' bs e2 where "sys_ioctl m fd SERIAL_MODBUSCHAR_IOCSETADDR a e0 = (r, e1)" "sys_read m fd 2 e1 = (r', bs, e2)"
      by (metis prod_cases3 surj_pair)
    then show ?thesis using ioctl_law [of fd SERIAL_MODBUSCHAR_IOCSETADDR a e0] read_law [of fd 2 e1] by (simp add: device_read_def)
  qed
  moreover have "blocks (device_write m fd a v e0) = blocks e0" for fd a v e0
  proof -
    obtain r e1 r' e2 where "sys_ioctl m fd SERIAL_MODBUSCHAR_IOCSETADDR a e0 = (r, e1)" "sys_write m fd (u16_bytes v) e1 = (r', e2)"
      by (metis surj_pair)
    then show ?thesis using ioctl_law [of fd SERIAL_MODBUSCHAR_IOCSETADDR a e0] write_law [of fd _ e1] by (simp add: device_write_def)
  qed
  ultimately show ?thesis by (cases op) simp_all
qed

lemma main_pass_inv:
  assumes inv: "daemon_inv blocks B d" and input: "typed m (d_env d) bytes p e1"
    and defined: "fst (classify bytes) = COMMAND_WRITE \<longrightarrow> sscanf_pair (ascii (CHR ''='')) (argument bytes) \<noteq> None"
  shows "returns (main_pass m d) (\<lambda>(c, d'). c = Continue \<and> same_mapping d d' \<and> daemon_inv blocks B d' \<and>
    d_env d' = free (lib m) p (perform m (d_fd d) (intended (register_of d) bytes) e1))"
proof -
  have short: "length (fst (snd (sys_read m (d_fd d) 2 e))) \<le> 2" for e
    using read_law [of "d_fd d" 2 e] by (metis prod.collapse)
  obtain e0 where e0: "malloc (lib m) 52 (d_env d) = (Some p, e0)" "sys_read m 0 51 e0 = (of_nat (length bytes), bytes, e1)"
    using input by (auto simp: typed_def)
  have p: "p \<notin> blocks (d_env d)" "blocks e1 = insert p (blocks (d_env d))"
    using malloc_law [OF e0(1)] read_law [OF e0(2)] by (simp_all add: allocated_def)
  have inv': "daemon_inv blocks B d'" if "same_mapping d d'" "blocks (d_env d') = blocks (d_env d)" for d'
    using inv that by (simp add: daemon_inv_def owns_def same_mapping_def mapping_ok_def)
  have "mapping_ok d" using inv by (simp add: daemon_inv_def)
  from main_pass_spec [OF this input defined short] show ?thesis
  proof (rule returns_mono, clarify)
    fix c d'
    assume *: "same_mapping d d'" "d_env d' = free (lib m) p (perform m (d_fd d) (intended (register_of d) bytes) e1)"
    have "blocks (d_env d') = blocks (d_env d)" using p by (simp add: *(2) free_law perform_blocks)
    then show "Continue = Continue \<and> same_mapping d d' \<and> daemon_inv blocks B d' \<and>
        d_env d' = free (lib m) p (perform m (d_fd d) (intended (register_of d) bytes) e1)"
      using inv' * by simp
  qed
qed

text \<open>A signal while the daemon waits for input.\<close>

lemma signal_frees:
  assumes inv: "daemon_inv blocks B d" and p: "malloc (lib m) 52 (d_env d) = (Some p, e)"
    and s: "signal \<in> {SIGINT, SIGTERM}"
  shows "returns (handle_signal m signal (d\<lparr>d_buffer := Some (p, mem), d_env := e\<rparr>)) (\<lambda>(c, d'). c = Exit 0 \<and> blocks (d_env d') = B)"
proof -
  let ?d = "d\<lparr>d_buffer := Some (p, mem), d_env := e\<rparr>"
  have a: "p \<notin> blocks (d_env d)" "blocks e = insert p (blocks (d_env d))"
    using malloc_law [OF p] by (simp_all add: allocated_def)
  have o: "mapping_ok d" "distinct (item_blocks d)" "set (item_blocks d) \<inter> B = {}"
    "owns blocks (B \<union> set (item_blocks d)) (the (d_table d)) (d_env d)"
    using inv by (simp_all add: daemon_inv_def)
  then have notB: "p \<notin> B" "p \<notin> set (item_blocks d)" using a(1) by (auto simp: owns_def)
  have "owns blocks (insert p B \<union> set (item_blocks d)) (the (d_table d)) e"
    using o(4) a unfolding owns_def by blast
  then have "daemon_inv blocks (insert p B) ?d"
    using o notB by (simp add: daemon_inv_def mapping_ok_def)
  from cleanup_frees [OF this] show ?thesis
    using s notB by (auto simp: handle_signal_def terminate_normally_def elim!: returns_mono)
qed

end

text \<open>A name of 30 characters.\<close>

lemma sscanf_pair_overflow:
  assumes "30 \<le> length str" "sep \<notin> set (take 30 str)"
  shows "sscanf_pair sep str = None"
proof -
  have "takeWhile (\<lambda>c. c \<noteq> sep) (take 30 str) = take 30 str"
    using assms(2) by (intro takeWhile_all) auto
  then show ?thesis using assms(1) by (auto simp: sscanf_pair_def MAX_NAME_LENGTH_def Let_def simp del: takeWhile_eq_all_conv)
qed

lemma main_pass_overflow:
  assumes "typed m (d_env d) (ascii (CHR ''!'') # str @ [10]) p e1"
    and "0 \<notin> set str" "30 \<le> length str" "ascii (CHR ''='') \<notin> set (take 30 str)"
  shows "main_pass m d = None"
proof -
  let ?bytes = "ascii (CHR ''!'') # str @ [10]"
  have cmd: "classify ?bytes = (COMMAND_WRITE, [])" by (simp add: classify_def)
  have arg: "argument ?bytes = str" using assms(2) by (auto simp: argument_def butlast_append)
  obtain rest where pass: "main_pass m d = do {
      d' \<leftarrow> (case classify ?bytes of (cmd, out) \<Rightarrow>
        let d' = d\<lparr>d_env := e1, d_buffer := Some (p, if cmd = COMMAND_INVALID then ?bytes @ rest
                     else butlast ?bytes @ 0 # rest), d_out := d_out d @ out\<rparr> in
        (case cmd of COMMAND_INVALID \<Rightarrow> Some d' | COMMAND_WRITE \<Rightarrow> handle_write_command m d'
         | COMMAND_READ \<Rightarrow> handle_read_command m d'));
      Some (Continue, d'\<lparr>d_env := free (lib m) p (d_env d')\<rparr>) }"
    by (rule main_pass_typed [OF assms(1)])
  have str: "c_string (drop 1 (butlast ?bytes @ 0 # rest)) = Some str"
    using argument_buffer [OF cmd, of rest] arg by simp
  have "handle_write_command m (d\<lparr>d_env := e1, d_buffer := Some (p, butlast ?bytes @ 0 # rest), d_out := d_out d @ []\<rparr>) = None"
    using str sscanf_pair_overflow [OF assms(3,4)] by (simp add: handle_write_command_def)
  then show ?thesis unfolding pass cmd by simp
qed

text \<open>The end of the input.\<close>

lemma main_pass_eof:
  assumes "typed m (d_env d) [] p e1"
  shows "\<exists>mem. main_pass m d = Some (Continue, d\<lparr>d_buffer := mem, d_env := free (lib m) p e1\<rparr>)"
proof -
  obtain rest where "main_pass m d = do {
      d' \<leftarrow> (case classify [] of (cmd, out) \<Rightarrow>
        let d' = d\<lparr>d_env := e1, d_buffer := Some (p, if cmd = COMMAND_INVALID then [] @ rest else butlast [] @ 0 # rest),
                   d_out := d_out d @ out\<rparr> in
        (case cmd of COMMAND_INVALID \<Rightarrow> Some d' | COMMAND_WRITE \<Rightarrow> handle_write_command m d'
         | COMMAND_READ \<Rightarrow> handle_read_command m d'));
      Some (Continue, d'\<lparr>d_env := free (lib m) p (d_env d')\<rparr>) }"
    by (rule main_pass_typed [OF assms])
  then have "main_pass m d = Some (Continue, d\<lparr>d_buffer := Some (p, rest), d_env := free (lib m) p e1\<rparr>)"
    by (simp add: classify_def)
  then show ?thesis by blast
qed

text \<open>
  At the end of the input every pass reads nothing, prints nothing and frees its buffer.  \<open>at_eof\<close>
  are the environments in which \<^verbatim>\<open>read\<close> returns 0, now and after any number of such passes.
\<close>

lemma main_loop_eof:
  assumes eof: "\<And>e. at_eof e \<Longrightarrow> \<exists>p e1. typed m e [] p e1 \<and> at_eof (free (lib m) p e1)" and d: "at_eof (d_env d)"
  shows "endless (loop_pass m) d"
    and "passes (loop_pass m) n d = Some (Inl d') \<Longrightarrow> at_eof (d_env d') \<and> d_out d' = d_out d"
proof -
  let ?P = "\<lambda>d'. at_eof (d_env d') \<and> d_out d' = d_out d"
  have pass: "\<exists>d2. loop_pass m d1 = Some (Inl d2) \<and> ?P d2" if P: "?P d1" for d1
  proof -
    obtain p e1 where e1: "typed m (d_env d1) [] p e1" "at_eof (free (lib m) p e1)" using eof P by blast
    obtain mem where "main_pass m d1 = Some (Continue, d1\<lparr>d_buffer := mem, d_env := free (lib m) p e1\<rparr>)"
      using main_pass_eof [OF e1(1)] by blast
    then show ?thesis using P e1(2) by (simp add: loop_pass_def)
  qed
  show "endless (loop_pass m) d" by (rule endless_invariant(1) [of ?P, OF _ pass]) (use d in simp_all)
  show "passes (loop_pass m) n d = Some (Inl d') \<Longrightarrow> ?P d'"
    by (rule endless_invariant(2) [of ?P, OF _ pass]) (use d in simp_all)
qed

end
