(* ===== verification/Daemon_Run.thy ===== *)
theory Daemon_Run
  imports Daemon_Commands
begin

text \<open>
  The running daemon as a state machine: passes of the command loop and signals.  Every reachable
  state keeps the mapping and owns its memory, and every end frees it.
\<close>

text \<open>The daemon between two passes, or after its end with the exit code.\<close>

datatype 'e process = Running "'e daemon" | Ended nat "'e daemon"

text \<open>
  The steps.  A signal is delivered while the daemon waits in \<^verbatim>\<open>read\<close> for a command: the buffer of
  the pass is allocated and nothing else has happened.
\<close>

inductive daemon_step :: "'e system \<Rightarrow> 'e process \<Rightarrow> 'e process \<Rightarrow> bool" for m where
  pass: "main_pass m d = Some (Continue, d') \<Longrightarrow> daemon_step m (Running d) (Running d')"
| pass_end: "main_pass m d = Some (Exit k, d') \<Longrightarrow> daemon_step m (Running d) (Ended k d')"
| signal: "malloc (lib m) (of_nat BUFFER_SIZE) (d_env d) = (Some p, e) \<Longrightarrow>
    handle_signal m s (d\<lparr>d_buffer := Some (p, contents m p BUFFER_SIZE e), d_env := e\<rparr>) = Some (Exit k, d') \<Longrightarrow>
    daemon_step m (Running d) (Ended k d')"

inductive_cases running_step: "daemon_step m (Running d) P"
inductive_simps ended_step [simp]: "daemon_step m (Ended k d) P"

text \<open>The loop of the code is a sequence of these steps.\<close>

lemma main_loop_steps:
  assumes "main_loop m d = Some (c, d')"
  shows "\<exists>k. c = Exit k \<and> (daemon_step m)\<^sup>*\<^sup>* (Running d) (Ended k d')"
proof -
  obtain n where "passes (loop_pass m) n d = Some (Inr (c, d'))"
    using assms by (auto simp: main_loop_def loop_returns_iff)
  then show ?thesis
  proof (induction n arbitrary: d)
    case (Suc n)
    obtain c1 d1 where pass: "main_pass m d = Some (c1, d1)"
      and rest: "(if c1 = Continue then passes (loop_pass m) n d1 else Some (Inr (c1, d1))) = Some (Inr (c, d'))"
      using Suc.prems by (auto simp: loop_pass_def [of m d] split: bind_splits if_split_asm)
    show ?case
    proof (cases c1)
      case Continue
      then show ?thesis
        using Suc.IH [of d1] pass rest by (auto intro: converse_rtranclp_into_rtranclp daemon_step.pass)
    next
      case (Exit k)
      then show ?thesis using pass rest by (auto intro: daemon_step.pass_end)
    qed
  qed simp
qed

section \<open>Invariant\<close>

lemma handle_write_partial:
  assumes "mapping_ok d" "handle_write_command m d = Some d'"
  shows "same_mapping d d' \<and> (\<exists>op. d_env d' = perform m (d_fd d) op (d_env d))"
proof -
  obtain p mem str matches where "d_buffer d = Some (p, mem)" "c_string (drop 1 mem) = Some str"
    "sscanf_pair (ascii (CHR ''='')) str = Some matches"
    using assms(2) by (auto simp: handle_write_command_def split: bind_splits)
  from handle_write_op [OF assms(1) this, of m] show ?thesis using assms(2) by auto
qed

lemma handle_read_partial:
  assumes "mapping_ok d" "handle_read_command m d = Some d'"
    and "\<And>e. length (fst (snd (sys_read m (d_fd d) 2 e))) \<le> 2"
  shows "same_mapping d d' \<and> (\<exists>op. d_env d' = perform m (d_fd d) op (d_env d))"
proof -
  obtain p mem name where "d_buffer d = Some (p, mem)" "c_string (drop 1 mem) = Some name"
    using assms(2) by (auto simp: handle_read_command_def split: bind_splits)
  from handle_read_op [OF assms(1) this assms(3)] show ?thesis using assms(2) by auto
qed

text \<open>What holds of a process that shares the heap with the blocks \<open>B\<close>, for the mapping of \<open>d0\<close>.\<close>

definition process_ok :: "('e \<Rightarrow> address set) \<Rightarrow> address set \<Rightarrow> 'e daemon \<Rightarrow> 'e process \<Rightarrow> bool" where
  "process_ok blocks B d0 P = (case P of
     Running d \<Rightarrow> same_mapping d0 d \<and> daemon_inv blocks B d
   | Ended k d \<Rightarrow> blocks (d_env d) = B)"

context daemon_host
begin

lemma main_pass_keeps:
  assumes inv: "daemon_inv blocks B d" and pass: "main_pass m d = Some (c, d')"
  shows "if c = Continue then same_mapping d d' \<and> daemon_inv blocks B d' else c = Exit 1 \<and> blocks (d_env d') = B"
proof -
  obtain r e0 where m0: "malloc (lib m) (of_nat BUFFER_SIZE) (d_env d) = (r, e0)" by fastforce
  note a = malloc_law [OF m0]
  show ?thesis
  proof (cases r)
    case None
    have "daemon_inv blocks B (d\<lparr>d_buffer := None, d_env := e0\<rparr>)"
      using inv a None by (simp add: daemon_inv_def owns_def allocated_def mapping_ok_def)
    from terminate_frees [OF this] show ?thesis
      using pass m0 None by (auto simp: main_pass_def elim!: returnsE)
  next
    case (Some p)
    obtain n bytes e1 where rd: "sys_read m 0 MAX_CMD_LENGTH e0 = (n, bytes, e1)" by (metis prod_cases3)
    have p: "p \<notin> blocks (d_env d)" "blocks e1 = insert p (blocks (d_env d))"
      using a Some read_law [OF rd] by (simp_all add: allocated_def)
    obtain d2 where d': "c = Continue" "d' = d2\<lparr>d_env := free (lib m) p (d_env d2)\<rparr>"
      and step: "(\<exists>mem. d2 = d\<lparr>d_env := e1, d_buffer := Some (p, mem)\<rparr>) \<or>
        (\<exists>cmd mem out. (let d1 = d\<lparr>d_env := e1, d_buffer := Some (p, mem), d_out := d_out d @ out\<rparr> in
          case cmd of COMMAND_INVALID \<Rightarrow> Some d1 | COMMAND_WRITE \<Rightarrow> handle_write_command m d1
           | COMMAND_READ \<Rightarrow> handle_read_command m d1) = Some d2)"
    proof -
      let ?mem = "bytes @ drop (length bytes) (contents m p BUFFER_SIZE e0)"
      have "length bytes \<le> length (contents m p BUFFER_SIZE e0)"
        using pass m0 Some rd by (auto simp: main_pass_def Let_def split: bind_splits)
      then have "main_pass m d = do {
          let d = d\<lparr>d_buffer := Some (p, ?mem), d_env := e1\<rparr>;
          d \<leftarrow> (if n <s 0 then Some d
            else do {
              (cmd, mem, out) \<leftarrow> validate_and_prepare_input ?mem n;
              let d = d\<lparr>d_buffer := Some (p, mem), d_out := d_out d @ out\<rparr>;
              case cmd of COMMAND_INVALID \<Rightarrow> Some d | COMMAND_WRITE \<Rightarrow> handle_write_command m d
               | COMMAND_READ \<Rightarrow> handle_read_command m d });
          Some (Continue, d\<lparr>d_env := free (lib m) p (d_env d)\<rparr>) }"
        using m0 Some rd by (simp add: main_pass_def buf_splice_def)
      then obtain d2 where d2: "c = Continue" "d' = d2\<lparr>d_env := free (lib m) p (d_env d2)\<rparr>"
        and run: "(let d = d\<lparr>d_buffer := Some (p, ?mem), d_env := e1\<rparr> in if n <s 0 then Some d
            else do {
              (cmd, mem, out) \<leftarrow> validate_and_prepare_input ?mem n;
              let d = d\<lparr>d_buffer := Some (p, mem), d_out := d_out d @ out\<rparr>;
              case cmd of COMMAND_INVALID \<Rightarrow> Some d | COMMAND_WRITE \<Rightarrow> handle_write_command m d
               | COMMAND_READ \<Rightarrow> handle_read_command m d }) = Some d2"
        using pass by (auto simp: Let_def split: bind_split_asm)
      have flip: "d\<lparr>d_buffer := b, d_env := e1\<rparr> = d\<lparr>d_env := e1, d_buffer := b\<rparr>" for b by simp
      show thesis
      proof (cases "n <s 0")
        case True
        then show thesis using that [OF d2] run flip by (simp add: Let_def) blast
      next
        case False
        then obtain cmd mem out where v: "validate_and_prepare_input ?mem n = Some (cmd, mem, out)"
          using run by (auto simp: Let_def split: bind_splits)
        have "(let d1 = d\<lparr>d_env := e1, d_buffer := Some (p, mem), d_out := d_out d @ out\<rparr> in
          case cmd of COMMAND_INVALID \<Rightarrow> Some d1 | COMMAND_WRITE \<Rightarrow> handle_write_command m d1
           | COMMAND_READ \<Rightarrow> handle_read_command m d1) = Some d2"
          using run False v by (cases cmd) (simp_all add: Let_def)
        then show thesis using that [OF d2] by blast
      qed
    qed
    have keeps: "same_mapping d d2 \<and> blocks (d_env d2) = blocks e1"
      if "d1 = d\<lparr>d_env := e1, d_buffer := b, d_out := out\<rparr>" "same_mapping d1 d2 \<and> (\<exists>op. d_env d2 = perform m (d_fd d1) op (d_env d1))" for d1 b out
      using that perform_blocks by (auto simp: same_mapping_def)
    have ok: "mapping_ok (d\<lparr>d_env := e1, d_buffer := b, d_out := out\<rparr>)" for b out
      using inv by (simp add: daemon_inv_def mapping_ok_def)
    have short: "length (fst (snd (sys_read m fd 2 e))) \<le> 2" for fd e
      using read_law [of fd 2 e] by (metis prod.collapse)
    have d2: "same_mapping d d2 \<and> blocks (d_env d2) = blocks e1"
    proof (cases "\<exists>mem. d2 = d\<lparr>d_env := e1, d_buffer := Some (p, mem)\<rparr>")
      case True
      then show ?thesis by (auto simp: same_mapping_def)
    next
      case False
      then obtain cmd mem out where run: "(let d1 = d\<lparr>d_env := e1, d_buffer := Some (p, mem), d_out := d_out d @ out\<rparr> in
          case cmd of COMMAND_INVALID \<Rightarrow> Some d1 | COMMAND_WRITE \<Rightarrow> handle_write_command m d1
           | COMMAND_READ \<Rightarrow> handle_read_command m d1) = Some d2"
        using step by blast
      let ?d = "d\<lparr>d_env := e1, d_buffer := Some (p, mem), d_out := d_out d @ out\<rparr>"
      have "same_mapping ?d d2 \<and> (\<exists>op. d_env d2 = perform m (d_fd ?d) op (d_env ?d))"
      proof (cases cmd)
        case COMMAND_INVALID
        then have "d2 = ?d" using run by (simp add: Let_def)
        then show ?thesis by (auto simp: same_mapping_def intro: exI [of _ No_Access])
      next
        case COMMAND_READ
        then show ?thesis using run handle_read_partial [OF ok _ short] by (simp add: Let_def)
      next
        case COMMAND_WRITE
        then show ?thesis using run handle_write_partial [OF ok] by (simp add: Let_def)
      qed
      from keeps [OF refl this] show ?thesis .
    qed
    then have "blocks (d_env d') = blocks (d_env d)" using p by (simp add: d'(2) free_law)
    moreover have "same_mapping d d'" using d2 by (simp add: d'(2) same_mapping_def)
    ultimately show ?thesis
      using inv d'(1) by (simp add: daemon_inv_def owns_def same_mapping_def mapping_ok_def)
  qed
qed

lemma step_keeps:
  assumes "daemon_step m P Q" "process_ok blocks B d0 P"
  shows "process_ok blocks B d0 Q"
  using assms
proof (induction rule: daemon_step.induct)
  case (pass d d')
  then show ?case
    using main_pass_keeps [of B d Continue d'] by (auto simp: process_ok_def same_mapping_def)
next
  case (pass_end d k d')
  then show ?case
    using main_pass_keeps [of B d "Exit k" d'] by (simp add: process_ok_def)
next
  case (signal d p e s k d')
  have "s \<in> {SIGINT, SIGTERM}" using signal(2) by (auto simp: handle_signal_def split: if_splits)
  from signal_frees [OF _ _ this, of B d p e "contents m p BUFFER_SIZE e"] signal show ?case
    by (simp add: process_ok_def BUFFER_SIZE_def MAX_CMD_LENGTH_def MAX_NAME_LENGTH_def MAX_VALUE_LENGTH_def)
qed

lemma run_keeps:
  assumes "(daemon_step m)\<^sup>*\<^sup>* P Q" "process_ok blocks B d0 P"
  shows "process_ok blocks B d0 Q"
  using assms by (induction rule: rtranclp_induct) (auto intro: step_keeps)

text \<open>From the start of the program to its end.\<close>

lemma main_frees:
  assumes "main m argv1 e = Some (c, d')"
  shows "\<exists>k. c = Exit k \<and> blocks (d_env d') = blocks e"
proof (cases argv1)
  case None
  then show ?thesis using assms by (auto simp: main_def say_def)
next
  case (Some name)
  obtain fd e1 where o: "sys_open m e = (fd, e1)" by fastforce
  note open_file = open_law [OF o]
  let ?d = "\<lparr>d_buffer = None, d_table = None, d_items = [], d_fd = fd, d_env = e1, d_out = [Hello]\<rparr>"
  show ?thesis
  proof (cases "fd <s 0")
    case True
    then have "c = Exit 1" "d_env d' = e1"
      using assms o Some by (auto simp: main_def say_def)
    then show ?thesis using open_file by simp
  next
    case False
    obtain c1 d1 where read: "read_map_file m name ?d = Some (c1, d1)"
      and rest: "(if c1 = Continue then main_loop m d1 else Some (c1, d1)) = Some (c, d')"
      using assms o False Some by (auto simp: main_def say_def split: bind_splits prod.splits)
    have spec: "if c1 = Continue then daemon_inv blocks (blocks e) d1 else c1 = Exit 1 \<and> blocks (d_env d1) = blocks e"
      using read_map_file_spec [of ?d "blocks e" name] read open_file by (auto split: if_split_asm)
    show ?thesis
    proof (cases "c1 = Continue")
      case True
      then have inv: "daemon_inv blocks (blocks e) d1" using spec by simp
      from rest True have "main_loop m d1 = Some (c, d')" by simp
      from main_loop_steps [OF this] obtain k where k: "c = Exit k" "(daemon_step m)\<^sup>*\<^sup>* (Running d1) (Ended k d')"
        by blast
      have "process_ok blocks (blocks e) d1 (Running d1)" using inv by (simp add: process_ok_def same_mapping_def)
      from run_keeps [OF k(2) this] show ?thesis using k(1) by (simp add: process_ok_def)
    next
      case False
      then show ?thesis using spec rest by auto
    qed
  qed
qed

end

end
