(* ===== verification/Daemon_Properties.thy ===== *)
theory Daemon_Properties
  imports Daemon_Run
begin

text \<open>
  A concrete host on which the laws of \<open>daemon_host\<close> hold, and the properties of the daemon, each
  with an evaluation on that host.
\<close>

section \<open>A host\<close>

text \<open>
  The heap is the first-fit heap of at most 12 blocks.  The device has registers; its ioctl accepts
  the addresses that the driver accepts.
\<close>

record host =
  heap :: "address list"
  left_lines :: "u8 list list"
  terminal :: "u8 list list"
  place :: u64
  device_regs :: "u64 \<Rightarrow> u16"

definition host_alloc :: "host \<Rightarrow> address option \<times> host" where
  "host_alloc e = (case first_fit (heap e) of (r, live) \<Rightarrow> (r, e\<lparr>heap := live\<rparr>))"

definition host_libc :: "host libc" where
  "host_libc = \<lparr>malloc = \<lambda>n. host_alloc, calloc = \<lambda>n sz. host_alloc, strdup = \<lambda>str. host_alloc,
     free = \<lambda>p e. e\<lparr>heap := removeAll p (heap e)\<rparr>\<rparr>"

definition host_getline :: "address option \<Rightarrow> host \<Rightarrow> u8 list option \<times> address option \<times> host" where
  "host_getline p e = (case left_lines e of
     [] \<Rightarrow> (None, p, e)
   | line # lines \<Rightarrow> (case p of
       Some q \<Rightarrow> (Some line, Some q, e\<lparr>left_lines := lines\<rparr>)
     | None \<Rightarrow> (case host_alloc e of (q, e) \<Rightarrow> (Some line, q, e\<lparr>left_lines := lines\<rparr>))))"

definition host_read :: "i32 \<Rightarrow> nat \<Rightarrow> host \<Rightarrow> i32 \<times> u8 list \<times> host" where
  "host_read fd n e = (if fd = 0
     then (case terminal e of
         [] \<Rightarrow> (0, [], e)
       | line # lines \<Rightarrow> (of_nat (length (take n line)), take n line, e\<lparr>terminal := lines\<rparr>))
     else (of_nat n, take n (u16_bytes (device_regs e (place e))), e))"

definition host_system :: "(cstring \<Rightarrow> u8 list list) \<Rightarrow> host system" where
  "host_system files = \<lparr>lib = host_libc, contents = \<lambda>p n e. replicate n 0,
     fopen = \<lambda>name e. (True, e\<lparr>left_lines := files name\<rparr>), fclose = \<lambda>e. e, getline = host_getline,
     sys_open = \<lambda>e. (3, e), sys_close = \<lambda>fd e. e, sys_read = host_read,
     sys_write = \<lambda>fd bytes e. (of_nat (length bytes), e\<lparr>device_regs := (device_regs e)(place e := bytes_u16 bytes)\<rparr>),
     sys_ioctl = \<lambda>fd cmd a e. if cmd = SERIAL_MODBUSCHAR_IOCSETADDR \<and> a < 65535 then (0, e\<lparr>place := a\<rparr>) else (-1, e)\<rparr>"

lemma first_fit_success:
  assumes "length live < 12"
  shows "\<exists>p. first_fit live = (Some p, p # live)"
proof -
  have "filter (\<lambda>p. p \<notin> set live) candidates \<noteq> []"
  proof
    assume "filter (\<lambda>p. p \<notin> set live) candidates = []"
    then have "set candidates \<subseteq> set live" by (auto simp: filter_empty_conv)
    then have "card (set candidates) \<le> length live"
      by (meson card_length card_mono finite_set order_trans)
    moreover have "card (set candidates) = 12" by (simp add: candidates_def)
    ultimately show False using assms by simp
  qed
  then show ?thesis using assms by (auto simp: first_fit_def split: list.split)
qed

lemma first_fit_length: "first_fit live = (r, live') \<Longrightarrow> length live' \<le> Suc (length live)"
  by (auto simp: first_fit_def split: if_splits list.splits)

abbreviation host_memory :: "host \<Rightarrow> nat" where
  "host_memory e \<equiv> 12 - length (heap e)"

lemma host_alloc_law:
  assumes "host_alloc e = (r, e')"
  shows "allocated (\<lambda>e. set (heap e)) r e e'" "left_lines e' = left_lines e"
    "host_memory e \<le> host_memory e' + 1" "0 < host_memory e \<longrightarrow> r \<noteq> None"
proof -
  obtain live where f: "first_fit (heap e) = (r, live)" "e' = e\<lparr>heap := live\<rparr>"
    using assms by (auto simp: host_alloc_def split: prod.splits)
  show "allocated (\<lambda>e. set (heap e)) r e e'"
    using first_fit_law [OF f(1)] by (simp add: f(2) allocated_def split: option.splits)
  show "left_lines e' = left_lines e" by (simp add: f(2))
  show "host_memory e \<le> host_memory e' + 1" using first_fit_length [OF f(1)] by (simp add: f(2))
  show "0 < host_memory e \<longrightarrow> r \<noteq> None" using first_fit_success [of "heap e"] f(1) by auto
qed

lemma host_getline_law:
  assumes "host_getline p e = (line, p', e')" "set_option p \<subseteq> set (heap e)"
  shows "set (heap e') = (set (heap e) - set_option p) \<union> set_option p' \<and> set_option p' \<inter> (set (heap e) - set_option p) = {} \<and>
    host_memory e \<le> host_memory e' + 1 \<and>
    line = (case left_lines e of [] \<Rightarrow> None | l # _ \<Rightarrow> Some l) \<and> left_lines e' = tl (left_lines e)"
proof (cases "left_lines e")
  case Nil
  then show ?thesis using assms by (auto simp: host_getline_def)
next
  case (Cons l ls)
  show ?thesis
  proof (cases p)
    case None
    obtain q e1 where q: "host_alloc e = (q, e1)" by fastforce
    have r: "line = Some l" "p' = q" "e' = e1\<lparr>left_lines := ls\<rparr>"
      using assms(1) Cons None q by (simp_all add: host_getline_def)
    show ?thesis
      using host_alloc_law(1,3) [OF q] by (cases q) (simp_all add: r Cons None allocated_def)
  next
    case (Some q)
    then show ?thesis using assms Cons by (auto simp: host_getline_def)
  qed
qed

interpretation host: daemon_host "host_system files" "\<lambda>e. set (heap e)" left_lines files host_memory
  for files
proof unfold_locales
  note defs = host_system_def host_libc_def
  show "allocated (\<lambda>e. set (heap e)) r e e'" if "malloc (lib (host_system files)) n e = (r, e')" for n e r e'
    using that host_alloc_law(1) by (simp add: defs)
  show "allocated (\<lambda>e. set (heap e)) r e e'" if "calloc (lib (host_system files)) n sz e = (r, e')" for n sz e r e'
    using that host_alloc_law(1) by (simp add: defs)
  show "allocated (\<lambda>e. set (heap e)) r e e'" if "strdup (lib (host_system files)) str e = (r, e')" for str e r e'
    using that host_alloc_law(1) by (simp add: defs)
  show "left_lines e' = left_lines e \<and> host_memory e \<le> host_memory e' + 1 \<and> (0 < host_memory e \<longrightarrow> r \<noteq> None)"
    if "malloc (lib (host_system files)) n e = (r, e')" for n e r e'
    using that host_alloc_law(2-) [of e r e'] by (simp add: defs)
  show "left_lines e' = left_lines e \<and> host_memory e \<le> host_memory e' + 1"
    if "calloc (lib (host_system files)) n k e = (r, e')" for n k e r e'
    using that host_alloc_law(2-) [of e r e'] by (simp add: defs)
  show "left_lines e' = left_lines e \<and> host_memory e \<le> host_memory e' + 1"
    if "strdup (lib (host_system files)) str e = (r, e')" for str e r e'
    using that host_alloc_law(2-) [of e r e'] by (simp add: defs)
  show "set (heap e') = (set (heap e) - set_option p) \<union> set_option p' \<and> set_option p' \<inter> (set (heap e) - set_option p) = {} \<and>
      host_memory e \<le> host_memory e' + 1 \<and>
      line = (case left_lines e of [] \<Rightarrow> None | l # _ \<Rightarrow> Some l) \<and> left_lines e' = tl (left_lines e)"
    if "getline (host_system files) p e = (line, p', e')" "set_option p \<subseteq> set (heap e)" for p e line p' e'
    using host_getline_law that by (simp add: host_system_def)
  show "left_lines (free (lib (host_system files)) q e) = left_lines e \<and>
      host_memory e \<le> host_memory (free (lib (host_system files)) q e)" for q e
    using length_removeAll_less_eq [of q "heap e"] by (simp add: defs diff_le_mono2)
  show "set (heap e') = set (heap e) \<and> length bytes \<le> len"
    if "sys_read (host_system files) fd len e = (res, bytes, e')" for fd len e res bytes e'
    using that by (auto simp: host_system_def host_read_def split: if_splits list.splits)
qed (auto simp: host_system_def host_libc_def split: if_splits)

text \<open>A daemon on this host that knows one register, 107 with the name "a".\<close>

abbreviation no_files :: "cstring \<Rightarrow> u8 list list" where
  "no_files \<equiv> (\<lambda>name. [])"

definition demo_host :: "u8 list list \<Rightarrow> host" where
  "demo_host lines = \<lparr>heap = [4, 3, 2, 1], left_lines = [], terminal = lines, place = 0, device_regs = (\<lambda>a. 555)\<rparr>"

definition demo :: "ht \<Rightarrow> u8 list list \<Rightarrow> host daemon" where
  "demo t lines = \<lparr>d_buffer = None, d_table = Some t, d_items = [\<lparr>item_block = 3, addr = 107\<rparr>], d_fd = 3,
     d_env = demo_host lines, d_out = []\<rparr>"

lemma demo_table:
  "returns (ht_set (lib (host_system no_files)) fresh_table [97] 3 ((demo_host lines)\<lparr>heap := [3, 2, 1]\<rparr>))
     (\<lambda>(r, t', e'). r = Some (4, [97]) \<and> e' = demo_host lines)"
  by (simp add: ht_set_def ht_set_entry_def fresh_table_def hash_key_def FNV_OFFSET_def FNV_PRIME_def demo_host_def
      ht_probe_unfold buf_get_in buf_set_in empty_entry_def host_system_def host_libc_def host_alloc_def first_fit_def
      candidates_def Let_def)

lemma demo_ok:
  "\<exists>t. \<forall>lines. daemon_inv (\<lambda>e. set (heap e)) {} (demo t lines) \<and> mapping_ok (demo t lines) \<and>
     register_of (demo t lines) = [[97] \<mapsto> 107]"
proof -
  let ?blocks = "\<lambda>e. set (heap e)" and ?e = "(demo_host [])\<lparr>heap := [3, 2, 1]\<rparr>"
  have ok: "ht_ok fresh_table" by (rule ht_create_spec(1) [OF fresh_table])
  have own: "owns ?blocks {3} fresh_table ?e"
    by (auto simp: owns_def owned_def fresh_table_def)
  have v: "(3 :: address) \<noteq> 0" by simp
  obtain t where t: "ht_set (lib (host_system no_files)) fresh_table [97] 3 ?e = Some (Some (4, [97]), t, demo_host [])"
    "ht_ok t" "ht_map (entries t) = (ht_map (entries fresh_table))([97] \<mapsto> 3)" "owns ?blocks {3} t (demo_host [])"
    using returns_conj [OF demo_table [of "[]"] returns_conj [OF ht.store_law [OF ok v] host.set_owns [OF ok v own]]]
    by (auto elim!: returnsE)
  let ?d0 = "\<lparr>d_buffer = None, d_table = Some fresh_table, d_items = [], d_fd = 3, d_env = demo_host [], d_out = []\<rparr>"
  have empty: "ht_map (entries fresh_table) = Map.empty"
    by (simp add: fresh_table_def ht_map_def)
  have d0: "mapping_ok ?d0" using ok empty by (simp add: mapping_ok_def)
  have none: "register_of ?d0 = Map.empty" by (simp add: register_of_def empty fun_eq_iff)
  note reg = host.register_of_new [OF d0 _ _ _ t(2,3), where a = 107 and e = "demo_host []", simplified]
  have lines: "demo t lines = (demo t [])\<lparr>d_env := demo_host lines\<rparr>" for lines
    by (simp add: demo_def)
  have map: "mapping_ok (demo t [])" "register_of (demo t []) = [[97] \<mapsto> 107]"
    using reg none by (simp_all add: demo_def)
  have map': "mapping_ok (demo t lines)" for lines using map(1) by (simp add: mapping_ok_def demo_def)
  have reg': "register_of (demo t lines) = [[97] \<mapsto> 107]" for lines using map(2) by (simp add: lines [of lines])
  have inv: "daemon_inv ?blocks {} (demo t lines)" for lines
    using t(4) map' [of lines] by (simp add: daemon_inv_def demo_def owns_def demo_host_def)
  show ?thesis using inv map' reg' by blast
qed

text \<open>A line typed on this host.\<close>

lemma demo_typed:
  assumes "length line \<le> 51"
  shows "typed (host_system no_files) (demo_host [line]) line 5 ((demo_host [])\<lparr>heap := [5, 4, 3, 2, 1]\<rparr>)"
  using assms
  by (simp add: typed_def demo_host_def host_system_def host_libc_def host_alloc_def host_read_def first_fit_def candidates_def)

section \<open>Commands\<close>

lemma bytes_u16_bytes: "bytes_u16 (u16_bytes v) = v"
  by (rule bit_word_eqI) (auto simp: bytes_u16_def u16_bytes_def bit_simps)

text \<open>
  C35: typing \<open>!name=value\<close> for a name of the mapping writes the register: the pass sets the
  device's address to the one of the mapping and writes the value as two bytes, and does nothing
  else but allocate and free its buffer; it reports the result of the write.
\<close>

theorem daemon_write_command:
  assumes "mapping_ok d" and "typed m (d_env d) (write_line name v) p e1"
    and "name_ok (ascii (CHR ''='')) name" and "v \<le> 65535" and "register_of d name = Some a"
    and "sys_ioctl m (d_fd d) SERIAL_MODBUSCHAR_IOCSETADDR a e1 = (r, e2)" and "0 \<le>s r"
    and "sys_write m (d_fd d) (u16_bytes (of_nat v)) e2 = (r', e3)"
  shows "returns (main_pass m d) (\<lambda>(c, d'). c = Continue \<and> same_mapping d d' \<and> d_env d' = free (lib m) p e3 \<and>
    d_out d' = d_out d @ [Writing (of_nat v) name a, Address_Set a, if r' <s 0 then Write_Failed r' else Write_Done r'])"
  by (rule returns_mono [OF main_pass_write [OF assms(1-5)]]) (use assms(6-) in \<open>auto simp: device_write_def\<close>)

theorem daemon_write_command_witness:
  "\<exists>d d'. main_pass (host_system no_files) d = Some (Continue, d') \<and>
     terminal (d_env d) = [[33, 97, 61, 53, 49, 51, 10]] \<and> device_regs (d_env d') 107 = 513"
proof -
  obtain t where inv: "\<And>lines. daemon_inv (\<lambda>e. set (heap e)) {} (demo t lines)"
    and t: "\<And>lines. mapping_ok (demo t lines)" "\<And>lines. register_of (demo t lines) = [[97] \<mapsto> 107]"
    using demo_ok by blast
  have line: "write_line [97] 513 = [33, 97, 61, 53, 49, 51, 10]"
    by (simp add: write_line_def decimal_digits.simps)
  let ?d = "demo t [write_line [97] 513]" and ?e1 = "(demo_host [])\<lparr>heap := [5, 4, 3, 2, 1]\<rparr>"
  let ?e3 = "?e1\<lparr>place := 107, device_regs := (\<lambda>a. 555)(107 := bytes_u16 (u16_bytes (of_nat 513)))\<rparr>"
  have "returns (main_pass (host_system no_files) ?d) (\<lambda>(c, d'). c = Continue \<and> same_mapping ?d d' \<and>
    d_env d' = free (lib (host_system no_files)) 5 ?e3 \<and>
    d_out d' = d_out ?d @ [Writing (of_nat 513) [97] 107, Address_Set 107, if (2 :: i32) <s 0 then Write_Failed 2 else Write_Done 2])"
  proof (rule daemon_write_command [OF t(1)])
    show "typed (host_system no_files) (d_env ?d) (write_line [97] 513) 5 ?e1"
      using demo_typed [of "write_line [97] 513"] by (simp add: demo_def line)
    show "sys_ioctl (host_system no_files) (d_fd ?d) SERIAL_MODBUSCHAR_IOCSETADDR 107 ?e1 = (0, ?e1\<lparr>place := 107\<rparr>)"
      by (simp add: host_system_def)
    show "sys_write (host_system no_files) (d_fd ?d) (u16_bytes (of_nat 513)) (?e1\<lparr>place := 107\<rparr>) = (2, ?e3)"
      by (simp add: host_system_def demo_host_def) (simp add: u16_bytes_def)
  qed (simp_all add: t(2) name_ok_def)
  moreover have "terminal (d_env ?d) = [[33, 97, 61, 53, 49, 51, 10]]" by (simp add: demo_def demo_host_def line)
  moreover have "device_regs (free (lib (host_system no_files)) 5 ?e3) 107 = 513"
    by (simp add: host_system_def host_libc_def bytes_u16_bytes)
  ultimately show ?thesis by (auto elim!: returnsE) metis
qed

text \<open>
  C36: typing \<open>?name\<close> for a name of the mapping prints the value that the device returns, with the
  address set before; when the read fails without data, the printed value is 0.
\<close>

theorem daemon_read_command:
  assumes "mapping_ok d" and "typed m (d_env d) (read_line name) p e1"
    and "0 \<notin> set name" and "length name \<le> 30" and "register_of d name = Some a"
    and "sys_ioctl m (d_fd d) SERIAL_MODBUSCHAR_IOCSETADDR a e1 = (r, e2)" and "0 \<le>s r"
    and "\<And>e. length (fst (snd (sys_read m (d_fd d) 2 e))) \<le> 2"
    and "sys_read m (d_fd d) 2 e2 = (r', bytes, e3)" and "bytes = (if r' <s 0 then [] else u16_bytes v)"
  shows "returns (main_pass m d) (\<lambda>(c, d'). c = Continue \<and> same_mapping d d' \<and> d_env d' = free (lib m) p e3 \<and>
    d_out d' = d_out d @ [Reading name a, Address_Set a] @
      (if r' <s 0 then [Read_Failed r', Value_Is name 0] else [Read_Done r', Value_Is name v]))"
proof -
  have "bytes_u16 [0, 0] = 0" by (simp add: bytes_u16_def)
  moreover have "drop (length (u16_bytes v)) [0, 0] = []" by (simp add: u16_bytes_def)
  ultimately show ?thesis
    by (intro returns_mono [OF main_pass_read [OF assms(1-9)]]) (auto simp: assms(10) bytes_u16_bytes)
qed

theorem daemon_read_command_witness:
  "\<exists>d d'. main_pass (host_system no_files) d = Some (Continue, d') \<and> terminal (d_env d) = [[63, 97, 10]] \<and>
     d_out d' = [Reading [97] 107, Address_Set 107, Read_Done 2, Value_Is [97] 555]"
proof -
  obtain t where inv: "\<And>lines. daemon_inv (\<lambda>e. set (heap e)) {} (demo t lines)"
    and t: "\<And>lines. mapping_ok (demo t lines)" "\<And>lines. register_of (demo t lines) = [[97] \<mapsto> 107]"
    using demo_ok by blast
  have line: "read_line [97] = [63, 97, 10]" by (simp add: read_line_def)
  let ?d = "demo t [read_line [97]]" and ?e1 = "(demo_host [])\<lparr>heap := [5, 4, 3, 2, 1]\<rparr>"
  have pos: "\<not> (2 :: i32) <s 0" by (simp add: word_sless_alt)
  have "returns (main_pass (host_system no_files) ?d) (\<lambda>(c, d'). c = Continue \<and> same_mapping ?d d' \<and>
    d_env d' = free (lib (host_system no_files)) 5 (?e1\<lparr>place := 107\<rparr>) \<and>
    d_out d' = d_out ?d @ [Reading [97] 107, Address_Set 107] @
      (if (2 :: i32) <s 0 then [Read_Failed 2, Value_Is [97] 0] else [Read_Done 2, Value_Is [97] 555]))"
  proof (rule daemon_read_command [OF t(1)])
    show "typed (host_system no_files) (d_env ?d) (read_line [97]) 5 ?e1"
      using demo_typed [of "read_line [97]"] by (simp add: demo_def line)
    show "sys_ioctl (host_system no_files) (d_fd ?d) SERIAL_MODBUSCHAR_IOCSETADDR 107 ?e1 = (0, ?e1\<lparr>place := 107\<rparr>)"
      by (simp add: host_system_def)
    show "sys_read (host_system no_files) (d_fd ?d) 2 (?e1\<lparr>place := 107\<rparr>) = (2, u16_bytes 555, ?e1\<lparr>place := 107\<rparr>)"
      by (simp add: host_system_def host_read_def demo_def demo_host_def u16_bytes_def)
    show "length (fst (snd (sys_read (host_system no_files) (d_fd ?d) 2 e))) \<le> 2" for e
      by (simp add: host_system_def host_read_def demo_def)
  qed (simp_all add: t(2) pos)
  moreover have "terminal (d_env ?d) = [[63, 97, 10]]" "d_out ?d = []" by (simp_all add: demo_def demo_host_def line)
  ultimately show ?thesis using pos by (auto elim!: returnsE)
qed

text \<open>
  C37: one pass on any input that \<open>sscanf\<close> can convert ends, keeps the state of the daemon in
  order, and does to the device exactly what the input asks for: the access that \<open>intended\<close> reads
  off the input and the mapping, or none.
\<close>

theorem daemon_pass_refines:
  assumes "daemon_host m blocks pending file_lines memory"
    and "daemon_inv blocks B d" and "typed m (d_env d) bytes p e1"
    and "fst (classify bytes) = COMMAND_WRITE \<longrightarrow> sscanf_pair (ascii (CHR ''='')) (argument bytes) \<noteq> None"
  shows "returns (main_pass m d) (\<lambda>(c, d'). c = Continue \<and> same_mapping d d' \<and> daemon_inv blocks B d' \<and>
    d_env d' = free (lib m) p (perform m (d_fd d) (intended (register_of d) bytes) e1))"
  using assms by (rule daemon_host.main_pass_inv)

theorem daemon_pass_refines_witness:
  "\<exists>d d'. main_pass (host_system no_files) d = Some (Continue, d') \<and> terminal (d_env d) = [[33, 97, 61, 53, 49, 51, 10]] \<and>
     device_regs (d_env d) 107 = 555 \<and> device_regs (d_env d') 107 = 513 \<and> daemon_inv (\<lambda>e. set (heap e)) {} d'"
proof -
  obtain t where t: "\<And>lines. daemon_inv (\<lambda>e. set (heap e)) {} (demo t lines)"
    and regs: "\<And>lines. register_of (demo t lines) = [[97] \<mapsto> 107]"
    using demo_ok by blast
  let ?line = "[33, 97, 61, 53, 49, 51, 10]"
  let ?d = "demo t [?line]" and ?e1 = "(demo_host [])\<lparr>heap := [5, 4, 3, 2, 1]\<rparr>"
  have matches: "sscanf_pair (ascii (CHR ''='')) (argument ?line) = Some (Some [97], Some 513)"
    using sscanf_pair_decimal [of "ascii (CHR ''='')" "[97]" 513]
    by (simp add: argument_def name_ok_def decimal_digits.simps)
  have op: "intended (register_of ?d) ?line = Write_Register 107 513"
    unfolding intended_def matches by (simp add: classify_def write_op_def regs)
  have "returns (main_pass (host_system no_files) ?d) (\<lambda>(c, d'). c = Continue \<and> same_mapping ?d d' \<and>
    daemon_inv (\<lambda>e. set (heap e)) {} d' \<and>
    d_env d' = free (lib (host_system no_files)) 5
      (perform (host_system no_files) (d_fd ?d) (intended (register_of ?d) ?line) ?e1))"
  proof (rule daemon_pass_refines [OF host.daemon_host_axioms t(1)])
    show "typed (host_system no_files) (d_env ?d) ?line 5 ?e1"
      using demo_typed [of ?line] by (simp add: demo_def)
  qed (use matches in simp)
  moreover have "terminal (d_env ?d) = [?line]" "device_regs (d_env ?d) 107 = 555" by (simp_all add: demo_def demo_host_def)
  moreover have "device_regs (free (lib (host_system no_files)) 5
      (perform (host_system no_files) (d_fd ?d) (Write_Register 107 513) ?e1)) 107 = 513"
    by (simp add: device_write_def host_system_def host_libc_def bytes_u16_bytes)
  ultimately show ?thesis unfolding op by (auto elim!: returnsE) metis
qed

text \<open>
  C38: the 30 characters that the conversion accepts for a name and their terminator do not fit
  into the 30 bytes of \<^verbatim>\<open>name\<close>: a write command with 30 characters before any \<open>=\<close> has no defined
  result.
\<close>

theorem daemon_name_overflow:
  assumes "typed m (d_env d) (ascii (CHR ''!'') # str @ [10]) p e1"
    and "0 \<notin> set str" and "30 \<le> length str" and "ascii (CHR ''='') \<notin> set (take 30 str)"
  shows "main_pass m d = None"
  using assms by (rule main_pass_overflow)

theorem daemon_name_overflow_witness:
  "\<exists>d. main_pass (host_system no_files) d = None \<and> terminal (d_env d) = [33 # replicate 30 97 @ [61, 49, 10]]"
proof -
  let ?str = "replicate 30 97 @ [61, 49]" and ?line = "33 # replicate 30 97 @ [61, 49, 10]"
  have "main_pass (host_system no_files) (demo fresh_table [?line]) = None"
  proof (rule daemon_name_overflow [where str = ?str])
    show "typed (host_system no_files) (d_env (demo fresh_table [?line])) (ascii (CHR ''!'') # ?str @ [10]) 5
        ((demo_host [])\<lparr>heap := [5, 4, 3, 2, 1]\<rparr>)"
      using demo_typed [of ?line] by (simp add: demo_def)
  qed auto
  then show ?thesis by (intro exI [of _ "demo fresh_table [?line]"]) (simp add: demo_def demo_host_def)
qed

section \<open>The map file\<close>

text \<open>
  C15: reading the map file has a defined result when every line can be converted and there is
  memory for four blocks per line and four more.  Then, or whenever it has a result, there are two cases.
  Either the daemon goes on: every name of the file has the address of the last line for it in the
  lower half of its address, other names have none, the upper half is what a fresh block contained,
  and the daemon owns its memory.  Or it has ended with the exit code 1 and has freed everything,
  and the file has a line that is no entry, or a message names the resource that was missing.
\<close>

theorem daemon_reads_map_file:
  assumes "daemon_host m blocks pending file_lines memory"
    and "d_items d = []" and "d_buffer d = None" and "blocks (d_env d) = B"
  shows "case read_map_file m name d of
      None \<Rightarrow> \<not> loadable (memory (d_env d)) (file_lines name)
    | Some (c, d') \<Rightarrow>
        if c = Continue then \<exists>es. file_entries (file_lines name) = Some es \<and> daemon_inv blocks B d' \<and>
          d_buffer d' = None \<and> registers d' = map_of (rev es) \<and> d_out d' = d_out d \<and>
          (\<forall>x\<in>ran (register_of d'). uninitialised_half m x)
        else c = Exit 1 \<and> blocks (d_env d') = B \<and> (file_entries (file_lines name) = None \<or>
          set (d_out d') \<inter> {Out_Of_Memory, No_Table, No_Map_File} \<noteq> {})"
  using assms by (rule daemon_host.read_map_file_spec)

text \<open>A file of two lines for the same name, on an empty heap.\<close>

abbreviation two_lines :: "cstring \<Rightarrow> u8 list list" where
  "two_lines \<equiv> (\<lambda>name. [map_line [97] 5, map_line [97] 107])"

lemma two_lines_entries:
  "file_entries (two_lines name) = Some [([97], 5), ([97], 107)]" "file_defined (two_lines name)"
proof -
  have e: "line_entry (map_line [97] 5) = Some (Some ([97], 5))" "line_entry (map_line [97] 107) = Some (Some ([97], 107))"
    using line_entry_map_line [of "[97]" 5] line_entry_map_line [of "[97]" 107] by (simp_all add: name_ok_def)
  have l: "length (map_line [97] 5) \<le> 50" "length (map_line [97] 107) \<le> 50"
    using digits_length [of 5 3] digits_length [of 107 3] by (simp_all add: map_line_def)
  show "file_entries (two_lines name) = Some [([97], 5), ([97], 107)]" "file_defined (two_lines name)"
    using e l by (simp_all add: MAX_NAME_LENGTH_def MAX_VALUE_LENGTH_def file_defined_def)
qed

theorem daemon_reads_map_file_witness:
  "\<exists>c d'. read_map_file (host_system two_lines) [109]
      \<lparr>d_buffer = None, d_table = None, d_items = [], d_fd = 3, d_env = (demo_host [])\<lparr>heap := []\<rparr>, d_out = []\<rparr> = Some (c, d') \<and>
     (c = Continue \<and> registers d' [97] = Some 107 \<or> c = Exit 1 \<and> heap (d_env d') = [])"
proof -
  let ?d = "\<lparr>d_buffer = None, d_table = None, d_items = [], d_fd = 3, d_env = (demo_host [])\<lparr>heap := []\<rparr>, d_out = []\<rparr>"
  have "loadable (host_memory (d_env ?d)) (two_lines [109])"
    using two_lines_entries(2) by (simp add: loadable_def)
  then show ?thesis
    using daemon_reads_map_file [OF host.daemon_host_axioms, of ?d "{}" two_lines "[109]"]
    by (auto simp: two_lines_entries(1) simp del: file_entries.simps split: option.split_asm if_split_asm)
qed

section \<open>Runs\<close>

text \<open>
  C13: from a state in order, every sequence of passes and signals keeps the mapping and the
  ownership of memory, whatever the input and the device do; when the daemon has ended, on a
  signal or because memory is exhausted, everything is freed.
\<close>

theorem daemon_run_invariant:
  assumes "daemon_host m blocks pending file_lines memory" and "daemon_inv blocks B d"
    and "(daemon_step m)\<^sup>*\<^sup>* (Running d) P"
  shows "case P of
      Running d' \<Rightarrow> register_of d' = register_of d \<and> daemon_inv blocks B d'
    | Ended k d' \<Rightarrow> blocks (d_env d') = B"
proof -
  have "process_ok blocks B d (Running d)" using assms(2) by (simp add: process_ok_def same_mapping_def)
  from daemon_host.run_keeps [OF assms(1,3) this] show ?thesis
    by (auto simp: process_ok_def dest: same_mapping_keeps(1) split: process.splits)
qed

theorem daemon_run_invariant_witness:
  "\<exists>d d'. heap (d_env d) = [4, 3, 2, 1] \<and> (daemon_step (host_system no_files))\<^sup>*\<^sup>* (Running d) (Ended 0 d') \<and> heap (d_env d') = []"
proof -
  obtain t where inv: "\<And>lines. daemon_inv (\<lambda>e. set (heap e)) {} (demo t lines)"
    using demo_ok by blast
  let ?d = "demo t []" and ?m = "host_system no_files"
  let ?e = "(demo_host [])\<lparr>heap := [5, 4, 3, 2, 1]\<rparr>"
  have m: "malloc (lib ?m) (of_nat BUFFER_SIZE) (d_env ?d) = (Some 5, ?e)"
    by (simp add: demo_def demo_host_def host_system_def host_libc_def host_alloc_def first_fit_def candidates_def)
  then have "malloc (lib ?m) 52 (d_env ?d) = (Some 5, ?e)"
    by (simp add: BUFFER_SIZE_def MAX_CMD_LENGTH_def MAX_NAME_LENGTH_def MAX_VALUE_LENGTH_def)
  from host.signal_frees [OF inv this, of SIGINT "contents ?m 5 BUFFER_SIZE ?e"]
  obtain d' where "handle_signal ?m SIGINT (?d\<lparr>d_buffer := Some (5, contents ?m 5 BUFFER_SIZE ?e), d_env := ?e\<rparr>) = Some (Exit 0, d')"
    by (auto elim!: returnsE)
  from daemon_step.signal [OF m this] have run: "(daemon_step ?m)\<^sup>*\<^sup>* (Running ?d) (Ended 0 d')" by blast
  from daemon_run_invariant [OF host.daemon_host_axioms inv run] have "heap (d_env d') = []" by simp
  then show ?thesis using run by (intro exI [of _ ?d] exI [of _ d']) (simp add: demo_def demo_host_def)
qed

text \<open>
  C39: at the end of the input, where every \<^verbatim>\<open>read\<close> returns 0, the daemon does not stop: any number
  of passes goes by, each defined and none of them the last, without an output or a wait.
\<close>

theorem daemon_never_stops_at_eof:
  assumes "\<And>e. at_eof e \<Longrightarrow> \<exists>p e1. typed m e [] p e1 \<and> at_eof (free (lib m) p e1)" and "at_eof (d_env d)"
  shows "endless (loop_pass m) d \<and> main_loop m d = None \<and>
    (\<forall>n d'. passes (loop_pass m) n d = Some (Inl d') \<longrightarrow> at_eof (d_env d') \<and> d_out d' = d_out d)"
  using main_loop_eof [of at_eof m d] assms by (auto simp: main_loop_def intro: endless_loop)

theorem daemon_never_stops_at_eof_witness:
  "endless (loop_pass (host_system no_files)) (demo fresh_table []) \<and> main_loop (host_system no_files) (demo fresh_table []) = None"
proof -
  have "\<exists>p e1. typed (host_system no_files) e [] p e1 \<and> free (lib (host_system no_files)) p e1 = demo_host []"
    if "e = demo_host []" for e
    using that
    by (intro exI [of _ 5] exI [of _ "(demo_host [])\<lparr>heap := [5, 4, 3, 2, 1]\<rparr>"])
      (simp add: demo_host_def typed_def host_system_def host_libc_def host_alloc_def host_read_def
        first_fit_def candidates_def)
  from daemon_never_stops_at_eof [of "\<lambda>e. e = demo_host []", OF this] show ?thesis
    by (simp add: demo_def)
qed

text \<open>
  C16: the program as a whole: if it ends by itself, then with an exit code and with all memory freed
  that it had allocated.  This holds for every argument, map file and input, and whatever the
  allocator refuses and the device answers; nothing is assumed of the lines of the file.
\<close>

theorem daemon_main_frees_memory:
  assumes "daemon_host m blocks pending file_lines memory"
    and "main m argv1 e = Some (c, d)"
  shows "\<exists>k. c = Exit k \<and> blocks (d_env d) = blocks e"
  using assms by (rule daemon_host.main_frees)

text \<open>A map file whose only line is no entry.\<close>

theorem daemon_main_frees_memory_witness:
  "\<exists>d. main (host_system (\<lambda>name. [[120, 10]])) (Some [109]) ((demo_host [])\<lparr>heap := []\<rparr>) = Some (Exit 1, d) \<and>
     heap (d_env d) = []"
proof -
  let ?files = "\<lambda>name. [[120, 10]] :: u8 list list" and ?e = "(demo_host [])\<lparr>heap := []\<rparr>"
  let ?d = "\<lparr>d_buffer = None, d_table = None, d_items = [], d_fd = 3, d_env = ?e, d_out = [Hello]\<rparr>"
  have line: "line_entry [120, 10] = Some None"
    by (simp add: line_entry_def c_string_def sscanf_pair_def MAX_NAME_LENGTH_def)
  then have defined: "file_defined (?files name)" and none: "file_entries (?files name) = None" for name
    by (simp_all add: file_defined_def)
  have "loadable (host_memory (d_env ?d)) (?files [109])" using defined by (simp add: loadable_def)
  then obtain d where "read_map_file (host_system ?files) [109] ?d = Some (Exit 1, d)"
    using host.read_map_file_spec [of ?d "{}" ?files "[109]"] none
    by (auto simp del: file_entries.simps split: option.split_asm if_split_asm)
  moreover have "sys_open (host_system ?files) ?e = (3, ?e)" "\<not> (3 :: i32) <s 0"
    by (simp_all add: host_system_def word_sless_alt)
  ultimately have run: "main (host_system ?files) (Some [109]) ?e = Some (Exit 1, d)"
    by (simp add: main_def say_def)
  from daemon_main_frees_memory [OF host.daemon_host_axioms run] have "heap (d_env d) = []" by simp
  with run show ?thesis by blast
qed

end
