(* ===== verification/Daemon_Driver.thy ===== *)
theory Daemon_Driver
  imports Daemon_Properties Driver_Properties
begin

text \<open>
  The whole system: a command that is typed at the daemon, the system calls, the driver's file
  operations, its Modbus client and the unit on the line.
\<close>

section \<open>System calls\<close>

text \<open>The \<^verbatim>\<open>int\<close> that a C library call returns for the result of a file operation: -1 for an error.\<close>

definition int_result :: "ssize \<Rightarrow> i32" where
  "int_result r = (if r <s 0 then -1 else ucast r)"

text \<open>One register in the memory of a program.\<close>

lemma host_bytes_register: "host_bytes [v] = u16_bytes v"
proof -
  have "hi_byte v = ucast (drop_bit 8 v)"
    by (rule bit_word_eqI) (auto simp: hi_byte_def bit_simps bit_255)
  then show ?thesis by (simp add: u16_bytes_def lo_byte_def)
qed

context timely_module
begin

text \<open>A program has stored \<open>bs\<close> in its memory at \<open>p\<close>; nothing else that matters has changed.\<close>

definition staged :: "'e \<Rightarrow> 'e \<Rightarrow> void_ptr \<Rightarrow> u8 list \<Rightarrow> bool" where
  "staged e0 e p bs \<longleftrightarrow> (live e0 \<longrightarrow> live e) \<and> elapsed e = elapsed e0 \<and> transit e = transit e0 \<and> reply e = reply e0 \<and>
     user e p (length bs) = bs"

end

text \<open>
  A system whose descriptor \<open>fd\<close> is an open file of the driver: \<open>device\<close> is the state of the module
  and \<open>file\<close> the private data of the file.  Each call passes the address of the program's
  variable or buffer to the file operation, and its result becomes the result of the call.
\<close>

locale system_calls = timely_module k live wait kblocks elapsed transit reply user
  for k :: "'e module_kernel" and live :: "'e \<Rightarrow> bool" and wait :: "u64 \<Rightarrow> 'e \<Rightarrow> nat" and kblocks :: "'e \<Rightarrow> kblock set"
    and elapsed :: "'e \<Rightarrow> nat" and transit :: "'e \<Rightarrow> u8 list list" and reply :: "'e \<Rightarrow> u8 list \<Rightarrow> u8 list list"
    and user :: "'e \<Rightarrow> void_ptr \<Rightarrow> nat \<Rightarrow> u8 list" +
  fixes m :: "'w system" and fd :: i32 and device :: "'w \<Rightarrow> 'e module_state" and file_data :: "'w \<Rightarrow> modbus_handle_t option"
  assumes ioctl_call: "sys_ioctl m fd cmd a w = (res, w') \<Longrightarrow>
      \<exists>p e. p \<noteq> 0 \<and> staged (env (drv (device w))) e p (ulong_bytes a) \<and>
        (\<forall>r h. modbus_dev_ioctl k (file_data w) cmd p (with_env (device w) e) = Some (r, h) \<longrightarrow>
          res = int_result r \<and> file_data w' = h \<and> device w' = with_env (device w) e)"
    and write_call: "sys_write m fd bytes w = (res, w') \<Longrightarrow>
      \<exists>p e. p \<noteq> 0 \<and> staged (env (drv (device w))) e p bytes \<and>
        (\<forall>r s. modbus_dev_write k (file_data w) p (of_nat (length bytes)) (with_env (device w) e) = Some (r, s) \<longrightarrow>
          res = int_result r \<and> file_data w' = file_data w \<and> device w' = s)"
    and read_call: "sys_read m fd n w = (res, bytes, w') \<Longrightarrow> length bytes \<le> n \<and>
      (\<exists>p. p \<noteq> 0 \<and>
        (\<forall>r s. modbus_dev_read k (file_data w) p (of_nat n) (device w) = Some (r, s) \<longrightarrow>
          res = int_result r \<and> bytes = (if r <s 0 then [] else user (env (drv s)) p (unat r)) \<and>
          file_data w' = file_data w \<and> device w' = s))"
begin

lemma staged_module:
  assumes "staged (env (drv s)) e p bs" "module_ok k live s" "line_idle live elapsed transit (drv s)"
  shows "module_ok k live (with_env s e)" "line_idle live elapsed transit (drv (with_env s e))"
    "line_answer reply (drv (with_env s e)) = line_answer reply (drv s)"
  using assms by (auto simp: staged_def module_ok_def with_env_def driver_ok_def line_idle_def line_answer_def fun_eq_iff)

lemma ioctl_effect:
  assumes "file_data w = Some h" "handle_dev h" "unat a < 65535"
    and "module_ok k live (device w)" "line_idle live elapsed transit (drv (device w))"
    and "sys_ioctl m fd SERIAL_MODBUSCHAR_IOCSETADDR a w = (res, w')"
  shows "res = 0 \<and> file_data w' = Some (h\<lparr>start_address := ucast a\<rparr>) \<and> module_ok k live (device w') \<and>
    line_idle live elapsed transit (drv (device w')) \<and> line_answer reply (drv (device w')) = line_answer reply (drv (device w))"
proof -
  obtain p e where p: "staged (env (drv (device w))) e p (ulong_bytes a)"
    and call: "\<And>r h'. modbus_dev_ioctl k (Some h) SERIAL_MODBUSCHAR_IOCSETADDR p (with_env (device w) e) = Some (r, h') \<Longrightarrow>
      res = int_result r \<and> file_data w' = h' \<and> device w' = with_env (device w) e"
    using ioctl_call [OF assms(6)] assms(1) by auto
  obtain left mem where c: "copy_from_user k (replicate 8 0) p 8 e = (left, mem)" by fastforce
  have "left = 0" "mem = ulong_bytes a"
    using copy_from_user_works [OF _ c] p by (simp_all add: staged_def)
  moreover have "\<not> UINT16_MAX \<le> a" using assms(3) by (simp add: UINT16_MAX_def word_le_nat_alt)
  ultimately have "modbus_dev_ioctl k (Some h) SERIAL_MODBUSCHAR_IOCSETADDR p (with_env (device w) e) =
      Some (0, Some (h\<lparr>start_address := ucast a\<rparr>))"
    using c by (simp add: modbus_dev_ioctl_def Let_def)
  from call [OF this] show ?thesis
    using staged_module [OF p assms(4,5)] by (simp add: int_result_def)
qed

lemma two_bytes: "int_result 2 = 2"
  by (simp add: int_result_def word_sless_alt)

lemma one_register_accepted:
  assumes "unat a < 65535"
  shows "accepted_count (ucast a) 2" "(ucast ((2 :: u64) div 2) :: u16) = 1"
  using assms by (simp_all add: accepted_count_def unat_ucast)

lemma read_effect:
  assumes "file_data w = Some h" "handle_dev h" "start_address h = ucast a" "unat a < 65535"
    and "module_ok k live (device w)" "line_idle live elapsed transit (drv (device w))"
    and "line_answer reply (drv (device w)) (read_request (ucast a) 1) = registers_response [v]"
    and "sys_read m fd 2 w = (res, bytes, w')"
  shows "res = 2 \<and> bytes = u16_bytes v \<and> module_ok k live (device w')"
proof -
  obtain p where "p \<noteq> 0" and call: "\<And>r s. modbus_dev_read k (Some h) p 2 (device w) = Some (r, s) \<Longrightarrow>
      res = int_result r \<and> bytes = (if r <s 0 then [] else user (env (drv s)) p (unat r)) \<and> device w' = s"
    using read_call [OF assms(8)] assms(1) by auto
  obtain s where s: "modbus_dev_read k (Some h) p 2 (device w) = Some (2, s)"
    "user (env (drv s)) p 2 = host_bytes [v]" "module_ok k live s"
    using modbus_dev_read_exact [OF assms(5,6,2) \<open>p \<noteq> 0\<close>, of 2 "[v]"] one_register_accepted [OF assms(4)] assms(3,7)
    by (auto elim!: returnsE)
  then show ?thesis
    using call [OF s(1)] s(2,3) two_bytes host_bytes_register [of v] by (simp add: word_sless_alt del: host_bytes.simps)
qed

lemma write_effect:
  assumes "file_data w = Some h" "handle_dev h" "start_address h = ucast a" "unat a < 65535"
    and "module_ok k live (device w)" "line_idle live elapsed transit (drv (device w))"
    and "line_answer reply (drv (device w)) (write_request (ucast a) [v]) = write_ack (ucast a) 1"
    and "sys_write m fd (u16_bytes v) w = (res, w')"
  shows "res = 2 \<and> module_ok k live (device w')"
proof -
  have len: "length (u16_bytes v) = 2" by (simp add: u16_bytes_def)
  obtain p e where "p \<noteq> 0" and staged: "staged (env (drv (device w))) e p (u16_bytes v)"
    and call: "\<And>r s. modbus_dev_write k (Some h) p 2 (with_env (device w) e) = Some (r, s) \<Longrightarrow>
      res = int_result r \<and> device w' = s"
    using write_call [OF assms(8)] assms(1) len by auto
  note ok = staged_module [OF staged assms(5,6)]
  have "host_words (u16_bytes v) = [v]"
    using host_words_host_bytes [of "[v]"] unfolding host_bytes_register .
  then have "host_words (user (env (drv (with_env (device w) e))) p 2) = [v]"
    using staged len by (simp add: staged_def)
  then obtain s where s: "modbus_dev_write k (Some h) p 2 (with_env (device w) e) = Some (2, s)" "module_ok k live s"
    using modbus_dev_write_exact [OF ok(1,2) assms(2) \<open>p \<noteq> 0\<close>, of 2] one_register_accepted [OF assms(4)] assms(3,7) ok(3)
    by (auto elim!: returnsE)
  show ?thesis using call [OF s(1)] s(2) two_bytes by simp
qed

end

section \<open>A simulated system\<close>

text \<open>The host of \<open>Daemon_Properties\<close> with the module on the kernel of \<open>Bus_Simulation\<close> behind descriptor 3.\<close>

type_synonym linux = "host \<times> bus module_state \<times> modbus_handle_t option"

definition bus_stage :: "u8 list \<Rightarrow> bus module_state \<Rightarrow> bus module_state" where
  "bus_stage bs s = with_env s ((env (drv s))\<lparr>bus_user := bs\<rparr>)"

definition on_host :: "(host \<Rightarrow> 'a \<times> host) \<Rightarrow> linux \<Rightarrow> 'a \<times> linux" where
  "on_host f w = (case w of (h, x) \<Rightarrow> (case f h of (r, h) \<Rightarrow> (r, h, x)))"

definition linux_read :: "i32 \<Rightarrow> nat \<Rightarrow> linux \<Rightarrow> i32 \<times> u8 list \<times> linux" where
  "linux_read fd n w = (case w of (h, s, f) \<Rightarrow>
     if fd = 3 then (case modbus_dev_read bus_kernel f 1 (of_nat n) s of
         Some (r, s) \<Rightarrow> (int_result r, if r <s 0 then [] else bus_user_at (env (drv s)) 1 (unat r), h, s, f)
       | None \<Rightarrow> (-1, [], w))
     else (case host_read fd n h of (res, bytes, h) \<Rightarrow> (res, bytes, h, s, f)))"

definition linux_write :: "i32 \<Rightarrow> u8 list \<Rightarrow> linux \<Rightarrow> i32 \<times> linux" where
  "linux_write fd bytes w = (case w of (h, s, f) \<Rightarrow>
     (case modbus_dev_write bus_kernel f 1 (of_nat (length bytes)) (bus_stage bytes s) of
         Some (r, s) \<Rightarrow> (int_result r, h, s, f) | None \<Rightarrow> (-1, w)))"

definition linux_ioctl :: "i32 \<Rightarrow> u32 \<Rightarrow> u64 \<Rightarrow> linux \<Rightarrow> i32 \<times> linux" where
  "linux_ioctl fd cmd a w = (case w of (h, s, f) \<Rightarrow>
     (case modbus_dev_ioctl bus_kernel f cmd 1 (bus_stage (ulong_bytes a) s) of
         Some (r, f) \<Rightarrow> (int_result r, h, bus_stage (ulong_bytes a) s, f) | None \<Rightarrow> (-1, w)))"

definition linux_system :: "linux system" where
  "linux_system = \<lparr>lib = \<lparr>malloc = \<lambda>n. on_host host_alloc, calloc = \<lambda>n k. on_host host_alloc, strdup = \<lambda>str. on_host host_alloc,
       free = \<lambda>p (h, x). (h\<lparr>heap := removeAll p (heap h)\<rparr>, x)\<rparr>,
     contents = \<lambda>p n w. replicate n 0, fopen = \<lambda>name w. (False, w), fclose = \<lambda>w. w, getline = \<lambda>p w. (None, p, w),
     sys_open = \<lambda>w. (3, w), sys_close = \<lambda>fd w. w, sys_read = linux_read, sys_write = linux_write, sys_ioctl = linux_ioctl\<rparr>"

lemma modbus_dev_read_result:
  assumes "modbus_dev_read k f p len s = Some (r, s')"
  shows "r <s 0 \<or> r = len"
proof -
  have "r \<in> {- EFAULT, - EINVAL, - ENOMEM, - EIO} \<or> r = len"
    using assms
    by (auto simp: modbus_dev_read_def Let_def split: bind_splits if_splits prod.splits option.splits)
  then show ?thesis by (auto simp: errno_defs word_sless_alt)
qed

lemma bus_staged:
  "bus_module.staged (env (drv s)) ((env (drv s))\<lparr>bus_user := bs\<rparr>) 1 bs"
  by (simp add: bus_module.staged_def bus_live_def bus_user_at_def)

interpretation linux: system_calls bus_kernel bus_live bus_wait bus_kblocks bus_now bus_slots bus_unit bus_user_at
    linux_system 3 "\<lambda>(h, s, f). s" "\<lambda>(h, s, f). f"
proof unfold_locales
  fix cmd a w res and w' :: linux
  assume call: "sys_ioctl linux_system 3 cmd a w = (res, w')"
  obtain h s f where w: "w = (h, s, f)" by (metis prod_cases3)
  show "\<exists>p e. p \<noteq> 0 \<and> bus_module.staged (env (drv (case w of (h, s, f) \<Rightarrow> s))) e p (ulong_bytes a) \<and>
      (\<forall>r f'. modbus_dev_ioctl bus_kernel (case w of (h, s, f) \<Rightarrow> f) cmd p
          (with_env (case w of (h, s, f) \<Rightarrow> s) e) = Some (r, f') \<longrightarrow>
        res = int_result r \<and> (case w' of (h, s, f) \<Rightarrow> f) = f' \<and>
        (case w' of (h, s, f) \<Rightarrow> s) = with_env (case w of (h, s, f) \<Rightarrow> s) e)"
    using call bus_staged [of s "ulong_bytes a"] w
    by (intro exI [of _ 1] exI [of _ "(env (drv s))\<lparr>bus_user := ulong_bytes a\<rparr>"])
      (auto simp: linux_system_def linux_ioctl_def bus_stage_def)
next
  fix bytes w res and w' :: linux
  assume call: "sys_write linux_system 3 bytes w = (res, w')"
  obtain h s f where w: "w = (h, s, f)" by (metis prod_cases3)
  show "\<exists>p e. p \<noteq> 0 \<and> bus_module.staged (env (drv (case w of (h, s, f) \<Rightarrow> s))) e p bytes \<and>
      (\<forall>r s'. modbus_dev_write bus_kernel (case w of (h, s, f) \<Rightarrow> f) p (of_nat (length bytes))
          (with_env (case w of (h, s, f) \<Rightarrow> s) e) = Some (r, s') \<longrightarrow>
        res = int_result r \<and> (case w' of (h, s, f) \<Rightarrow> f) = (case w of (h, s, f) \<Rightarrow> f) \<and>
        (case w' of (h, s, f) \<Rightarrow> s) = s')"
    using call bus_staged [of s bytes] w
    by (intro exI [of _ 1] exI [of _ "(env (drv s))\<lparr>bus_user := bytes\<rparr>"])
      (auto simp: linux_system_def linux_write_def bus_stage_def)
next
  fix n w res bytes and w' :: linux
  assume call: "sys_read linux_system 3 n w = (res, bytes, w')"
  obtain h s f where w: "w = (h, s, f)" by (metis prod_cases3)
  have short: "unat (of_nat n :: u64) \<le> n" by (simp add: unsigned_of_nat take_bit_eq_mod)
  show "length bytes \<le> n \<and> (\<exists>p. p \<noteq> 0 \<and>
      (\<forall>r s'. modbus_dev_read bus_kernel (case w of (h, s, f) \<Rightarrow> f) p (of_nat n) (case w of (h, s, f) \<Rightarrow> s) = Some (r, s') \<longrightarrow>
        res = int_result r \<and> bytes = (if r <s 0 then [] else bus_user_at (env (drv s')) p (unat r)) \<and>
        (case w' of (h, s, f) \<Rightarrow> f) = (case w of (h, s, f) \<Rightarrow> f) \<and> (case w' of (h, s, f) \<Rightarrow> s) = s'))"
  proof (cases "modbus_dev_read bus_kernel f 1 (of_nat n) s")
    case None
    then show ?thesis
      using call w by (intro conjI exI [of _ 1]) (auto simp: linux_system_def linux_read_def)
  next
    case (Some rs)
    obtain r s' where rs: "rs = (r, s')" by fastforce
    have "r <s 0 \<or> r = of_nat n" using modbus_dev_read_result Some rs by metis
    then have "length bytes \<le> n"
      using call w Some rs short by (auto simp: linux_system_def linux_read_def bus_user_at_def split: if_splits)
    then show ?thesis
      using call w Some rs by (intro conjI exI [of _ 1]) (auto simp: linux_system_def linux_read_def)
  qed
qed

section \<open>Properties\<close>

text \<open>
  C3: from the keyboard to the line and back: when \<open>?name\<close> is typed for a name that the mapping
  gives the address \<open>a\<close>, and unit 1 answers the request for register \<open>a\<close> with the value \<open>v\<close>, the
  daemon prints \<open>v\<close>.
\<close>

theorem daemon_prints_unit_register:
  assumes "system_calls k live wait kblocks elapsed transit reply user m fd device file_data"
    and "mapping_ok d" and "d_fd d = fd" and "typed m (d_env d) (read_line name) p w"
    and "0 \<notin> set name" and "length name \<le> 30" and "register_of d name = Some a" and "unat a < 65535"
    and "file_data w = Some h" and "handle_dev h"
    and "module_ok k live (device w)" and "line_idle live elapsed transit (drv (device w))"
    and "line_answer reply (drv (device w)) (read_request (ucast a) 1) = registers_response [v]"
  shows "returns (main_pass m d) (\<lambda>(c, d'). c = Continue \<and>
    d_out d' = d_out d @ [Reading name a, Address_Set a, Read_Done 2, Value_Is name v])"
proof -
  obtain r w1 where io: "sys_ioctl m fd SERIAL_MODBUSCHAR_IOCSETADDR a w = (r, w1)" by fastforce
  note set = system_calls.ioctl_effect [OF assms(1,9,10,8,11,12) io]
  obtain r' bytes w2 where rd: "sys_read m fd 2 w1 = (r', bytes, w2)" by (metis prod_cases3)
  have got: "r' = 2" "bytes = u16_bytes v"
    using system_calls.read_effect [OF assms(1), of w1 "h\<lparr>start_address := ucast a\<rparr>", OF _ _ _ assms(8) _ _ _ rd]
      set assms(10,13) by simp_all
  have short: "length (fst (snd (sys_read m (d_fd d) 2 e))) \<le> 2" for e
    using system_calls.read_call [OF assms(1), of 2 e] assms(3) by (metis prod.collapse)
  have pos: "\<not> (2 :: i32) <s 0" "(0 :: i32) \<le>s r" using set by (simp_all add: word_sless_alt word_sle_eq)
  have "drop (length (u16_bytes v)) [0, 0] = []" by (simp add: u16_bytes_def)
  then have printed: "bytes_u16 (bytes @ drop (length bytes) [0, 0]) = v" by (simp add: got bytes_u16_bytes)
  show ?thesis
    by (rule returns_mono [OF main_pass_read [OF assms(2,4,5,6,7) _ pos(2) short]])
      (use io rd got(1) printed pos(1) assms(3) in auto)
qed

text \<open>The daemon of \<open>Daemon_Properties\<close> in the simulated system.\<close>

definition linux_daemon :: "ht \<Rightarrow> linux \<Rightarrow> linux daemon" where
  "linux_daemon t w = \<lparr>d_buffer = None, d_table = Some t, d_items = [\<lparr>item_block = 3, addr = 107\<rparr>], d_fd = 3,
     d_env = w, d_out = []\<rparr>"

lemma linux_daemon_ok: "\<exists>t. \<forall>w. mapping_ok (linux_daemon t w) \<and> register_of (linux_daemon t w) = [[97] \<mapsto> 107]"
proof -
  obtain t where t: "mapping_ok (demo t [])" "register_of (demo t []) = [[97] \<mapsto> 107]"
    using demo_ok by blast
  have "mapping_ok (linux_daemon t w)" for w
    using t(1) by (simp add: mapping_ok_def demo_def linux_daemon_def)
  moreover have "register_of (linux_daemon t w) = register_of (demo t [])" for w
    by (simp add: register_of_def item_addr_def demo_def linux_daemon_def fun_eq_iff)
  ultimately show ?thesis using t(2) by (intro exI [of _ t]) simp
qed

lemma linux_typed:
  assumes "length line \<le> 51"
  shows "typed linux_system (demo_host [line], x) line 5 ((demo_host [])\<lparr>heap := [5, 4, 3, 2, 1]\<rparr>, x)"
  using assms
  by (cases x) (simp add: typed_def demo_host_def linux_system_def on_host_def host_alloc_def linux_read_def host_read_def
      first_fit_def candidates_def)

theorem daemon_prints_unit_register_witness:
  "\<exists>d d'. main_pass linux_system d = Some (Continue, d') \<and>
     d_out d' = [Reading [97] 107, Address_Set 107, Read_Done 2, Value_Is [97] 555]"
proof -
  obtain t where t: "\<And>w. mapping_ok (linux_daemon t w)" "\<And>w. register_of (linux_daemon t w) = [[97] \<mapsto> 107]"
    using linux_daemon_ok by blast
  let ?x = "(bus_state (unit_with [555]) [], Some \<lparr>handle_block = 1, start_address = 0, handle_dev = True\<rparr>)"
  let ?d = "linux_daemon t (demo_host [read_line [97]], ?x)"
  let ?w = "((demo_host [])\<lparr>heap := [5, 4, 3, 2, 1]\<rparr>, ?x)"
  have "returns (main_pass linux_system ?d) (\<lambda>(c, d'). c = Continue \<and>
    d_out d' = d_out ?d @ [Reading [97] 107, Address_Set 107, Read_Done 2, Value_Is [97] 555])"
  proof (rule daemon_prints_unit_register [OF linux.system_calls_axioms t(1),
        where h = "\<lparr>handle_block = 1, start_address = 0, handle_dev = True\<rparr>"])
    show "typed linux_system (d_env ?d) (read_line [97]) 5 ?w"
      using linux_typed [of "read_line [97]" ?x] by (simp add: linux_daemon_def read_line_def)
    show "register_of ?d [97] = Some 107" by (simp only: t(2) fun_upd_same)
  qed (use unit_with_ok [of "[555]"] in \<open>simp_all add: linux_daemon_def\<close>)
  then show ?thesis by (auto simp: linux_daemon_def elim!: returnsE)
qed

text \<open>
  C4: from the keyboard to the line: when \<open>!name=v\<close> is typed for a name that the mapping gives the
  address \<open>a\<close>, and unit 1 acknowledges the request that writes \<open>v\<close> to register \<open>a\<close>, whatever it
  does with other requests, the daemon reports that two bytes were written.
\<close>

theorem daemon_writes_unit_register:
  assumes "system_calls k live wait kblocks elapsed transit reply user m fd device file_data"
    and "mapping_ok d" and "d_fd d = fd" and "typed m (d_env d) (write_line name v) p w"
    and "name_ok (ascii (CHR ''='')) name" and "v \<le> 65535" and "register_of d name = Some a" and "unat a < 65535"
    and "file_data w = Some h" and "handle_dev h"
    and "module_ok k live (device w)" and "line_idle live elapsed transit (drv (device w))"
    and "line_answer reply (drv (device w)) (write_request (ucast a) [of_nat v]) = write_ack (ucast a) 1"
  shows "returns (main_pass m d) (\<lambda>(c, d'). c = Continue \<and>
    d_out d' = d_out d @ [Writing (of_nat v) name a, Address_Set a, Write_Done 2])"
proof -
  obtain r w1 where io: "sys_ioctl m fd SERIAL_MODBUSCHAR_IOCSETADDR a w = (r, w1)" by fastforce
  note set = system_calls.ioctl_effect [OF assms(1,9,10,8,11,12) io]
  obtain r' w2 where wr: "sys_write m fd (u16_bytes (of_nat v)) w1 = (r', w2)" by fastforce
  have got: "r' = 2"
    using system_calls.write_effect [OF assms(1), of w1 "h\<lparr>start_address := ucast a\<rparr>", OF _ _ _ assms(8) _ _ _ wr]
      set assms(10,13) by simp
  have pos: "\<not> (2 :: i32) <s 0" "(0 :: i32) \<le>s r" using set by (simp_all add: word_sless_alt word_sle_eq)
  show ?thesis
    using main_pass_write [OF assms(2,4,5,6,7)] io wr got pos assms(3) by (auto elim!: returns_mono)
qed

theorem daemon_writes_unit_register_witness:
  "\<exists>d d'. main_pass linux_system d = Some (Continue, d') \<and>
     d_out d' = [Writing 513 [97] 107, Address_Set 107, Write_Done 2]"
proof -
  obtain t where t: "\<And>w. mapping_ok (linux_daemon t w)" "\<And>w. register_of (linux_daemon t w) = [[97] \<mapsto> 107]"
    using linux_daemon_ok by blast
  let ?u = "\<lambda>frame. if frame = write_request 107 [513] then [write_ack 107 1] else []"
  let ?x = "(bus_state ?u [], Some \<lparr>handle_block = 1, start_address = 0, handle_dev = True\<rparr>)"
  let ?d = "linux_daemon t (demo_host [write_line [97] 513], ?x)"
  let ?w = "((demo_host [])\<lparr>heap := [5, 4, 3, 2, 1]\<rparr>, ?x)"
  have ok: "\<forall>f. \<forall>b\<in>set (?u f). length b < 2 ^ 31" by (simp add: write_ack_def)
  have answer: "line_answer bus_unit (drv (bus_state ?u [])) (write_request 107 [513]) = write_ack 107 1"
    by (simp add: bus_state_answer answer_of_def write_ack_def)
  have "returns (main_pass linux_system ?d) (\<lambda>(c, d'). c = Continue \<and>
    d_out d' = d_out ?d @ [Writing (of_nat 513) [97] 107, Address_Set 107, Write_Done 2])"
  proof (rule daemon_writes_unit_register [OF linux.system_calls_axioms t(1),
        where h = "\<lparr>handle_block = 1, start_address = 0, handle_dev = True\<rparr>"])
    show "typed linux_system (d_env ?d) (write_line [97] 513) 5 ?w"
      using linux_typed [of "write_line [97] 513" ?x] by (simp add: linux_daemon_def write_line_def decimal_digits.simps)
    show "register_of ?d [97] = Some 107" by (simp only: t(2) fun_upd_same)
  qed (use bus_state_ok [OF ok] answer in \<open>simp_all add: linux_daemon_def name_ok_def\<close>)
  then show ?thesis by (auto simp: linux_daemon_def elim!: returnsE)
qed

end
