(* ===== verification/Serial_Demo.thy ===== *)
theory Serial_Demo
  imports Serial_Control Modbus_Codec
begin

text \<open>
  The program \<^verbatim>\<open>serial_demo/serial_demo.c\<close>: a fixed sequence of transfers through the driver's
  device.  The system calls are those of the \<open>system\<close> of \<open>Serial_Control\<close>; the names of the
  functions that both programs have get the suffix \<open>_demo\<close>.  Constant lines of output are left
  out.
\<close>

section \<open>State\<close>

datatype demo_line =
    Null_Buffer | Registers "u16 list" | Driver_Missing | Read_Error i32 | Bytes_Read i32
  | Write_Error i32 | Bytes_Written i32 | Address_Error u64 i32 | Address_Is u64

text \<open>The global \<^verbatim>\<open>fd\<close>, the variable \<^verbatim>\<open>buf\<close> of \<^verbatim>\<open>main\<close>, the environment and the output.\<close>

record 'e demo_state =
  demo_fd :: i32
  demo_buf :: "u16 list"
  demo_env :: 'e
  demo_out :: "demo_line list"

definition printed :: "demo_line list \<Rightarrow> 'e demo_state \<Rightarrow> 'e demo_state" where
  "printed ls s = s\<lparr>demo_out := demo_out s @ ls\<rparr>"

definition cleanup_demo :: "'e system \<Rightarrow> 'e demo_state \<Rightarrow> 'e demo_state" where
  "cleanup_demo m s = (if demo_fd s \<noteq> 0 then s\<lparr>demo_env := sys_close m (demo_fd s) (demo_env s)\<rparr> else s)"

definition terminate_normally_demo :: "'e system \<Rightarrow> 'e demo_state \<Rightarrow> control \<times> 'e demo_state" where
  "terminate_normally_demo m s = (Exit 0, cleanup_demo m s)"

definition terminate_with_error_demo :: "'e system \<Rightarrow> 'e demo_state \<Rightarrow> control \<times> 'e demo_state" where
  "terminate_with_error_demo m s = (Exit 1, cleanup_demo m s)"

definition handle_signal_demo :: "'e system \<Rightarrow> i32 \<Rightarrow> 'e demo_state \<Rightarrow> control \<times> 'e demo_state" where
  "handle_signal_demo m signal s =
     (if signal = SIGINT \<or> signal = SIGTERM then terminate_normally_demo m s else (Continue, s))"

section \<open>Transfers\<close>

text \<open>The \<open>k\<close> values from index \<open>i\<close>, read in the order of the loop.\<close>

primrec values_from :: "u16 list \<Rightarrow> nat \<Rightarrow> nat \<Rightarrow> u16 list option" where
  "values_from buf 0 i = Some []"
| "values_from buf (Suc k) i = do { x \<leftarrow> buf_get buf i; xs \<leftarrow> values_from buf k (i + 1); Some (x # xs) }"

text \<open>
  The loop prints \<open>length - 1\<close> values, of the unsigned type, and the line after it one more.  The
  pointer is never NULL in this program.
\<close>

definition print_buffer :: "u16 list option \<Rightarrow> u64 \<Rightarrow> demo_line list option" where
  "print_buffer buf len = (case buf of
     None \<Rightarrow> Some [Null_Buffer]
   | Some buf \<Rightarrow> do {
       xs \<leftarrow> values_from buf (unat (len - 1)) 0;
       x \<leftarrow> buf_get buf (unat (len - 1));
       Some [Registers (xs @ [x])]
     })"

definition read_from_modbus_demo :: "'e system \<Rightarrow> u64 \<Rightarrow> 'e demo_state \<Rightarrow> 'e demo_state option" where
  "read_from_modbus_demo m n_regs s = (
     let n_bytes = n_regs * 2 in
     (case sys_read m (demo_fd s) (unat n_bytes) (demo_env s) of (res, bytes, e) \<Rightarrow> do {
        mem \<leftarrow> buf_splice (host_bytes (demo_buf s)) 0 bytes;
        let s = s\<lparr>demo_buf := host_words mem, demo_env := e\<rparr>;
        if res <s 0 then Some (printed [Read_Error res] s)
        else do {
          ls \<leftarrow> print_buffer (Some (demo_buf s)) n_regs;
          Some (printed (Bytes_Read res # ls) s)
        }
      }))"

definition write_to_modbus_demo :: "'e system \<Rightarrow> u64 \<Rightarrow> 'e demo_state \<Rightarrow> 'e demo_state option" where
  "write_to_modbus_demo m n_regs s = do {
     let n_bytes = n_regs * 2;
     bytes \<leftarrow> buf_slice (host_bytes (demo_buf s)) 0 (unat n_bytes);
     let (res, e) = sys_write m (demo_fd s) bytes (demo_env s);
     Some (printed [if res <s 0 then Write_Error res else Bytes_Written res] (s\<lparr>demo_env := e\<rparr>))
   }"

definition set_modbus_address_demo :: "'e system \<Rightarrow> u64 \<Rightarrow> 'e demo_state \<Rightarrow> 'e demo_state" where
  "set_modbus_address_demo m address s = (case sys_ioctl m (demo_fd s) SERIAL_MODBUSCHAR_IOCSETADDR address (demo_env s) of (res, e) \<Rightarrow>
     printed [if res <s 0 then Address_Error address res else Address_Is address] (s\<lparr>demo_env := e\<rparr>))"

text \<open>\<^verbatim>\<open>memset\<close> over the whole buffer, then the first registers.\<close>

definition fill :: "u16 list \<Rightarrow> 'e demo_state \<Rightarrow> 'e demo_state" where
  "fill xs s = s\<lparr>demo_buf := xs @ replicate (64 - length xs) 0\<rparr>"

section \<open>The program\<close>

text \<open>Everything up to the last transfer.  \<^verbatim>\<open>UINT16_MAX + 1\<close> is the last address.\<close>

definition demo_transfers :: "'e system \<Rightarrow> 'e demo_state \<Rightarrow> 'e demo_state option" where
  "demo_transfers m s = do {
     let s = fill [] s;
     s \<leftarrow> read_from_modbus_demo m 16 s;
     let s = fill [0xF0C1, 0xF0C2, 0xF0C3, 0xF0C4] s;
     s \<leftarrow> write_to_modbus_demo m 4 s;
     s \<leftarrow> read_from_modbus_demo m 16 s;
     let s = set_modbus_address_demo m 4 s;
     let s = fill [0xF0C5, 0xF0C6, 0xF0C7, 0xF0C8] s;
     s \<leftarrow> write_to_modbus_demo m 4 s;
     let s = set_modbus_address_demo m 0 s;
     s \<leftarrow> read_from_modbus_demo m 16 s;
     Some (set_modbus_address_demo m (65535 + 1) s)
   }"

definition main_demo :: "'e system \<Rightarrow> 'e \<Rightarrow> (control \<times> 'e demo_state) option" where
  "main_demo m e = (case sys_open m e of (fd, e) \<Rightarrow>
     let s = \<lparr>demo_fd = fd, demo_buf = [], demo_env = e, demo_out = []\<rparr> in
     if fd <s 0 then Some (Exit 1, printed [Driver_Missing] s)
     else do {
       s \<leftarrow> demo_transfers m s;
       s \<leftarrow> read_from_modbus_demo m 65 s;
       Some (Exit 0, cleanup_demo m s)
     })"

section \<open>Facts\<close>

lemma values_from_eq: "i + k \<le> length buf \<Longrightarrow> values_from buf k i = Some (take k (drop i buf))"
  by (induction k arbitrary: i) (simp_all add: buf_get_in take_Suc_conv_app_nth Cons_nth_drop_Suc [symmetric])

lemma print_buffer_eq:
  assumes "0 < unat len" "unat len \<le> length buf"
  shows "print_buffer (Some buf) len = Some [Registers (take (unat len) buf)]"
proof -
  have "len \<noteq> 0" using assms(1) by auto
  then have l: "unat (len - 1) = unat len - 1" by (rule unat_minus_one)
  have "take (unat len) buf = take (unat len - 1) buf @ [buf ! (unat len - 1)]"
    using assms take_Suc_conv_app_nth [of "unat len - 1" buf] by simp
  then show ?thesis using assms by (simp add: print_buffer_def l values_from_eq buf_get_in)
qed

lemma values_from_beyond: "i \<le> length buf \<Longrightarrow> length buf < i + k \<Longrightarrow> values_from buf k i = None"
proof (induction k arbitrary: i)
  case (Suc k)
  show ?case
  proof (cases "i < length buf")
    case True
    then show ?thesis using Suc.IH [of "i + 1"] Suc.prems by simp
  next
    case False
    then show ?thesis by (simp add: buf_get_def)
  qed
qed simp

text \<open>A length of 0 makes the loop run through the address space.\<close>

lemma print_buffer_zero:
  assumes "length buf < 2 ^ 64 - 1"
  shows "print_buffer (Some buf) 0 = None"
proof -
  have "unat (0 - 1 :: u64) = 2 ^ 64 - 1" by (simp add: unsigned_minus_1_eq_mask mask_eq_exp_minus_1)
  then show ?thesis using assms values_from_beyond [of 0 buf "2 ^ 64 - 1"] by (simp add: print_buffer_def)
qed

text \<open>One transfer within the buffer.\<close>

lemma read_demo_returns:
  assumes "length (demo_buf s) = 64" "0 < unat n" "unat n \<le> 64"
    and "length (fst (snd (sys_read m (demo_fd s) (unat n * 2) (demo_env s)))) \<le> unat n * 2"
  shows "returns (read_from_modbus_demo m n s) (\<lambda>s'. length (demo_buf s') = 64 \<and> demo_fd s' = demo_fd s)"
proof -
  have n: "unat (n * 2) = unat n * 2" using assms(3) by (simp add: unat_word_ariths)
  obtain res bytes e where r: "sys_read m (demo_fd s) (unat n * 2) (demo_env s) = (res, bytes, e)" by (metis prod_cases3)
  let ?buf = "host_words (bytes @ drop (length bytes) (host_bytes (demo_buf s)))"
  have "length bytes \<le> 128" using assms(3,4) r by simp
  then have "length ?buf = 64" using assms(1) by simp
  then show ?thesis
    using assms print_buffer_eq [of n ?buf] n r \<open>length bytes \<le> 128\<close>
    by (simp add: read_from_modbus_demo_def printed_def buf_splice_def Let_def)
qed

lemma write_demo_returns:
  assumes "length (demo_buf s) = 64"
  shows "returns (write_to_modbus_demo m 4 s) (\<lambda>s'. length (demo_buf s') = 64 \<and> demo_fd s' = demo_fd s)"
  using assms by (simp add: write_to_modbus_demo_def printed_def split: prod.split)

lemma address_demo [simp]:
  "demo_buf (set_modbus_address_demo m a s) = demo_buf s" "demo_fd (set_modbus_address_demo m a s) = demo_fd s"
  by (simp_all add: set_modbus_address_demo_def printed_def split: prod.split)

lemma fill_demo: "length xs \<le> 64 \<Longrightarrow> length (demo_buf (fill xs s)) = 64" "demo_fd (fill xs s) = demo_fd s"
  by (simp_all add: fill_def)

lemma demo_transfers_returns:
  assumes read: "\<And>fd n e. length (fst (snd (sys_read m fd n e))) \<le> n"
  shows "returns (demo_transfers m s) (\<lambda>s'. length (demo_buf s') = 64 \<and> demo_fd s' = demo_fd s)"
proof -
  have r: "returns (read_from_modbus_demo m 16 s1) (\<lambda>s'. length (demo_buf s') = 64 \<and> demo_fd s' = demo_fd s)"
    if "length (demo_buf s1) = 64" "demo_fd s1 = demo_fd s" for s1
    using read_demo_returns [of s1 16 m] read that by simp
  have w: "returns (write_to_modbus_demo m 4 s1) (\<lambda>s'. length (demo_buf s') = 64 \<and> demo_fd s' = demo_fd s)"
    if "length (demo_buf s1) = 64" "demo_fd s1 = demo_fd s" for s1
    using write_demo_returns [of s1 m] that by simp
  note weaken = returns_mono [OF r] returns_mono [OF w]
  show ?thesis
    unfolding demo_transfers_def Let_def returns_bind returns_Some
    by (rule weaken; (elim conjE)?; (simp add: fill_demo)?)+
qed

section \<open>Properties\<close>

text \<open>
  C40: every transfer but the last stays in the buffer of 64 registers.  The last one, which the
  program means to be refused, does not: unless it fails, the 65 registers leave the buffer and
  the program has no defined result.
\<close>

theorem demo_last_read_overflows:
  assumes "\<And>fd n e. length (fst (snd (sys_read m fd n e))) \<le> n"
    and "sys_open m e = (fd, e1)" and "0 \<le>s fd"
  shows "returns (demo_transfers m \<lparr>demo_fd = fd, demo_buf = [], demo_env = e1, demo_out = []\<rparr>) (\<lambda>s.
    case sys_read m fd 130 (demo_env s) of (res, bytes, _) \<Rightarrow>
      if 0 \<le>s res then main_demo m e = None
      else bytes = [] \<longrightarrow> returns (main_demo m e) (\<lambda>(c, s'). c = Exit 0))"
proof -
  let ?s0 = "\<lparr>demo_fd = fd, demo_buf = [], demo_env = e1, demo_out = []\<rparr>"
  obtain s where s: "demo_transfers m ?s0 = Some s" "length (demo_buf s) = 64" "demo_fd s = fd"
    using demo_transfers_returns [OF assms(1), of ?s0] by (auto elim!: returnsE)
  obtain res bytes e2 where r: "sys_read m fd 130 (demo_env s) = (res, bytes, e2)" by (metis prod_cases3)
  have sign: "res <s 0 \<longleftrightarrow> \<not> 0 \<le>s res" for res :: i32 by (simp add: word_sless_alt word_sle_eq not_le)
  have main: "main_demo m e = do { s \<leftarrow> read_from_modbus_demo m 65 s; Some (Exit 0, cleanup_demo m s) }"
    using assms(2,3) s(1) sign by (simp add: main_demo_def)
  show ?thesis
  proof (cases "0 \<le>s res")
    case True
    have "print_buffer (Some buf) 65 = None" if "length buf = 64" for buf
      using that values_from_eq [of 0 64 buf] by (simp add: print_buffer_def buf_get_def)
    then have "read_from_modbus_demo m 65 s = None"
      using True s r sign by (auto simp: read_from_modbus_demo_def buf_splice_def Let_def)
    then show ?thesis using True s r main by simp
  next
    case False
    then show ?thesis
      using s r sign main by (simp add: read_from_modbus_demo_def buf_splice_def printed_def Let_def)
  qed
qed

text \<open>A device that fills every read with zeros.\<close>

definition zero_device :: "unit system" where
  "zero_device = \<lparr>lib = \<lparr>malloc = \<lambda>n e. (None, e), calloc = \<lambda>n k e. (None, e), strdup = \<lambda>str e. (None, e), free = \<lambda>p e. e\<rparr>,
     contents = \<lambda>p n e. [], fopen = \<lambda>name e. (False, e), fclose = \<lambda>e. e, getline = \<lambda>p e. (None, p, e),
     sys_open = \<lambda>e. (3, e), sys_close = \<lambda>fd e. e, sys_read = \<lambda>fd n e. (of_nat n, replicate n 0, e),
     sys_write = \<lambda>fd bytes e. (of_nat (length bytes), e), sys_ioctl = \<lambda>fd cmd a e. (0, e)\<rparr>"

theorem demo_last_read_overflows_witness: "main_demo zero_device () = None"
proof -
  let ?s0 = "\<lparr>demo_fd = 3, demo_buf = [], demo_env = (), demo_out = []\<rparr>"
  have "returns (demo_transfers zero_device ?s0) (\<lambda>s. case sys_read zero_device 3 130 (demo_env s) of (res, bytes, _) \<Rightarrow>
      if 0 \<le>s res then main_demo zero_device () = None
      else bytes = [] \<longrightarrow> returns (main_demo zero_device ()) (\<lambda>(c, s'). c = Exit 0))"
    by (rule demo_last_read_overflows) (simp_all add: zero_device_def word_sle_eq)
  moreover have "sys_read zero_device 3 130 u = (130, replicate 130 0, ())" for u
    by (simp add: zero_device_def)
  moreover have "(0 :: i32) \<le>s 130" by (simp add: word_sle_eq)
  ultimately show ?thesis by (auto elim!: returnsE)
qed

end
