(* ===== verification/Spec2Isabelle.thy ===== *)
theory Spec2Isabelle
  imports Driver_Properties Hash_Heap Client_Server Daemon_Driver Serial_Demo
begin

text \<open>
  A verification development for a serial Modbus driver and its user programs.

  \<^bold>\<open>The program.\<close>  \<^verbatim>\<open>serial_driver/\<close> is a Linux kernel module that offers the registers of one Modbus
  RTU unit as a character device.  A \<^verbatim>\<open>read\<close> or \<^verbatim>\<open>write\<close> of the device becomes one request of the
  Modbus library \<^verbatim>\<open>nanomodbus.c\<close>, which sends and receives bytes through the module's functions
  \<^verbatim>\<open>write_serial\<close> and \<^verbatim>\<open>read_serial\<close>; the bytes that the serial device delivers in a callback wait
  in the ring of \<^verbatim>\<open>byte_fifo.c\<close>.  An ioctl sets the start address of a file.  \<^verbatim>\<open>serial_control/\<close> is a
  daemon that reads a file of names and addresses into the hash table of \<^verbatim>\<open>ht.c\<close> and then executes the
  commands \<^verbatim>\<open>!name=value\<close> and \<^verbatim>\<open>?name\<close> on the device.  \<^verbatim>\<open>serial_demo/\<close> is a fixed sequence of transfers.

  \<^bold>\<open>How the model is made.\<close>  An operation of the code is a function into \<open>option\<close>; \<open>None\<close> means that
  the C code has no defined result: it leaves an object, follows NULL, or loops for ever.  Hence
  \<open>returns (f x) Q\<close> states memory safety and termination together with the result.  A loop that need
  not end is \<open>partial_function (option)\<close>: the probe of the hash table and the daemon's command loop are
  \<open>loop\<close> of the definition of one pass, and \<open>endless\<close> tells the run that goes on for ever, every pass of
  it defined, from the undefined one; both have the result \<open>None\<close>.  Errors that the code reports are
  ordinary values.  Machine integers are words of their width; C buffers are lists with checked access.
  Structs are records with the fields of the source; pointers to them are passed as values, since
  no operation of the code keeps two pointers into the same object.  Where contents of user or heap
  memory matter, the host is a 64-bit little-endian machine.  What the code calls but does not contain
  (kernel services, the C library's heap and files, system calls, callbacks of a server's user) is a
  record of functions on an environment of arbitrary type; the documented behaviour that a proof
  uses is the \<open>assumes\<close> of a locale, and every locale is interpreted on a concrete instance.

  \<^bold>\<open>Theories.\<close>
    \<^item> \<open>Prelude\<close>: integer types, errno values, checked buffers, \<open>returns\<close>, loops by passes.
    \<^item> \<open>Byte_Fifo\<close> (\<^verbatim>\<open>byte_fifo.c\<close>): the ring; it refines a list that loses its oldest bytes; its locked
      sections as steps of a concurrent system, with an invariant of all interleavings.
    \<^item> \<open>Modbus_Types\<close>, \<open>Modbus_Codec\<close>, \<open>Modbus_Crc\<close>, \<open>Modbus_Transport\<close> (\<^verbatim>\<open>nanomodbus.h\<close>, \<^verbatim>\<open>nanomodbus.c\<close>): data,
      message buffer, checksum (a residue test that detects every burst of up to 16 bits, at any bit
      position), header and footer of both transports.
    \<^item> \<open>Modbus_Client\<close>, \<open>Modbus_Records\<close>: every request of the client and every parser of a response.
    \<^item> \<open>Modbus_Exchange\<close>: locale \<open>half_duplex_line\<close>, a line that delivers what the unit answers; there the result
      of a request is a function of the answer, the malformed answers included.
    \<^item> \<open>Modbus_Server\<close>: every handler of the server.  \<open>Server_Wire\<close>: running it on known bytes.
      \<open>Server_Reference\<close>: requests and answers as data and the function \<open>serve\<close> that a server should be; each
      handler refines it.  \<open>Server_Checksum\<close>: no handler acts on a frame with a wrong checksum.
      \<open>Server_Properties\<close>: the claims.  \<open>Client_Server\<close>: the link of a client with a
      server is a \<open>half_duplex_line\<close>, so what one reads is what the other's callbacks answered.
    \<^item> \<open>Modbus_Ioctl\<close> (\<^verbatim>\<open>serial_modbus_ioctl.h\<close>): the ioctl command that driver and programs share.
    \<^item> \<open>Driver_Serial\<close>, \<open>Driver_Device\<close> (\<^verbatim>\<open>serial_modbus_main.c\<close>): serial functions, file operations, ioctl,
      probe, loading.  \<open>Driver_Line\<close>: on a kernel whose calls take bounded time (\<open>timely_kernel\<close>) the serial
      functions are a \<open>half_duplex_line\<close>.  \<open>Bus_Simulation\<close>: a kernel and a bus that satisfy the
      assumptions.  \<open>Driver_Properties\<close>: the claims.
    \<^item> \<open>Hash_Table\<close>, \<open>Hash_Heap\<close> (\<^verbatim>\<open>ht.c\<close>): the table is a map (locale \<open>dictionary\<close>), ends its probes, and owns
      its memory on any heap with the laws of \<open>c_heap\<close>.
    \<^item> \<open>Serial_Control\<close> (\<^verbatim>\<open>serial_control.c\<close>): the daemon.  \<open>Daemon_Memory\<close>: its invariant \<open>daemon_inv\<close>, the map
      file, the ends.  \<open>Daemon_Commands\<close>: what one pass of the loop does with its input.  \<open>Daemon_Run\<close>: passes
      and signals as a step relation.  \<open>Daemon_Properties\<close>: a concrete host, the claims.
      \<open>Daemon_Driver\<close>: the daemon on the driver, through system calls (locale \<open>system_calls\<close>).
    \<^item> \<open>Serial_Demo\<close> (\<^verbatim>\<open>serial_demo.c\<close>): the demonstration program.

  \<^bold>\<open>The claims\<close>, by part.
    \<^item> Whole system: a typed \<^verbatim>\<open>?name\<close> prints the register of the unit, a typed \<^verbatim>\<open>!name=value\<close> writes it.
    \<^item> Driver: reads deliver and writes send exactly the registers of the request; on any line the calls end
      in their memory with one of four errors, and release the kernel memory that they took; exceptions and timeouts as the library sees them; the ioctl;
      loading, and the states that the other claims start from.  Three claims are about defects: a long
      answer overruns the kernel buffer, a frame in two bursts is garbled, a device that is probed during
      the load is forgotten.
    \<^item> Ring: both operations refine the list; no byte is lost or made up by any interleaving.
    \<^item> Server: refinement of \<open>serve\<close>, corrupted requests of all twelve codes that have a handler, unknown
      codes (answered before the checksum is read), an overflow of the message buffer; round trips with
      the client.
    \<^item> Hash table: lookup after any history, iteration, ownership of memory, divergence of a full table.
    \<^item> Daemon: commands, map file, invariants of one pass and of every run, memory at every end, the
      overflow of a name, the loop at the end of the input.

  \<^bold>\<open>Bounds.\<close>  A clock call takes at most 1 ms, a sleep of 10 ms at most 20 ms, a transmission at most
  100 ms; an answer is one burst of at most 256 bytes after at most 31 silent sleeps: then the first
  byte arrives before the library's deadline of one second.  The clock starts below \<open>2 ^ 61\<close> ns so that no
  sum wraps.  The rings of the claims hold 256 bytes, the size of the driver's ring.  A line of the
  map file needs at most four blocks, hence the bound \<open>4 * lines + 4\<close> for loading it; the claim on the
  daemon's memory at its end needs no such bound.  Loops over a
  counter are recursions on the counter and need no fuel.

  \<^bold>\<open>Not modelled.\<close>  Receive callbacks at other times than during \<^verbatim>\<open>msleep\<close>, where the module waits
  for them; a \<^verbatim>\<open>getline\<close> that gets no memory.  Local arrays that the server and the driver leave uninitialised start as zeros; where
  uninitialised memory reaches a result, it is an arbitrary value (the upper half of an address in the
  daemon's map).  Debug and log output, except for the lines that the two programs print; static
  kernel tables (file operations, device ids); \<^verbatim>\<open>modbus_lock\<close> and the fifo's mutex are not fields: the
  regions that they protect are atomic steps.  \<^verbatim>\<open>sscanf\<close> is written out for the two formats in use; a number
  that is no \<^verbatim>\<open>unsigned int\<close> is undefined.  Signals are steps at the \<^verbatim>\<open>read\<close> of the daemon only.  Build files
  and scripts are not C code.  \<^verbatim>\<open>NMBS_DEBUG\<close>, the options that disable parts of the library, and the dummy driver are off.
\<close>

end
